(* ===== verification/Prelude.thy ===== *)
theory Prelude
  imports Main "HOL-Library.Word"
begin

text \<open>
  Shared vocabulary of the development: the machine types of the C sources, the outcomes of C code
  that may go wrong, and the generic lemmas about byte strings that the component theories use.
\<close>

unbundle bit_operations_syntax

section \<open>Machine types\<close>

type_synonym u8 = "8 word"
type_synonym u16 = "16 word"
type_synonym u32 = "32 word"
type_synonym u64 = "64 word"
type_synonym size_t = "64 word"
type_synonym bytes = "8 word list"

text \<open>
  A \<open>UInt256\<close> of \<open>BRInt.h\<close> is a union of arrays of 8, 16, 32 and 64 bit words. The sources require
  a little endian machine, so the union is one 256 bit word whose array views are slices of it.
\<close>

type_synonym UInt256 = "256 word"
type_synonym UInt512 = "512 word"
type_synonym UInt160 = "160 word"

section \<open>Outcomes\<close>

text \<open>
  What C code does when it does not return a value: an access outside an object, a null pointer
  dereference, a failed \<open>assert\<close>, a division by zero, a read of an uninitialised variable, or a loop
  that never ends.
\<close>

datatype fault = OutOfBounds | NullDeref | AssertFailed | DivByZero | Uninitialised | NoReturn

type_synonym 'a res = "fault + 'a"

definition rbind :: "'a res \<Rightarrow> ('a \<Rightarrow> 'b res) \<Rightarrow> 'b res" where
  "rbind m f = (case m of Inl e \<Rightarrow> Inl e | Inr x \<Rightarrow> f x)"

lemma rbind_Inl [simp]: "rbind (Inl e) f = Inl e"
  by (simp add: rbind_def)

lemma rbind_Inr [simp]: "rbind (Inr x) f = f x"
  by (simp add: rbind_def)

lemma rbind_eq_Inr_conv: "rbind m f = Inr y \<longleftrightarrow> (\<exists>x. m = Inr x \<and> f x = Inr y)"
  by (cases m) auto

lemma rbind_assoc: "rbind (rbind m f) g = rbind m (\<lambda>x. rbind (f x) g)"
  by (cases m) auto

lemma rbind_cong [fundef_cong]:
  "m = m' \<Longrightarrow> (\<And>x. m' = Inr x \<Longrightarrow> f x = f' x) \<Longrightarrow> rbind m f = rbind m' f'"
  by (cases m') auto

section \<open>Machine words as numbers\<close>

named_theorems unat_simps \<open>the value of a word operation, with its wrap-around\<close>

lemma unat_ucast [unat_simps]: "unat (ucast (w :: 'a::len word) :: 'b::len word) = unat w mod 2 ^ LENGTH('b)"
  by (simp add: unsigned_ucast_eq unsigned_take_bit_eq take_bit_eq_mod)

lemma unat_drop_bit [unat_simps]: "unat (drop_bit n w) = unat w div 2 ^ n"
  unfolding unsigned_drop_bit_eq by (simp add: drop_bit_eq_div take_bit_eq_mod)

lemma unat_push_bit [unat_simps]:
  "unat (push_bit n (w :: 'a::len word)) = unat w * 2 ^ n mod 2 ^ LENGTH('a)"
  by (metis unsigned_push_bit_eq push_bit_eq_mult take_bit_eq_mod)

lemma unat_take_bit [unat_simps]: "unat (take_bit n w) = unat w mod 2 ^ n"
  unfolding unsigned_take_bit_eq by (rule take_bit_eq_mod)

lemma take_bit_unat_small: "unat w < 2 ^ n \<Longrightarrow> take_bit n w = w"
  by (rule unsigned_word_eqI [where 'a = nat]) (simp only: unat_take_bit mod_less)

declare unat_word_ariths [unat_simps]

lemma unat_less_power: "unat (w :: 'a::len word) < 2 ^ LENGTH('a)"
  by (rule unsigned_less)

lemma unat_u8: "unat (w :: u8) < 256" and unat_u32: "unat (v :: u32) < 4294967296"
  using unat_less_power[of w] unat_less_power[of v] by simp_all

lemma unat_u64: "unat (w :: u64) < 18446744073709551616"
  using unat_less_power[of w] by simp

section \<open>Little and big endian byte strings\<close>

named_theorems byte_simps \<open>rewriting byte accessors to byte strings\<close>

definition le_bytes :: "nat \<Rightarrow> 'a::len word \<Rightarrow> bytes" where
  "le_bytes n w = map (\<lambda>i. ucast (drop_bit (8 * i) w)) [0..<n]"

primrec le_word :: "bytes \<Rightarrow> 'a::len word" where
  "le_word [] = 0"
| "le_word (b # bs) = ucast b OR push_bit 8 (le_word bs)"

lemma length_le_bytes [simp]: "length (le_bytes n w) = n"
  by (simp add: le_bytes_def)

lemma nth_le_bytes: "i < n \<Longrightarrow> le_bytes n w ! i = ucast (drop_bit (8 * i) w)"
  by (simp add: le_bytes_def)

lemma bit_le_word:
  "bit (le_word bs :: 'a::len word) k \<longleftrightarrow>
     k < LENGTH('a) \<and> k div 8 < length bs \<and> bit (bs ! (k div 8)) (k mod 8)"
proof (induction bs arbitrary: k)
  case Nil
  then show ?case by simp
next
  case (Cons b bs)
  show ?case
  proof (cases "k < 8")
    case True
    then show ?thesis
      by (auto simp: bit_or_iff bit_ucast_iff bit_push_bit_iff)
  next
    case False
    then obtain j where k: "k = j + 8" by (metis le_iff_add linorder_not_less add.commute)
    have "(j + 8) div 8 = Suc (j div 8)" by simp
    moreover have "\<not> bit (ucast b :: 'a word) k"
      using False by (auto simp: bit_ucast_iff dest: bit_imp_le_length)
    ultimately show ?thesis
      using Cons.IH[of j] by (auto simp: k bit_or_iff bit_push_bit_iff dest: bit_imp_le_length)
  qed
qed

lemma le_word_le_bytes:
  assumes "LENGTH('a) \<le> 8 * n"
  shows "le_word (le_bytes n w) = (w :: 'a::len word)"
proof (rule bit_word_eqI)
  fix k
  assume k: "k < LENGTH('a)"
  then have d: "k div 8 < n" using assms by auto
  have "8 * (k div 8) + k mod 8 = k" by simp
  with k d show "bit (le_word (le_bytes n w) :: 'a word) k \<longleftrightarrow> bit w k"
    by (simp add: bit_le_word nth_le_bytes bit_ucast_iff bit_drop_bit_eq)
qed

lemma le_bytes_le_word:
  assumes "length bs = n" and "8 * n \<le> LENGTH('a)"
  shows "le_bytes n (le_word bs :: 'a::len word) = bs"
proof (rule nth_equalityI)
  fix i
  assume i: "i < length (le_bytes n (le_word bs :: 'a word))"
  show "le_bytes n (le_word bs :: 'a word) ! i = bs ! i"
  proof (rule bit_word_eqI)
    fix k
    assume k: "k < LENGTH(8)"
    then have "8 * i + k < LENGTH('a)" "(8 * i + k) div 8 = i" "(8 * i + k) mod 8 = k"
      using i assms by auto
    then show "bit (le_bytes n (le_word bs :: 'a word) ! i) k \<longleftrightarrow> bit (bs ! i) k"
      using i k assms by (simp add: nth_le_bytes bit_ucast_iff bit_drop_bit_eq bit_le_word)
  qed
qed (simp add: assms)

lemma le_word_append_take:
  "LENGTH('a) \<le> 8 * n \<Longrightarrow> n \<le> length bs \<Longrightarrow> le_word (take n bs) = (le_word bs :: 'a::len word)"
  by (rule bit_word_eqI) (auto simp: bit_le_word)

definition be_bytes :: "nat \<Rightarrow> 'a::len word \<Rightarrow> bytes" where
  "be_bytes n w = rev (le_bytes n w)"

definition be_word :: "bytes \<Rightarrow> 'a::len word" where
  "be_word bs = le_word (rev bs)"

lemma length_be_bytes [simp]: "length (be_bytes n w) = n"
  by (simp add: be_bytes_def)

lemma be_word_be_bytes: "LENGTH('a) \<le> 8 * n \<Longrightarrow> be_word (be_bytes n w) = (w :: 'a::len word)"
  by (simp add: be_word_def be_bytes_def le_word_le_bytes)

lemma be_bytes_be_word:
  "length bs = n \<Longrightarrow> 8 * n \<le> LENGTH('a) \<Longrightarrow> be_bytes n (be_word bs :: 'a::len word) = bs"
  by (simp add: be_word_def be_bytes_def le_bytes_le_word)

text \<open>The number that little endian bytes stand for.\<close>

primrec le_val :: "bytes \<Rightarrow> nat" where
  "le_val [] = 0"
| "le_val (b # bs) = unat b + 256 * le_val bs"

lemma le_val_append: "le_val (xs @ ys) = le_val xs + 256 ^ length xs * le_val ys"
  by (induction xs) (simp_all add: algebra_simps)

lemma le_val_less: "le_val bs < 256 ^ length bs"
proof (induction bs)
  case (Cons b bs)
  have "unat b + 256 * le_val bs < 256 * (le_val bs + 1)" using unat_u8[of b] by simp
  also have "... \<le> 256 * 256 ^ length bs" using Cons.IH by (intro mult_le_mono2) simp
  finally show ?case by simp
qed simp

lemma le_val_zeros [simp]: "le_val (replicate n 0) = 0"
  by (induction n) simp_all

lemma le_bytes_Suc: "le_bytes (Suc n) w = ucast w # le_bytes n (drop_bit 8 w)"
  by (simp add: le_bytes_def upt_conv_Cons map_Suc_upt[symmetric] add.commute del: upt_Suc)

lemma le_val_le_bytes: "le_val (le_bytes n (w :: 'a::len word)) = unat w mod 256 ^ n"
proof (induction n arbitrary: w)
  case (Suc n)
  have "unat (ucast w :: u8) = unat w mod 256" by (simp add: unat_ucast)
  moreover have "unat w mod 256 + 256 * (unat w div 256 mod 256 ^ n) = unat w mod (256 * 256 ^ n)"
    by (simp add: mod_mult2_eq add.commute)
  ultimately show ?case by (simp add: le_bytes_Suc Suc.IH unat_drop_bit)
qed (simp add: le_bytes_def)

lemma unat_le_word:
  assumes "8 * length bs \<le> LENGTH('a)"
  shows "unat (le_word bs :: 'a::len word) = le_val bs"
proof -
  have "take_bit (8 * length bs) (le_word bs :: 'a word) = le_word bs"
  proof (rule bit_word_eqI)
    fix k
    assume "k < LENGTH('a)"
    moreover have "k div 8 < length bs \<longleftrightarrow> k < 8 * length bs" by (simp add: less_mult_imp_div_less div_less_iff_less_mult mult.commute)
    ultimately show "bit (take_bit (8 * length bs) (le_word bs :: 'a word)) k \<longleftrightarrow> bit (le_word bs :: 'a word) k"
      by (auto simp: bit_take_bit_iff bit_le_word)
  qed
  then have "unat (le_word bs :: 'a word) = unat (le_word bs :: 'a word) mod 2 ^ (8 * length bs)"
    using unat_take_bit[of "8 * length bs" "le_word bs :: 'a word"] by simp
  also have "(2 :: nat) ^ (8 * length bs) = 256 ^ length bs" by (simp add: power_mult)
  also have "unat (le_word bs :: 'a word) mod 256 ^ length bs = le_val (le_bytes (length bs) (le_word bs :: 'a word))"
    by (rule le_val_le_bytes[symmetric])
  finally show ?thesis using le_bytes_le_word[OF refl assms] by simp
qed

end
