(* ===== verification/BRInt.thy ===== *)
theory BRInt
  imports Prelude
begin

text \<open>
  \<open>BRInt.h\<close>: the large integer unions and the unaligned little and big endian accessors. A pointer
  into a buffer is the list of the bytes from that address on, so \<open>UInt32GetLE (drop off buf)\<close> is the
  C expression \<open>UInt32GetLE(&buf[off])\<close>.
\<close>

section \<open>Writers\<close>

definition UInt16SetLE :: "u16 \<Rightarrow> bytes" where
  "UInt16SetLE u = [ucast (u AND 0xff), ucast (drop_bit 8 u AND 0xff)]"

definition UInt16SetBE :: "u16 \<Rightarrow> bytes" where
  "UInt16SetBE u = [ucast (drop_bit 8 u AND 0xff), ucast (u AND 0xff)]"

definition UInt32SetLE :: "u32 \<Rightarrow> bytes" where
  "UInt32SetLE u = [ucast (u AND 0xff), ucast (drop_bit 8 u AND 0xff),
     ucast (drop_bit 16 u AND 0xff), ucast (drop_bit 24 u AND 0xff)]"

definition UInt32SetBE :: "u32 \<Rightarrow> bytes" where
  "UInt32SetBE u = [ucast (drop_bit 24 u AND 0xff), ucast (drop_bit 16 u AND 0xff),
     ucast (drop_bit 8 u AND 0xff), ucast (u AND 0xff)]"

definition UInt64SetLE :: "u64 \<Rightarrow> bytes" where
  "UInt64SetLE u = [ucast (u AND 0xff), ucast (drop_bit 8 u AND 0xff),
     ucast (drop_bit 16 u AND 0xff), ucast (drop_bit 24 u AND 0xff),
     ucast (drop_bit 32 u AND 0xff), ucast (drop_bit 40 u AND 0xff),
     ucast (drop_bit 48 u AND 0xff), ucast (drop_bit 56 u AND 0xff)]"

definition UInt64SetBE :: "u64 \<Rightarrow> bytes" where
  "UInt64SetBE u = [ucast (drop_bit 56 u AND 0xff), ucast (drop_bit 48 u AND 0xff),
     ucast (drop_bit 40 u AND 0xff), ucast (drop_bit 32 u AND 0xff),
     ucast (drop_bit 24 u AND 0xff), ucast (drop_bit 16 u AND 0xff),
     ucast (drop_bit 8 u AND 0xff), ucast (u AND 0xff)]"

text \<open>\<open>UInt256Set\<close> copies the 32 bytes of the union in memory order.\<close>

definition UInt256Set :: "UInt256 \<Rightarrow> bytes" where
  "UInt256Set u = le_bytes 32 u"

section \<open>Readers\<close>

definition UInt16GetLE :: "bytes \<Rightarrow> u16" where
  "UInt16GetLE b = push_bit 8 (ucast (b ! 1)) OR ucast (b ! 0)"

definition UInt16GetBE :: "bytes \<Rightarrow> u16" where
  "UInt16GetBE b = push_bit 8 (ucast (b ! 0)) OR ucast (b ! 1)"

definition UInt32GetLE :: "bytes \<Rightarrow> u32" where
  "UInt32GetLE b = push_bit 24 (ucast (b ! 3)) OR push_bit 16 (ucast (b ! 2)) OR
     push_bit 8 (ucast (b ! 1)) OR ucast (b ! 0)"

definition UInt32GetBE :: "bytes \<Rightarrow> u32" where
  "UInt32GetBE b = push_bit 24 (ucast (b ! 0)) OR push_bit 16 (ucast (b ! 1)) OR
     push_bit 8 (ucast (b ! 2)) OR ucast (b ! 3)"

definition UInt64GetLE :: "bytes \<Rightarrow> u64" where
  "UInt64GetLE b = push_bit 56 (ucast (b ! 7)) OR push_bit 48 (ucast (b ! 6)) OR
     push_bit 40 (ucast (b ! 5)) OR push_bit 32 (ucast (b ! 4)) OR
     push_bit 24 (ucast (b ! 3)) OR push_bit 16 (ucast (b ! 2)) OR
     push_bit 8 (ucast (b ! 1)) OR ucast (b ! 0)"

definition UInt64GetBE :: "bytes \<Rightarrow> u64" where
  "UInt64GetBE b = push_bit 56 (ucast (b ! 0)) OR push_bit 48 (ucast (b ! 1)) OR
     push_bit 40 (ucast (b ! 2)) OR push_bit 32 (ucast (b ! 3)) OR
     push_bit 24 (ucast (b ! 4)) OR push_bit 16 (ucast (b ! 5)) OR
     push_bit 8 (ucast (b ! 6)) OR ucast (b ! 7)"

definition UInt256Get :: "bytes \<Rightarrow> UInt256" where
  "UInt256Get b = le_word (take 32 b)"

definition UInt256IsZero :: "UInt256 \<Rightarrow> bool" where
  "UInt256IsZero u \<longleftrightarrow> u = 0"

definition UInt256Reverse :: "UInt256 \<Rightarrow> UInt256" where
  "UInt256Reverse u = le_word (rev (le_bytes 32 u))"

section \<open>The accessors are the little and big endian codecs\<close>

lemma ucast_and_ff: "ucast (w AND 0xff) = (ucast (w :: 'a::len word) :: u8)"
proof -
  have "(0xff :: 'a word) = mask 8"
    by (simp add: mask_eq_exp_minus_1)
  then have "w AND 0xff = take_bit 8 w"
    by (simp add: take_bit_eq_mask)
  then show ?thesis
    by (auto intro!: bit_word_eqI simp: bit_ucast_iff bit_take_bit_iff)
qed

lemma setLE_le_bytes [byte_simps]:
  "UInt16SetLE u16 = le_bytes 2 u16"
  "UInt32SetLE u32 = le_bytes 4 u32"
  "UInt64SetLE u64 = le_bytes 8 u64"
  "UInt256Set u256 = le_bytes 32 u256"
  by (simp_all add: UInt16SetLE_def UInt32SetLE_def UInt64SetLE_def UInt256Set_def le_bytes_def
      ucast_and_ff upt_rec)

lemma setBE_be_bytes [byte_simps]:
  "UInt16SetBE u16 = be_bytes 2 u16"
  "UInt32SetBE u32 = be_bytes 4 u32"
  "UInt64SetBE u64 = be_bytes 8 u64"
  by (simp_all add: UInt16SetBE_def UInt32SetBE_def UInt64SetBE_def be_bytes_def le_bytes_def
      ucast_and_ff upt_rec)

lemma take_nth: "n \<le> length b \<Longrightarrow> take n b = map ((!) b) [0..<n]"
  by (simp add: list_eq_iff_nth_eq)

lemma upt_literals:
  "[0..<2] = [0, 1 :: nat]" "[0..<4] = [0, 1, 2, 3 :: nat]"
  "[0..<8] = [0, 1, 2, 3, 4, 5, 6, 7 :: nat]"
  by (simp_all add: upt_rec numeral_eq_Suc)

lemma getLE_le_word [byte_simps]:
  "2 \<le> length b \<Longrightarrow> UInt16GetLE b = le_word (take 2 b)"
  "4 \<le> length b \<Longrightarrow> UInt32GetLE b = le_word (take 4 b)"
  "8 \<le> length b \<Longrightarrow> UInt64GetLE b = le_word (take 8 b)"
  by (simp_all add: UInt16GetLE_def UInt32GetLE_def UInt64GetLE_def take_nth upt_literals
      push_bit_or ac_simps)

lemma getBE_be_word [byte_simps]:
  "2 \<le> length b \<Longrightarrow> UInt16GetBE b = be_word (take 2 b)"
  "4 \<le> length b \<Longrightarrow> UInt32GetBE b = be_word (take 4 b)"
  "8 \<le> length b \<Longrightarrow> UInt64GetBE b = be_word (take 8 b)"
  by (simp_all add: UInt16GetBE_def UInt32GetBE_def UInt64GetBE_def be_word_def take_nth upt_literals
      push_bit_or ac_simps)

text \<open>Reading back what was written, with anything after it in the buffer.\<close>

lemma get_set_LE [simp]:
  "UInt16GetLE (UInt16SetLE u16 @ r) = u16"
  "UInt32GetLE (UInt32SetLE u32 @ r) = u32"
  "UInt64GetLE (UInt64SetLE u64 @ r) = u64"
  "UInt256Get (UInt256Set u256 @ r) = u256"
  by (simp_all add: byte_simps UInt256Get_def le_word_le_bytes)

lemma length_setLE [simp]:
  "length (UInt16SetLE u16) = 2" "length (UInt32SetLE u32) = 4"
  "length (UInt64SetLE u64) = 8" "length (UInt256Set u256) = 32"
  by (simp_all add: byte_simps)

end
