(* ===== verification/BRSetCorrect.thy ===== *)
theory BRSetCorrect
  imports BRSet
begin

text \<open>
  Correctness of the hash table of \<open>BRSet.c\<close>: the representation invariant, the fact that every probe
  ends, and the refinement of a set of items by every operation.
\<close>

section \<open>Cyclic positions\<close>

lemma mod_add_inj:
  assumes "(h + a) mod n = (h + b) mod n" "a < n" "b < (n::nat)"
  shows "a = b"
proof -
  have *: "x = y" if "(h + x) mod n = (h + y) mod n" "x < n" "y < n" "x \<le> y" for x y
  proof -
    from that(1,4) have "n dvd (h + y) - (h + x)"
      by (metis add_le_cancel_left mod_eq_dvd_iff_nat)
    then have "n dvd y - x" by simp
    with that(3,4) show ?thesis
      by (metis diff_is_0_eq dual_order.strict_trans2 dvd_imp_le le_antisym less_imp_diff_less
          linorder_not_less zero_less_iff_neq_zero)
  qed
  show ?thesis
    using *[of a b] *[of b a] assms by (cases "a \<le> b") auto
qed

lemma mod_lt: "d < n \<Longrightarrow> a mod n < (n::nat)"
  by (rule mod_less_divisor) simp

lemma mod_add_surj: "p < n \<Longrightarrow> \<exists>d<n. p = (h + d) mod (n::nat)"
proof -
  assume p: "p < n"
  let ?d = "(p + (n - h mod n)) mod n"
  have "(h + ?d) mod n = (h mod n + (p + (n - h mod n))) mod n"
    by (metis mod_add_left_eq mod_add_right_eq)
  also have "h mod n + (p + (n - h mod n)) = p + n"
    using p mod_less_divisor[of n h] by linarith
  also have "(p + n) mod n = p" using p by simp
  finally show ?thesis using p by (intro exI[of _ ?d]) auto
qed

section \<open>Probing\<close>

definition stops :: "('a \<Rightarrow> 'a \<Rightarrow> bool) \<Rightarrow> 'a option list \<Rightarrow> 'a \<Rightarrow> nat \<Rightarrow> bool" where
  "stops e tab x i = (case tab ! i of None \<Rightarrow> True | Some t \<Rightarrow> t = x \<or> e t x)"

lemma probe_step:
  "BRSet_probe e tab n x (Suc k) i =
     (if stops e tab x i then Some i else BRSet_probe e tab n x k ((i + 1) mod n))"
  by (auto simp: stops_def split: option.splits)

declare BRSet_probe.simps(2) [simp del]

lemma probe_first:
  assumes "stops e tab x ((h + j) mod n)" "\<forall>l<j. m \<le> l \<longrightarrow> \<not> stops e tab x ((h + l) mod n)"
    and "m \<le> j" "j < m + k"
  shows "BRSet_probe e tab n x k ((h + m) mod n) = Some ((h + j) mod n)"
  using assms
proof (induction k arbitrary: m)
  case 0
  then show ?case by simp
next
  case (Suc k)
  show ?case
  proof (cases "j = m")
    case True
    then show ?thesis using Suc.prems by (simp add: probe_step)
  next
    case False
    with Suc.prems have lt: "m < j" by simp
    then have "\<not> stops e tab x ((h + m) mod n)" using Suc.prems by auto
    moreover have "BRSet_probe e tab n x k ((h + Suc m) mod n) = Some ((h + j) mod n)"
      using Suc.prems lt by (intro Suc.IH) auto
    ultimately show ?thesis by (simp add: probe_step mod_Suc_eq)
  qed
qed

section \<open>The representation invariant\<close>

text \<open>
  \<open>reach\<close>: an item in bucket \<open>p\<close> is found from its hash bucket on, because no bucket on the way is
  empty. With the items pairwise different under \<open>eq\<close> and at least one bucket empty, every probe ends
  in the right place.
\<close>

definition reach :: "'a option list \<Rightarrow> nat \<Rightarrow> nat \<Rightarrow> bool" where
  "reach tab h p \<longleftrightarrow>
     (\<exists>d<length tab. p = (h + d) mod length tab \<and> (\<forall>k<d. tab ! ((h + k) mod length tab) \<noteq> None))"

definition tab_distinct :: "('a \<Rightarrow> 'a \<Rightarrow> bool) \<Rightarrow> 'a option list \<Rightarrow> bool" where
  "tab_distinct e tab \<longleftrightarrow>
     (\<forall>p<length tab. \<forall>q<length tab. \<forall>x y. tab ! p = Some x \<longrightarrow> tab ! q = Some y \<longrightarrow> e x y \<longrightarrow> p = q)"

definition tab_count :: "'a option list \<Rightarrow> nat" where
  "tab_count tab = length (filter (\<lambda>t. t \<noteq> None) tab)"

definition tab_ok :: "('a \<Rightarrow> nat) \<Rightarrow> ('a \<Rightarrow> 'a \<Rightarrow> bool) \<Rightarrow> 'a option list \<Rightarrow> bool" where
  "tab_ok h e tab \<longleftrightarrow> tab_distinct e tab \<and>
     (\<forall>p<length tab. \<forall>x. tab ! p = Some x \<longrightarrow> reach tab (h x) p)"

definition tab_items :: "'a option list \<Rightarrow> 'a set" where
  "tab_items tab = {x. Some x \<in> set tab}"

text \<open>The contract of the callbacks, as \<open>BRSet.h\<close> states it for \<open>BRSetNew\<close>.\<close>

locale hash_eq =
  fixes h :: "'a \<Rightarrow> nat" and e :: "'a \<Rightarrow> 'a \<Rightarrow> bool"
  assumes e_refl: "e x x"
    and e_sym: "e x y \<Longrightarrow> e y x"
    and e_trans: "e x y \<Longrightarrow> e y z \<Longrightarrow> e x z"
    and e_hash: "e x y \<Longrightarrow> h x = h y"

lemma tab_count_le: "tab_count tab \<le> length tab"
  by (simp add: tab_count_def)

lemma tab_count_less_None: "tab_count tab < length tab \<Longrightarrow> \<exists>p<length tab. tab ! p = None"
proof (rule ccontr)
  assume lt: "tab_count tab < length tab" and no: "\<not> (\<exists>p<length tab. tab ! p = None)"
  then have "filter (\<lambda>t. t \<noteq> None) tab = tab"
    by (auto intro!: filter_True simp: in_set_conv_nth)
  with lt show False by (simp add: tab_count_def)
qed

lemma tab_count_update:
  "p < length tab \<Longrightarrow>
   tab_count (tab[p := t]) + (if tab ! p = None then 0 else 1) =
     tab_count tab + (if t = None then 0 else 1)"
proof (induction tab arbitrary: p)
  case Nil
  then show ?case by simp
next
  case (Cons a tab)
  show ?case
    using Cons.IH[of "p - 1"] Cons.prems by (cases p) (auto simp: tab_count_def)
qed

lemma tab_items_update:
  assumes "p < length tab" "tab_distinct e tab" "\<And>x. e x x"
  shows "tab_items (tab[p := t]) = (tab_items tab - set_option (tab ! p)) \<union> set_option t"
proof (intro set_eqI iffI)
  fix x
  assume "x \<in> tab_items (tab[p := t])"
  then obtain q where q: "q < length tab" "tab[p := t] ! q = Some x"
    by (auto simp: tab_items_def in_set_conv_nth)
  show "x \<in> (tab_items tab - set_option (tab ! p)) \<union> set_option t"
  proof (cases "q = p")
    case True
    then show ?thesis using q assms(1) by simp
  next
    case False
    then have "tab ! q = Some x" using q by simp
    moreover from this have "tab ! p \<noteq> Some x"
      using assms q False by (auto simp: tab_distinct_def)
    ultimately show ?thesis using q by (auto simp: tab_items_def in_set_conv_nth)
  qed
next
  fix x
  assume a: "x \<in> (tab_items tab - set_option (tab ! p)) \<union> set_option t"
  show "x \<in> tab_items (tab[p := t])"
  proof (cases "t = Some x")
    case True
    then show ?thesis using assms(1) by (auto simp: tab_items_def in_set_conv_nth intro!: exI[of _ p])
  next
    case False
    with a obtain q where "q < length tab" "tab ! q = Some x" "tab ! p \<noteq> Some x"
      by (auto simp: tab_items_def in_set_conv_nth)
    moreover from this have "q \<noteq> p" by auto
    ultimately show ?thesis
      by (auto simp: tab_items_def in_set_conv_nth intro!: exI[of _ q])
  qed
qed

section \<open>Probing a table that satisfies the invariant\<close>

context hash_eq begin

text \<open>
  A probe for \<open>x\<close> ends at the bucket of the item equivalent to \<open>x\<close>, or, when there is none, at the
  first empty bucket on the way of \<open>x\<close>.
\<close>

lemma probe_spec:
  assumes ok: "tab_ok h e tab" and none: "p < length tab" "tab ! p = None"
  obtains d where "d < length tab"
    and "BRSet_probe e tab (length tab) x (length tab) (h x mod length tab) =
           Some ((h x + d) mod length tab)"
    and "\<forall>k<d. tab ! ((h x + k) mod length tab) \<noteq> None"
    and "tab ! ((h x + d) mod length tab) = None \<and> (\<forall>y\<in>tab_items tab. \<not> e y x) \<or>
         (\<exists>t. tab ! ((h x + d) mod length tab) = Some t \<and> e t x)"
proof -
  let ?n = "length tab" and ?at = "\<lambda>k. (h x + k) mod length tab"
  obtain d0 where d0: "d0 < ?n" "p = ?at d0"
    using mod_add_surj[OF none(1)] by blast
  then have ex: "stops e tab x (?at d0)" using none by (simp add: stops_def)
  define d where "d = (LEAST d. stops e tab x (?at d))"
  have st: "stops e tab x (?at d)" and le: "d \<le> d0" and min: "\<forall>k<d. \<not> stops e tab x (?at k)"
    using ex unfolding d_def by (auto intro: LeastI Least_le dest: not_less_Least)
  have nn: "\<forall>k<d. tab ! (?at k) \<noteq> None"
    using min by (auto simp: stops_def split: option.splits)
  have dn: "d < ?n" using le d0 by simp
  have pr: "BRSet_probe e tab ?n x ?n (h x mod ?n) = Some (?at d)"
    using probe_first[of e tab x "h x" d ?n 0 ?n] st min dn by simp
  have cls: "tab ! (?at d) = None \<and> (\<forall>y\<in>tab_items tab. \<not> e y x) \<or>
         (\<exists>t. tab ! (?at d) = Some t \<and> e t x)"
  proof (cases "tab ! (?at d)")
    case (Some t)
    then show ?thesis using st by (auto simp: stops_def e_refl)
  next
    case None
    have "\<not> e y x" if "y \<in> tab_items tab" for y
    proof
      assume yx: "e y x"
      from that obtain q where q: "q < ?n" "tab ! q = Some y"
        by (auto simp: tab_items_def in_set_conv_nth)
      with ok have "reach tab (h y) q" by (auto simp: tab_ok_def)
      then obtain dq where dq: "dq < ?n" "q = ?at dq" "\<forall>k<dq. tab ! (?at k) \<noteq> None"
        using e_hash[OF yx] by (auto simp: reach_def)
      have "\<not> dq < d" using min q dq(2) yx by (auto simp: stops_def)
      moreover have "\<not> d < dq" using dq(3) None by auto
      moreover have "dq \<noteq> d" using q dq(2) None by auto
      ultimately show False by linarith
    qed
    with None show ?thesis by blast
  qed
  show thesis using that[OF dn pr nn cls] .
qed

text \<open>Filling the bucket a probe ended at keeps the invariant.\<close>

lemma occupied_update: "tab ! j \<noteq> None \<Longrightarrow> tab[i := Some y] ! j \<noteq> None"
  by (cases "i = j"; cases "j < length tab") (auto simp: list_update_beyond)

lemma reach_update_Some:
  assumes "reach tab hx p"
  shows "reach (tab[i := Some y]) hx p"
proof -
  from assms obtain d where "d < length tab" "p = (hx + d) mod length tab"
    and "\<forall>k<d. tab ! ((hx + k) mod length tab) \<noteq> None"
    by (auto simp: reach_def)
  moreover from this have "\<forall>k<d. tab[i := Some y] ! ((hx + k) mod length tab) \<noteq> None"
    by (intro allI impI occupied_update) blast
  ultimately show ?thesis unfolding reach_def length_list_update by blast
qed

lemma tab_ok_put:
  assumes ok: "tab_ok h e tab" and d: "d < length tab"
    and path: "\<forall>k<d. tab ! ((h x + k) mod length tab) \<noteq> None"
    and cls: "tab ! ((h x + d) mod length tab) = None \<and> (\<forall>y\<in>tab_items tab. \<not> e y x) \<or>
         (\<exists>t. tab ! ((h x + d) mod length tab) = Some t \<and> e t x)"
  shows "tab_ok h e (tab[(h x + d) mod length tab := Some x])"
proof -
  let ?i = "(h x + d) mod length tab"
  have i: "?i < length tab" using d by (rule mod_lt)
  have other: "\<not> e y x" if "q < length tab" "q \<noteq> ?i" "tab ! q = Some y" for q y
  proof
    assume yx: "e y x"
    from cls show False
    proof (elim disjE conjE exE)
      assume "\<forall>y\<in>tab_items tab. \<not> e y x"
      then show False using yx that by (auto simp: tab_items_def in_set_conv_nth)
    next
      fix t assume t: "tab ! ?i = Some t" "e t x"
      have "e y t" using yx t(2) e_sym e_trans by blast
      then show False using ok that t i by (auto simp: tab_ok_def tab_distinct_def)
    qed
  qed
  have "tab_distinct e (tab[?i := Some x])"
    using ok other i by (auto simp: tab_ok_def tab_distinct_def nth_list_update dest: e_sym)
  moreover have "reach (tab[?i := Some x]) (h y) q"
    if q: "q < length tab" "tab[?i := Some x] ! q = Some y" for q y
  proof (cases "q = ?i")
    case True
    then have "y = x" using q i by simp
    moreover have "reach tab (h x) ?i" using d path unfolding reach_def by blast
    ultimately show ?thesis using True by (simp add: reach_update_Some)
  next
    case False
    then show ?thesis using ok q by (simp add: tab_ok_def reach_update_Some)
  qed
  ultimately show ?thesis by (simp add: tab_ok_def)
qed

lemma tab_items_put:
  assumes ok: "tab_ok h e tab" and d: "d < length tab"
    and cls: "tab ! ((h x + d) mod length tab) = None \<and> (\<forall>y\<in>tab_items tab. \<not> e y x) \<or>
         (\<exists>t. tab ! ((h x + d) mod length tab) = Some t \<and> e t x)"
  shows "tab_items (tab[(h x + d) mod length tab := Some x]) =
           insert x {y \<in> tab_items tab. \<not> e y x}"
proof -
  let ?i = "(h x + d) mod length tab"
  have i: "?i < length tab" using d by (rule mod_lt)
  have upd: "tab_items (tab[?i := Some x]) = (tab_items tab - set_option (tab ! ?i)) \<union> {x}"
    using tab_items_update[OF i, of e "Some x"] ok by (simp add: tab_ok_def e_refl)
  from cls show ?thesis
  proof (elim disjE conjE exE)
    assume "tab ! ?i = None" "\<forall>y\<in>tab_items tab. \<not> e y x"
    then show ?thesis using upd by auto
  next
    fix t assume t: "tab ! ?i = Some t" "e t x"
    have "e y x \<longleftrightarrow> y = t" if "y \<in> tab_items tab" for y
    proof
      assume "e y x"
      then have "e y t" using t e_sym e_trans by blast
      moreover from that obtain q where "q < length tab" "tab ! q = Some y"
        by (auto simp: tab_items_def in_set_conv_nth)
      ultimately show "y = t" using ok t i by (auto simp: tab_ok_def tab_distinct_def)
    qed (use t in simp)
    with t upd show ?thesis by auto
  qed
qed

text \<open>Clearing buckets keeps the items distinct.\<close>

lemma nth_update_None:
  "p < length tab \<Longrightarrow> tab[i := None] ! p = Some x \<longleftrightarrow> p \<noteq> i \<and> tab ! p = Some x"
  by (cases "p = i") auto

lemma tab_distinct_None: "tab_distinct e tab \<Longrightarrow> tab_distinct e (tab[i := None])"
  by (auto simp: tab_distinct_def nth_update_None)

end

section \<open>Well-formed sets\<close>

text \<open>
  The load limit leaves at least one bucket empty for every size of the table from 3 on, so a
  well-formed set has an empty bucket and every probe ends.
\<close>

definition BRSet_rep :: "'a BRSet \<Rightarrow> bool" where
  "BRSet_rep s \<longleftrightarrow> hash_eq (s_hash s) (s_eq s) \<and> length (s_table s) = s_size s \<and>
     s_size s \<in> set (tl tableSizes) \<and> s_itemCount s = tab_count (s_table s) \<and>
     tab_ok (s_hash s) (s_eq s) (s_table s)"

definition BRSet_wf :: "'a BRSet \<Rightarrow> bool" where
  "BRSet_wf s \<longleftrightarrow> BRSet_rep s \<and> s_itemCount s \<le> BRSet_limit (s_size s)"

definition BRSet_items :: "'a BRSet \<Rightarrow> 'a set" where
  "BRSet_items s = tab_items (s_table s)"

lemma tableSizes_props:
  "\<forall>s\<in>set (tl tableSizes). 3 \<le> s \<and> BRSet_limit s < s"
  by (simp add: tableSizes_def BRSet_limit_def)

lemma sorted_tableSizes: "sorted_wrt (<) tableSizes"
  by (simp add: tableSizes_def)

lemma length_tableSizes: "length tableSizes = 51"
  by (simp add: tableSizes_def)

text \<open>Growing from one size to the next makes room for one item more than the limit.\<close>

lemma sorted_limits: "sorted_wrt (<) (map BRSet_limit (tl tableSizes))"
  by (simp add: tableSizes_def BRSet_limit_def)

lemma tableSizes_grow:
  assumes "1 \<le> i" "i < j" "j < length tableSizes"
  shows "BRSet_limit (tableSizes ! i) < BRSet_limit (tableSizes ! j)"
  using assms sorted_wrt_nth_less[OF sorted_limits, of "i - 1" "j - 1"]
  by (auto simp: nth_tl)

lemma BRSet_sizeIndex_nth:
  assumes "i < length tableSizes"
  shows "BRSet_sizeIndex (tableSizes ! i) = i"
proof -
  have "takeWhile (\<lambda>s. s < tableSizes ! i) tableSizes = take i tableSizes"
    by (rule takeWhile_eq_take_P_nth) (auto intro: sorted_wrt_nth_less[OF sorted_tableSizes] assms)
  then show ?thesis using assms by (simp add: BRSet_sizeIndex_def)
qed

lemma BRSet_repD:
  assumes "BRSet_rep s"
  shows "hash_eq (s_hash s) (s_eq s)" "length (s_table s) = s_size s" "0 < s_size s"
    and "s_itemCount s = tab_count (s_table s)"
    and "tab_ok (s_hash s) (s_eq s) (s_table s)" "BRSet_limit (s_size s) < s_size s"
  using assms tableSizes_props by (auto simp: BRSet_rep_def)

text \<open>
  \<open>same_kind\<close>: the callbacks of a set never change. \<open>found\<close>: what a lookup of \<open>x\<close> may answer.
\<close>

definition same_kind :: "'a BRSet \<Rightarrow> 'a BRSet \<Rightarrow> bool" where
  "same_kind s s' \<longleftrightarrow> s_hash s' = s_hash s \<and> s_eq s' = s_eq s"

definition found :: "'a BRSet \<Rightarrow> 'a \<Rightarrow> 'a option \<Rightarrow> bool" where
  "found s x r \<longleftrightarrow> (case r of None \<Rightarrow> \<forall>y\<in>BRSet_items s. \<not> s_eq s y x
                         | Some t \<Rightarrow> t \<in> BRSet_items s \<and> s_eq s t x)"

definition items_add :: "('a \<Rightarrow> 'a \<Rightarrow> bool) \<Rightarrow> 'a \<Rightarrow> 'a set \<Rightarrow> 'a set" where
  "items_add e x I = insert x {y \<in> I. \<not> e y x}"

definition items_remove :: "('a \<Rightarrow> 'a \<Rightarrow> bool) \<Rightarrow> 'a \<Rightarrow> 'a set \<Rightarrow> 'a set" where
  "items_remove e x I = {y \<in> I. \<not> e y x}"

section \<open>Lookup and insertion\<close>

lemma BRSet_find_spec:
  assumes "BRSet_rep s" "s_itemCount s < s_size s"
  obtains i where "BRSet_find s x = Inr i" "i < s_size s" "found s x (s_table s ! i)"
    and "tab_ok (s_hash s) (s_eq s) ((s_table s)[i := Some x])"
    and "tab_items ((s_table s)[i := Some x]) = items_add (s_eq s) x (BRSet_items s)"
proof -
  note rep = BRSet_repD[OF assms(1)]
  let ?h = "s_hash s" and ?e = "s_eq s" and ?t = "s_table s"
  obtain p where p: "p < length ?t" "?t ! p = None"
    using tab_count_less_None[of ?t] assms(2) rep by auto
  obtain d where d: "d < length ?t"
    and pr: "BRSet_probe ?e ?t (length ?t) x (length ?t) (?h x mod length ?t) =
               Some ((?h x + d) mod length ?t)"
    and path: "\<forall>k<d. ?t ! ((?h x + k) mod length ?t) \<noteq> None"
    and cls: "?t ! ((?h x + d) mod length ?t) = None \<and> (\<forall>y\<in>tab_items ?t. \<not> ?e y x) \<or>
         (\<exists>t. ?t ! ((?h x + d) mod length ?t) = Some t \<and> ?e t x)"
    by (rule hash_eq.probe_spec[OF rep(1,5) p, of x]) blast
  let ?i = "(?h x + d) mod length ?t"
  have i: "?i < length ?t" using d by (rule mod_lt)
  have "BRSet_find s x = Inr ?i" using pr rep by (simp add: BRSet_find_def)
  moreover have "found s x (?t ! ?i)"
    using cls nth_mem[OF i] by (auto simp: found_def BRSet_items_def tab_items_def)
  ultimately show thesis
    using that i rep(2) hash_eq.tab_ok_put[OF rep(1,5) d path cls]
      hash_eq.tab_items_put[OF rep(1,5) d cls]
    by (simp add: items_add_def BRSet_items_def)
qed

text \<open>\<open>BRSetGet\<close> answers the equivalent item, and there is at most one.\<close>

lemma BRSetGet_spec:
  assumes "BRSet_wf s"
  obtains r where "BRSetGet s x = Inr r" "found s x r"
proof -
  have "s_itemCount s < s_size s"
    using assms BRSet_repD(6)[of s] by (auto simp: BRSet_wf_def)
  then obtain i where "BRSet_find s x = Inr i" "found s x (s_table s ! i)"
    using assms BRSet_find_spec[of s x] by (auto simp: BRSet_wf_def)
  then show thesis using that by (simp add: BRSetGet_def)
qed

lemma found_unique:
  assumes "BRSet_rep s" "found s x r" "found s x r'"
  shows "r = r'"
proof -
  note rep = BRSet_repD[OF assms(1)]
  have "t = t'" if "t \<in> BRSet_items s" "t' \<in> BRSet_items s" "s_eq s t x" "s_eq s t' x" for t t'
  proof -
    have "s_eq s t t'" using that rep(1) by (meson hash_eq.e_sym hash_eq.e_trans)
    with that rep(5) show ?thesis
      by (auto simp: tab_ok_def tab_distinct_def BRSet_items_def tab_items_def in_set_conv_nth)
  qed
  with assms show ?thesis by (auto simp: found_def split: option.splits)
qed

lemma BRSet_put_rep:
  assumes "BRSet_rep s" "i < s_size s"
    and "tab_ok (s_hash s) (s_eq s) ((s_table s)[i := Some x])"
  shows "BRSet_rep (BRSet_put s i x)" "same_kind s (BRSet_put s i x)"
    and "s_size (BRSet_put s i x) = s_size s" "s_itemCount (BRSet_put s i x) \<le> s_itemCount s + 1"
  using assms tab_count_update[of i "s_table s" "Some x"]
  by (auto simp: BRSet_rep_def BRSet_put_def same_kind_def)

text \<open>Insertion into a table that need not grow.\<close>

lemma BRSetAdd_f_room:
  assumes "BRSet_wf s" "s_itemCount s + 1 \<le> BRSet_limit (s_size s)"
  obtains s' r where "BRSetAdd_f d s x = Inr (s', r)" "BRSet_wf s'" "same_kind s s'" "found s x r"
    and "s_size s' = s_size s" "s_itemCount s' \<le> s_itemCount s + 1"
    and "BRSet_items s' = items_add (s_eq s) x (BRSet_items s)"
proof -
  have rep: "BRSet_rep s" "s_itemCount s < s_size s"
    using assms BRSet_repD(6)[of s] by (auto simp: BRSet_wf_def)
  obtain i where i: "BRSet_find s x = Inr i" "i < s_size s" "found s x (s_table s ! i)"
    and ok: "tab_ok (s_hash s) (s_eq s) ((s_table s)[i := Some x])"
    and it: "tab_items ((s_table s)[i := Some x]) = items_add (s_eq s) x (BRSet_items s)"
    by (rule BRSet_find_spec[OF rep]) 
  note put = BRSet_put_rep[OF rep(1) i(2) ok]
  have "BRSetAdd_f d s x = Inr (BRSet_put s i x, s_table s ! i)"
    using i(1) put(4) assms(2) by (simp add: BRSetAdd_f.simps[of d s x])
  moreover have "BRSet_wf (BRSet_put s i x)"
    using put assms(2) by (simp add: BRSet_wf_def)
  moreover have "BRSet_items (BRSet_put s i x) = items_add (s_eq s) x (BRSet_items s)"
    using it by (simp add: BRSet_items_def BRSet_put_def)
  ultimately show thesis using that i(3) put by blast
qed

text \<open>Adding a list of buckets whose items are new and pairwise different.\<close>

lemma tab_items_Cons: "tab_items (t # ts) = set_option t \<union> tab_items ts"
  by (auto simp: tab_items_def)

lemma tab_distinct_Cons:
  "tab_distinct e (t # ts) \<Longrightarrow> tab_distinct e ts \<and> (\<forall>x\<in>set_option t. \<forall>y\<in>tab_items ts. \<not> e x y)"
proof (intro conjI ballI notI)
  assume d: "tab_distinct e (t # ts)"
  show "tab_distinct e ts"
    unfolding tab_distinct_def
  proof (intro allI impI)
    fix p q x y assume "p < length ts" "q < length ts" "ts ! p = Some x" "ts ! q = Some y" "e x y"
    then show "p = q"
      using d[unfolded tab_distinct_def, rule_format, of "Suc p" "Suc q" x y] by simp
  qed
next
  fix x y assume d: "tab_distinct e (t # ts)" and "x \<in> set_option t" "y \<in> tab_items ts" "e x y"
  then obtain q where "q < length ts" "ts ! q = Some y" "t = Some x"
    by (auto simp: tab_items_def in_set_conv_nth)
  with \<open>e x y\<close> show False
    using d[unfolded tab_distinct_def, rule_format, of 0 "Suc q" x y] by simp
qed

lemma BRSetUnion_f_room:
  assumes "BRSet_wf s" "s_itemCount s + tab_count ts \<le> BRSet_limit (s_size s)"
    and "tab_distinct (s_eq s) ts" "\<forall>x\<in>BRSet_items s. \<forall>y\<in>tab_items ts. \<not> s_eq s x y"
  shows "\<exists>s'. BRSetUnion_f d s ts = Inr s' \<and> BRSet_wf s' \<and> same_kind s s' \<and>
           s_size s' = s_size s \<and> s_itemCount s' \<le> s_itemCount s + tab_count ts \<and>
           BRSet_items s' = BRSet_items s \<union> tab_items ts"
  using assms
proof (induction ts arbitrary: s)
  case Nil
  then show ?case by (simp add: same_kind_def tab_items_def)
next
  case (Cons t ts)
  note d = tab_distinct_Cons[OF Cons.prems(3)]
  show ?case
  proof (cases t)
    case None
    then show ?thesis
      using Cons.IH[of s] Cons.prems d by (simp add: tab_items_Cons tab_count_def)
  next
    case (Some x)
    have cnt: "tab_count (t # ts) = Suc (tab_count ts)" using Some by (simp add: tab_count_def)
    have room: "s_itemCount s + 1 \<le> BRSet_limit (s_size s)" using Cons.prems(2) cnt by simp
    obtain s1 r where s1: "BRSetAdd_f d s x = Inr (s1, r)" "BRSet_wf s1" "same_kind s s1"
        "s_size s1 = s_size s" "s_itemCount s1 \<le> s_itemCount s + 1"
        "BRSet_items s1 = items_add (s_eq s) x (BRSet_items s)"
      by (rule BRSetAdd_f_room[OF Cons.prems(1) room, of d x])
    have items: "BRSet_items s1 = insert x (BRSet_items s)"
      using s1(6) Cons.prems(4) Some by (auto simp: items_add_def tab_items_Cons)
    have "\<exists>s'. BRSetUnion_f d s1 ts = Inr s' \<and> BRSet_wf s' \<and> same_kind s1 s' \<and>
           s_size s' = s_size s1 \<and> s_itemCount s' \<le> s_itemCount s1 + tab_count ts \<and>
           BRSet_items s' = BRSet_items s1 \<union> tab_items ts"
    proof (rule Cons.IH)
      show "BRSet_wf s1" by (rule s1)
      show "s_itemCount s1 + tab_count ts \<le> BRSet_limit (s_size s1)"
        using s1 Cons.prems(2) cnt by simp
      show "tab_distinct (s_eq s1) ts" using d s1(3) by (simp add: same_kind_def)
      show "\<forall>x\<in>BRSet_items s1. \<forall>y\<in>tab_items ts. \<not> s_eq s1 x y"
        using items Cons.prems(4) d Some s1(3) by (auto simp: same_kind_def tab_items_Cons)
    qed
    then show ?thesis
      using s1 Some items cnt by (auto simp: same_kind_def tab_items_Cons)
  qed
qed

text \<open>
  \<open>_BRSetGrow\<close> of a table of size \<open>tableSizes ! i\<close> moves the items to one of size
  \<open>tableSizes ! (i + 1)\<close>; only the last size cannot grow.
\<close>

lemma BRSetInit_next:
  assumes "i + 1 < length tableSizes"
  shows "BRSetInit h e (tableSizes ! i) = Some \<lparr> s_table = replicate (tableSizes ! (i + 1)) None,
     s_size = tableSizes ! (i + 1), s_itemCount = 0, s_hash = h, s_eq = e \<rparr>"
  using assms by (simp add: BRSetInit_def BRSet_sizeIndex_nth Let_def)

lemma tl_size_nth: "n \<in> set (tl tableSizes) \<longleftrightarrow> (\<exists>i. 1 \<le> i \<and> i < length tableSizes \<and> n = tableSizes ! i)"
proof
  assume "n \<in> set (tl tableSizes)"
  then obtain j where "j < length (tl tableSizes)" "n = tl tableSizes ! j"
    by (metis in_set_conv_nth)
  then show "\<exists>i. 1 \<le> i \<and> i < length tableSizes \<and> n = tableSizes ! i"
    by (intro exI[of _ "Suc j"]) (auto simp: nth_tl)
next
  assume "\<exists>i. 1 \<le> i \<and> i < length tableSizes \<and> n = tableSizes ! i"
  then obtain i where "1 \<le> i" "i < length tableSizes" "n = tableSizes ! i" by blast
  then show "n \<in> set (tl tableSizes)"
    by (metis One_nat_def Suc_le_eq Suc_less_eq Suc_pred in_set_conv_nth length_tl less_diff_conv nth_tl
        Suc_eq_plus1)
qed

lemma empty_wf:
  assumes "hash_eq h e" "n \<in> set (tl tableSizes)"
  shows "BRSet_wf \<lparr> s_table = replicate n None, s_size = n, s_itemCount = 0, s_hash = h, s_eq = e \<rparr>"
  using assms by (auto simp: BRSet_wf_def BRSet_rep_def tab_count_def tab_ok_def tab_distinct_def)

lemma BRSetGrow_f_spec:
  assumes rep: "BRSet_rep s" and cnt: "s_itemCount s \<le> BRSet_limit (s_size s) + 1"
    and notlast: "s_size s \<noteq> last tableSizes"
  obtains s' where "BRSetGrow_f d s (s_size s) = Inr s'" "BRSet_wf s'" "same_kind s s'"
    and "BRSet_items s' = BRSet_items s" "s_size s < s_size s'"
proof -
  obtain i where i: "1 \<le> i" "i < length tableSizes" "s_size s = tableSizes ! i"
    using rep by (auto simp: BRSet_rep_def tl_size_nth)
  have i1: "i + 1 < length tableSizes"
  proof (rule ccontr)
    assume "\<not> ?thesis"
    with i(2) have "i = length tableSizes - 1" by simp
    then have "s_size s = last tableSizes"
      using i(3) by (metis last_conv_nth length_greater_0_conv i(2) less_nat_zero_code list.size(3))
    with notlast show False ..
  qed
  let ?n = "tableSizes ! (i + 1)"
  define new where "new = \<lparr> s_table = replicate ?n None, s_size = ?n, s_itemCount = 0,
    s_hash = s_hash s, s_eq = s_eq s \<rparr>"
  have nin: "?n \<in> set (tl tableSizes)" using i1 by (auto simp: tl_size_nth intro!: exI[of _ "i + 1"])
  have "\<exists>u. BRSetUnion_f d new (s_table s) = Inr u \<and> BRSet_wf u \<and> same_kind new u \<and>
           s_size u = s_size new \<and> s_itemCount u \<le> s_itemCount new + tab_count (s_table s) \<and>
           BRSet_items u = BRSet_items new \<union> tab_items (s_table s)"
  proof (rule BRSetUnion_f_room)
    show "BRSet_wf new" unfolding new_def
      using rep nin by (intro empty_wf) (auto simp: BRSet_rep_def)
    show "s_itemCount new + tab_count (s_table s) \<le> BRSet_limit (s_size new)"
      using cnt BRSet_repD(4)[OF rep] tableSizes_grow[of i "i + 1"] i i1 by (simp add: new_def)
    show "tab_distinct (s_eq new) (s_table s)"
      using rep by (simp add: new_def BRSet_rep_def tab_ok_def)
    show "\<forall>x\<in>BRSet_items new. \<forall>y\<in>tab_items (s_table s). \<not> s_eq new x y"
      by (simp add: new_def BRSet_items_def tab_items_def)
  qed
  then obtain u where u: "BRSetUnion_f d new (s_table s) = Inr u" "BRSet_wf u" "same_kind new u"
      "s_size u = s_size new" "BRSet_items u = BRSet_items new \<union> tab_items (s_table s)" by blast
  let ?s' = "s\<lparr> s_table := s_table u, s_size := s_size u, s_itemCount := s_itemCount u \<rparr>"
  have "BRSetGrow_f d s (s_size s) = Inr ?s'"
    using u(1) i(3) i1 by (simp add: BRSetGrow_f.simps BRSetInit_next new_def)
  moreover have "BRSet_wf ?s'"
    using u(2,3) by (simp add: BRSet_wf_def BRSet_rep_def same_kind_def new_def)
  moreover have "BRSet_items ?s' = BRSet_items s"
    using u(5) by (simp add: BRSet_items_def new_def tab_items_def)
  moreover have "s_size s < s_size ?s'"
    using u(4) i sorted_wrt_nth_less[OF sorted_tableSizes, of i "i + 1"] i1 by (simp add: new_def)
  ultimately show thesis using that by (simp add: same_kind_def)
qed

text \<open>\<open>BRSetAdd\<close>, growing or not: it returns and refines insertion, until the last table is full.\<close>

lemma BRSetAdd_spec:
  assumes wf: "BRSet_wf s" and room: "s_itemCount s < BRSet_limit (last tableSizes)"
  obtains s' r where "BRSetAdd s x = Inr (s', r)" "BRSet_wf s'" "same_kind s s'" "found s x r"
    and "BRSet_items s' = items_add (s_eq s) x (BRSet_items s)"
proof (cases "s_itemCount s + 1 \<le> BRSet_limit (s_size s)")
  case True
  then show thesis
    using BRSetAdd_f_room[OF wf, of "length tableSizes" x] that by (auto simp: BRSetAdd_def)
next
  case False
  have rep: "BRSet_rep s" "s_itemCount s < s_size s" and le: "s_itemCount s \<le> BRSet_limit (s_size s)"
    using wf BRSet_repD(6)[of s] by (auto simp: BRSet_wf_def)
  have notlast: "s_size s \<noteq> last tableSizes" using False room by auto
  obtain i where i: "BRSet_find s x = Inr i" "i < s_size s" "found s x (s_table s ! i)"
    and ok: "tab_ok (s_hash s) (s_eq s) ((s_table s)[i := Some x])"
    and it: "tab_items ((s_table s)[i := Some x]) = items_add (s_eq s) x (BRSet_items s)"
    by (rule BRSet_find_spec[OF rep])
  let ?p = "BRSet_put s i x"
  note put = BRSet_put_rep[OF rep(1) i(2) ok]
  have pit: "BRSet_items ?p = items_add (s_eq s) x (BRSet_items s)"
    using it by (simp add: BRSet_items_def BRSet_put_def)
  show thesis
  proof (cases "s_itemCount ?p \<le> BRSet_limit (s_size s)")
    case True
    then have "BRSetAdd s x = Inr (?p, s_table s ! i)"
      using i(1) by (simp add: BRSetAdd_def BRSetAdd_f.simps)
    moreover have "BRSet_wf ?p" using put True by (simp add: BRSet_wf_def)
    ultimately show thesis using that put(2) i(3) pit by blast
  next
    case False
    obtain d where d: "length tableSizes = Suc d" by (simp add: length_tableSizes)
    obtain s' where s': "BRSetGrow_f d ?p (s_size ?p) = Inr s'" "BRSet_wf s'" "same_kind ?p s'"
        "BRSet_items s' = BRSet_items ?p"
      using BRSetGrow_f_spec[of ?p d] put le notlast by auto
    have "BRSetAdd s x = Inr (s', s_table s ! i)"
      using i(1) False s'(1) put(3) d by (simp add: BRSetAdd_def BRSetAdd_f.simps[of "Suc d" s x])
    then show thesis using that s' put(2) i(3) pit by (auto simp: same_kind_def)
  qed
qed

section \<open>Removal\<close>

text \<open>
  \<open>hole_ok\<close> is the invariant of the clean-up loop of \<open>BRSetRemove\<close>. Bucket \<open>i\<close> has been emptied, the
  buckets \<open>i, \<dots>, i + m - 1\<close> have been processed, and \<open>i + E\<close> is the end of the cluster, which is
  empty. An item in the part still to be processed may have processed buckets that are now empty on
  its way; every other item is reachable.
\<close>

definition reach_hole :: "'a option list \<Rightarrow> nat \<Rightarrow> nat \<Rightarrow> nat \<Rightarrow> nat \<Rightarrow> nat \<Rightarrow> bool" where
  "reach_hole tab hx i m E p \<longleftrightarrow>
     (\<exists>d<length tab. p = (hx + d) mod length tab \<and>
       (\<forall>k<d. tab ! ((hx + k) mod length tab) = None \<longrightarrow>
          (\<exists>l\<ge>m. l < E \<and> p = (i + l) mod length tab) \<and>
          (\<exists>l<m. (hx + k) mod length tab = (i + l) mod length tab)))"

definition hole_ok :: "('a \<Rightarrow> nat) \<Rightarrow> ('a \<Rightarrow> 'a \<Rightarrow> bool) \<Rightarrow> 'a option list \<Rightarrow> nat \<Rightarrow> nat \<Rightarrow> nat \<Rightarrow> bool" where
  "hole_ok h e tab i m E \<longleftrightarrow>
     tab_distinct e tab \<and> m \<le> E \<and> E < length tab \<and> tab ! ((i + E) mod length tab) = None \<and>
     (\<forall>l. m \<le> l \<and> l < E \<longrightarrow> tab ! ((i + l) mod length tab) \<noteq> None) \<and>
     (\<forall>p<length tab. \<forall>x. tab ! p = Some x \<longrightarrow> reach_hole tab (h x) i m E p)"

lemma hole_ok_done: "hole_ok h e tab i E E \<Longrightarrow> tab_ok h e tab"
  unfolding hole_ok_def tab_ok_def reach_hole_def reach_def
  by (metis leD)

lemma offset_neq: "l < n \<Longrightarrow> l' < n \<Longrightarrow> l \<noteq> l' \<Longrightarrow> (i + l) mod n \<noteq> (i + l') mod (n::nat)"
  using mod_add_inj by blast

lemma nth_update_neq_None: "tab[j := None] ! p \<noteq> None \<Longrightarrow> tab ! p \<noteq> None"
  by (cases "p = j"; cases "p < length tab") (auto simp: list_update_beyond)

text \<open>
  The contiguity argument: a way that crosses the bucket \<open>i + m\<close> and does not end in the cluster part
  still to be processed would cross the empty bucket \<open>i + E\<close>.
\<close>

lemma cross_in_cluster:
  assumes "hole_ok h e tab i m E" "m < E" "tab ! p = Some y"
    and d: "d < length tab" "p = (h y + d) mod length tab"
    and way: "\<forall>k<d. tab ! ((h y + k) mod length tab) = None \<longrightarrow>
          (\<exists>l<m. (h y + k) mod length tab = (i + l) mod length tab)"
    and k: "k < d" "(h y + k) mod length tab = (i + m) mod length tab"
  shows "\<exists>l>m. l < E \<and> p = (i + l) mod length tab"
proof -
  let ?n = "length tab"
  have En: "E < ?n" and Enone: "tab ! ((i + E) mod ?n) = None" using assms(1) by (auto simp: hole_ok_def)
  have shift: "(h y + (k + r)) mod ?n = (i + (m + r)) mod ?n" for r
    using k(2) by (metis add.assoc mod_add_left_eq)
  have "m + (d - k) < E"
  proof (rule ccontr)
    assume "\<not> m + (d - k) < E"
    then have le: "k + (E - m) \<le> d" using k(1) assms(2) by linarith
    have at: "(h y + (k + (E - m))) mod ?n = (i + E) mod ?n"
      using shift[of "E - m"] assms(2) by simp
    show False
    proof (cases "k + (E - m) = d")
      case True
      then show False using at Enone d(2) assms(3) by simp
    next
      case False
      then have "k + (E - m) < d" using le by simp
      then obtain l where "l < m" "(i + E) mod ?n = (i + l) mod ?n"
        using way at Enone by metis
      then show False using offset_neq[of E ?n l i] En assms(2) by simp
    qed
  qed
  moreover have "p = (i + (m + (d - k))) mod ?n"
    using d(2) shift[of "d - k"] k(1) by simp
  ultimately show ?thesis using k(1) by (intro exI[of _ "m + (d - k)"]) auto
qed

context hash_eq begin

lemma hole_step:
  assumes ok: "hole_ok h e tab i m E" and m: "m < E"
    and x: "tab ! ((i + m) mod length tab) = Some x"
  defines "tab1 \<equiv> tab[(i + m) mod length tab := None]"
  obtains f where "f < length tab" "tab1 ! f = None"
    and "BRSet_probe e tab1 (length tab) x (length tab) (h x mod length tab) = Some f"
    and "hole_ok h e (tab1[f := Some x]) i (Suc m) E"
    and "tab_items (tab1[f := Some x]) = tab_items tab"
proof -
  let ?n = "length tab" and ?j = "(i + m) mod length tab"
  have En: "E < ?n" and dist: "tab_distinct e tab" using ok by (auto simp: hole_ok_def)
  then have j: "?j < ?n" by (intro mod_lt)
  have len1: "length tab1 = ?n" by (simp add: tab1_def)
  have other: "\<not> e y x" if "q < ?n" "tab1 ! q = Some y" for q y
    using dist that j x unfolding tab1_def
    by (cases "q = ?j") (auto simp: tab_distinct_def)
  have way_of: "reach_hole tab (h y) i m E q" if "q < ?n" "tab ! q = Some y" for q y
    using ok that by (auto simp: hole_ok_def)
  from way_of[OF j x] obtain d where d: "d < ?n" "?j = (h x + d) mod ?n"
    and way: "\<forall>k<d. tab ! ((h x + k) mod ?n) = None \<longrightarrow> (\<exists>l<m. (h x + k) mod ?n = (i + l) mod ?n)"
    unfolding reach_hole_def by blast
  have stop: "stops e tab1 x q \<longleftrightarrow> tab1 ! q = None" if "q < ?n" for q
    using other[OF that] e_refl by (auto simp: stops_def split: option.splits)
  define d' where "d' = (LEAST d'. tab1 ! ((h x + d') mod ?n) = None)"
  have ex: "tab1 ! ((h x + d) mod ?n) = None" using d(2) j by (simp add: tab1_def flip: d(2))
  then have d': "tab1 ! ((h x + d') mod ?n) = None" "d' \<le> d"
    and min: "\<forall>k<d'. tab1 ! ((h x + k) mod ?n) \<noteq> None"
    unfolding d'_def by (auto intro: LeastI Least_le dest: not_less_Least)
  define f where "f = (h x + d') mod ?n"
  have f: "f < ?n" "tab1 ! f = None" using d(1) d'(1) by (auto simp: f_def intro: mod_lt)
  have pr: "BRSet_probe e tab1 ?n x ?n (h x mod ?n) = Some f"
    using probe_first[of e tab1 x "h x" d' ?n 0 ?n] min d' d(1)
    by (simp add: stop mod_lt[OF d(1)] f_def)
  have f_cases: "f = ?j \<or> (\<exists>l<m. f = (i + l) mod ?n)"
  proof (cases "d' = d")
    case True
    then show ?thesis using d(2) f_def by simp
  next
    case False
    then have "f \<noteq> ?j"
      using d(2) d'(2) d(1) offset_neq[of d' ?n d "h x"] by (simp add: f_def)
    then have "tab ! f = None" using f(2) by (simp add: tab1_def)
    with False way d'(2) show ?thesis by (auto simp: f_def)
  qed
  let ?T = "tab1[f := Some x]"
  have T_None: "?T ! q = None \<Longrightarrow> tab ! q = None \<or> q = ?j" if "q < ?n" for q
    using that f(1) len1 by (cases "q = f"; cases "q = ?j") (auto simp: tab1_def)
  have T_Some: "q = f \<and> y = x \<or> q \<noteq> f \<and> q \<noteq> ?j \<and> tab ! q = Some y"
    if "q < ?n" "?T ! q = Some y" for q y
    using that f(1) len1 j by (cases "q = f"; cases "q = ?j") (auto simp: tab1_def)
  have "tab_distinct e ?T"
    unfolding tab_distinct_def
  proof (intro allI impI)
    fix p q y z
    assume a: "p < length ?T" "q < length ?T" "?T ! p = Some y" "?T ! q = Some z" "e y z"
    have "\<not> e w x" if "r < ?n" "r \<noteq> ?j" "tab ! r = Some w" for r w
      using other[of r w] that by (simp add: tab1_def)
    then show "p = q"
      using T_Some[of p y] T_Some[of q z] a len1 dist e_sym
      by (simp add: tab_distinct_def) metis
  qed
  moreover have "?T ! ((i + E) mod ?n) = None"
  proof -
    have "(i + E) mod ?n \<noteq> f" "(i + E) mod ?n \<noteq> ?j"
      using f_cases offset_neq[of E ?n _ i] En m by (metis less_trans nat_neq_iff)+
    then show ?thesis using ok by (simp add: tab1_def hole_ok_def)
  qed
  moreover have "?T ! ((i + l) mod ?n) \<noteq> None" if "Suc m \<le> l" "l < E" for l
  proof -
    have "(i + l) mod ?n \<noteq> ?j" using that m En by (intro offset_neq) auto
    moreover have "tab ! ((i + l) mod ?n) \<noteq> None" using that ok by (simp add: hole_ok_def)
    ultimately show ?thesis
      using T_None[OF mod_lt[OF En, of "i + l"]] by metis
  qed
  moreover have "reach_hole ?T (h y) i (Suc m) E p" if p: "p < ?n" "?T ! p = Some y" for p y
    using T_Some[OF p]
  proof (elim disjE conjE)
    assume "p = f" "y = x"
    moreover have "?T ! ((h x + k) mod ?n) \<noteq> None" if "k < d'" for k
      using min that by (intro occupied_update) blast
    ultimately show ?thesis
      using d(1) d'(2) len1 unfolding reach_hole_def f_def
      by (intro exI[of _ d']) (simp del: not_None_eq)
  next
    assume pf: "p \<noteq> f" "p \<noteq> ?j" "tab ! p = Some y"
    obtain c where c: "c < ?n" "p = (h y + c) mod ?n"
      and wc: "\<And>k. k < c \<Longrightarrow> tab ! ((h y + k) mod ?n) = None \<Longrightarrow>
          (\<exists>l\<ge>m. l < E \<and> p = (i + l) mod ?n) \<and> (\<exists>l<m. (h y + k) mod ?n = (i + l) mod ?n)"
      using way_of[OF p(1) pf(3)] unfolding reach_hole_def by blast
    have "(\<exists>l\<ge>Suc m. l < E \<and> p = (i + l) mod ?n) \<and> (\<exists>l<Suc m. (h y + k) mod ?n = (i + l) mod ?n)"
      if k: "k < c" "?T ! ((h y + k) mod ?n) = None" for k
      using T_None[OF mod_lt[OF c(1)] k(2)]
    proof
      assume "tab ! ((h y + k) mod ?n) = None"
      from wc[OF k(1) this] pf(2) show ?thesis
        by (metis Suc_leI le_neq_implies_less less_SucI)
    next
      assume at: "(h y + k) mod ?n = ?j"
      have "\<exists>l>m. l < E \<and> p = (i + l) mod ?n"
        using cross_in_cluster[OF ok m pf(3) c(1,2) _ k(1) at] wc by metis
      with at show ?thesis by (metis Suc_leI lessI)
    qed
    then show ?thesis using c len1 unfolding reach_hole_def by (intro exI[of _ c]) simp
  qed
  ultimately have hole: "hole_ok h e ?T i (Suc m) E"
    using m En len1 by (simp add: hole_ok_def)
  have "tab_items tab1 = tab_items tab - {x}"
    using tab_items_update[OF j dist e_refl, of None] x by (simp add: tab1_def)
  moreover have "tab_items ?T = tab_items tab1 \<union> {x}"
    using tab_items_update[of f tab1 e "Some x"] f len1 dist e_refl
    by (simp add: tab1_def tab_distinct_None)
  ultimately have "tab_items ?T = tab_items tab"
    using nth_mem[OF j] x by (auto simp: tab_items_def)
  then show thesis using that f pr hole by blast
qed

text \<open>How the loop starts: the end of the cluster, and the first vacated bucket.\<close>

lemma hole_start:
  assumes ok: "tab_ok h e tab" and i: "i < length tab" "tab ! i = Some x"
    and p: "p < length tab" "tab ! p = None"
  obtains E where "0 < E" "hole_ok h e tab i 0 E"
proof -
  let ?n = "length tab"
  let ?P = "\<lambda>E. tab ! ((i + E) mod ?n) = None"
  obtain d where d: "d < ?n" "p = (i + d) mod ?n" using mod_add_surj[OF p(1)] by blast
  define E where "E = (LEAST E. ?P E)"
  have E: "?P E" "E \<le> d" and min: "\<And>k. k < E \<Longrightarrow> \<not> ?P k"
    using d(2) p(2) unfolding E_def by (auto intro: LeastI Least_le dest: not_less_Least)
  have "E \<noteq> 0" using E(1) i by (intro notI) simp
  moreover have "reach_hole tab (h y) i 0 E q" if "q < ?n" "tab ! q = Some y" for q y
    using ok that unfolding tab_ok_def reach_def reach_hole_def by metis
  ultimately show thesis
    using that[of E] ok d(1) E min unfolding hole_ok_def tab_ok_def by auto
qed

lemma hole_vacate:
  assumes ok: "hole_ok h e tab i 0 E" and E: "0 < E" and i: "i < length tab"
  shows "hole_ok h e (tab[i := None]) i 1 E"
proof -
  let ?n = "length tab" and ?T = "tab[i := None]"
  have En: "E < ?n" using ok by (simp add: hole_ok_def)
  have other: "(i + l) mod ?n \<noteq> i" if "0 < l" "l \<le> E" for l
    using offset_neq[of l ?n 0 i] that En i by (cases "tab = []") simp_all
  have "reach_hole ?T (h y) i 1 E p" if p: "p < ?n" "?T ! p = Some y" for p y
  proof -
    have py: "p \<noteq> i" "tab ! p = Some y" using p by (auto simp: nth_update_None)
    obtain c where c: "c < ?n" "p = (h y + c) mod ?n"
      and wc: "\<And>k. k < c \<Longrightarrow> tab ! ((h y + k) mod ?n) \<noteq> None"
      using ok p(1) py(2) unfolding hole_ok_def reach_hole_def by (metis not_less0)
    have "(\<exists>l\<ge>1. l < E \<and> p = (i + l) mod ?n) \<and> (\<exists>l<1. (h y + k) mod ?n = (i + l) mod ?n)"
      if k: "k < c" "?T ! ((h y + k) mod ?n) = None" for k
    proof -
      have at: "(h y + k) mod ?n = i"
        using k wc[OF k(1)] by (metis nth_list_update_neq)
      then have "\<exists>l>0. l < E \<and> p = (i + l) mod ?n"
        using cross_in_cluster[OF ok E py(2) c _ k(1)] wc i by (metis add_0_right mod_less)
      then show ?thesis using at i by (metis One_nat_def Suc_leI add_0_right less_one mod_less)
    qed
    then show ?thesis using c unfolding reach_hole_def by (intro exI[of _ c]) simp
  qed
  moreover have "?T ! ((i + l) mod ?n) = tab ! ((i + l) mod ?n)" if "0 < l" "l \<le> E" for l
    using other[OF that] by simp
  ultimately show ?thesis
    using ok E En unfolding hole_ok_def by (simp add: tab_distinct_None Suc_le_eq)
qed

end

text \<open>The loop on sets: every step adds the vacated item again, in a table that need not grow.\<close>

definition BRSet_hole :: "'a BRSet \<Rightarrow> nat \<Rightarrow> nat \<Rightarrow> nat \<Rightarrow> bool" where
  "BRSet_hole s i m E \<longleftrightarrow> hash_eq (s_hash s) (s_eq s) \<and> length (s_table s) = s_size s \<and>
     s_size s \<in> set (tl tableSizes) \<and> s_itemCount s = tab_count (s_table s) \<and>
     s_itemCount s \<le> BRSet_limit (s_size s) \<and> hole_ok (s_hash s) (s_eq s) (s_table s) i m E"

lemma cleanup_step:
  assumes hole: "BRSet_hole s i m E" and m: "m < E"
    and x: "s_table s ! ((i + m) mod s_size s) = Some x"
  obtains s' where "BRSetAdd (BRSet_vacate s ((i + m) mod s_size s)) x = Inr (s', None)"
    and "BRSet_hole s' i (Suc m) E" "same_kind s s'" "s_size s' = s_size s"
    and "s_itemCount s' = s_itemCount s" "BRSet_items s' = BRSet_items s"
proof -
  let ?t = "s_table s" and ?j = "(i + m) mod s_size s"
  have len: "length ?t = s_size s" and he: "hash_eq (s_hash s) (s_eq s)"
    and ok: "hole_ok (s_hash s) (s_eq s) ?t i m E" and cnt: "s_itemCount s = tab_count ?t"
    and lim: "s_itemCount s \<le> BRSet_limit (s_size s)" and sz: "s_size s \<in> set (tl tableSizes)"
    using hole by (auto simp: BRSet_hole_def)
  have j: "?j < s_size s" using ok m len by (intro mod_lt[of E]) (auto simp: hole_ok_def)
  obtain f where f: "f < s_size s" "?t[?j := None] ! f = None"
    and pr: "BRSet_probe (s_eq s) (?t[?j := None]) (s_size s) x (s_size s) (s_hash s x mod s_size s) = Some f"
    and hole': "hole_ok (s_hash s) (s_eq s) (?t[?j := None, f := Some x]) i (Suc m) E"
    and items: "tab_items (?t[?j := None, f := Some x]) = tab_items ?t"
    using hash_eq.hole_step[OF he ok m] x unfolding len by blast
  let ?v = "BRSet_vacate s ?j"
  have c1: "tab_count (?t[?j := None]) + 1 = tab_count ?t"
    using tab_count_update[of ?j ?t None] j len x by simp
  have c2: "tab_count (?t[?j := None, f := Some x]) = tab_count ?t"
    using tab_count_update[of f "?t[?j := None]" "Some x"] f len c1 by simp
  have cp: "s_itemCount (BRSet_put ?v f x) = s_itemCount s"
    using f(2) c1 cnt by (simp add: BRSet_put_def BRSet_vacate_def)
  have tp: "s_table (BRSet_put ?v f x) = ?t[?j := None, f := Some x]"
    by (simp add: BRSet_put_def BRSet_vacate_def)
  have sp: "s_size (BRSet_put ?v f x) = s_size s" "same_kind s (BRSet_put ?v f x)"
    by (simp_all add: BRSet_put_def BRSet_vacate_def same_kind_def)
  have "BRSet_find ?v x = Inr f"
    using pr j by (simp add: BRSet_find_def BRSet_vacate_def)
  then have "BRSetAdd ?v x = Inr (BRSet_put ?v f x, None)"
    using cp lim f(2) by (simp add: BRSetAdd_def BRSetAdd_f.simps BRSet_vacate_def)
  moreover have "BRSet_hole (BRSet_put ?v f x) i (Suc m) E"
    using he len sz lim cnt c2 cp tp sp hole' by (simp add: BRSet_hole_def same_kind_def)
  ultimately show thesis
    using that cp sp items tp by (simp add: BRSet_items_def)
qed

lemma BRSet_cleanup_spec:
  assumes "BRSet_hole s i m E" "E < k + m" "m \<le> E"
  shows "\<exists>s'. BRSet_cleanup (s_size s) k s ((i + m) mod s_size s) = Inr s' \<and> BRSet_wf s' \<and>
           same_kind s s' \<and> s_size s' = s_size s \<and> s_itemCount s' = s_itemCount s \<and>
           BRSet_items s' = BRSet_items s"
  using assms
proof (induction k arbitrary: s m)
  case 0
  then show ?case by simp
next
  case (Suc k)
  show ?case
  proof (cases "m = E")
    case True
    then have "BRSet_wf s"
      using Suc.prems(1) hole_ok_done by (auto simp: BRSet_hole_def BRSet_wf_def BRSet_rep_def)
    moreover have "s_table s ! ((i + m) mod s_size s) = None"
      using Suc.prems(1) True unfolding BRSet_hole_def hole_ok_def by metis
    ultimately show ?thesis by (simp add: same_kind_def)
  next
    case False
    then have m: "m < E" using Suc.prems(3) by simp
    then obtain x where x: "s_table s ! ((i + m) mod s_size s) = Some x"
      using Suc.prems(1) by (fastforce simp: BRSet_hole_def hole_ok_def)
    obtain s1 where s1: "BRSetAdd (BRSet_vacate s ((i + m) mod s_size s)) x = Inr (s1, None)"
        "BRSet_hole s1 i (Suc m) E" "same_kind s s1" "s_size s1 = s_size s"
        "s_itemCount s1 = s_itemCount s" "BRSet_items s1 = BRSet_items s"
      by (rule cleanup_step[OF Suc.prems(1) m x])
    have "((i + m) mod s_size s + 1) mod s_size s = (i + Suc m) mod s_size s"
      by (simp add: mod_Suc_eq)
    then show ?thesis
      using Suc.IH[OF s1(2)] Suc.prems(2) m x s1 by (auto simp: same_kind_def)
  qed
qed

lemma BRSetRemove_spec:
  assumes wf: "BRSet_wf s"
  obtains s' r where "BRSetRemove s x = Inr (s', r)" "BRSet_wf s'" "same_kind s s'" "found s x r"
    and "BRSet_items s' = items_remove (s_eq s) x (BRSet_items s)" "s_size s' = s_size s"
    and "s_itemCount s' + (if r = None then 0 else 1) = s_itemCount s"
proof -
  let ?t = "s_table s"
  have rep: "BRSet_rep s" "s_itemCount s < s_size s" and le: "s_itemCount s \<le> BRSet_limit (s_size s)"
    using wf BRSet_repD(6)[of s] by (auto simp: BRSet_wf_def)
  note rp = BRSet_repD[OF rep(1)]
  have len: "length ?t = s_size s" using rp by simp
  obtain i where i: "BRSet_find s x = Inr i" "i < s_size s" "found s x (?t ! i)"
    by (rule BRSet_find_spec[OF rep])
  show thesis
  proof (cases "?t ! i")
    case None
    then have "BRSet_items s = items_remove (s_eq s) x (BRSet_items s)"
      using i(3) by (auto simp: found_def items_remove_def)
    with None i that[of s None] wf show thesis by (simp add: BRSetRemove_def same_kind_def)
  next
    case (Some r)
    obtain p where p: "p < length ?t" "?t ! p = None"
      using tab_count_less_None[of ?t] rep(2) rp len by auto
    obtain E where E: "0 < E" "hole_ok (s_hash s) (s_eq s) ?t i 0 E"
      using hash_eq.hole_start[OF rp(1,5) _ Some p] i(2) len by auto
    let ?v = "BRSet_vacate s i"
    have vc: "tab_count (?t[i := None]) + 1 = tab_count ?t"
      using tab_count_update[of i ?t None] i(2) len Some by simp
    have hole: "BRSet_hole ?v i 1 E"
      using rp rep(1) le len vc hash_eq.hole_vacate[OF rp(1) E(2,1)] i(2)
      by (auto simp: BRSet_hole_def BRSet_vacate_def BRSet_rep_def)
    have "E < s_size s + 1" using E(2) len by (simp add: hole_ok_def)
    then obtain s' where s': "BRSet_cleanup (s_size s) (s_size s) ?v ((i + 1) mod s_size s) = Inr s'"
        "BRSet_wf s'" "same_kind ?v s'" "s_size s' = s_size s" "s_itemCount s' = s_itemCount s - 1"
        "BRSet_items s' = BRSet_items ?v"
      using BRSet_cleanup_spec[OF hole, of "s_size s"] E(1) by (auto simp: BRSet_vacate_def)
    have "BRSetRemove s x = Inr (s', Some r)"
      using i(1) Some s'(1) by (simp add: BRSetRemove_def)
    moreover have "BRSet_items s' = items_remove (s_eq s) x (BRSet_items s)"
    proof -
      have "BRSet_items ?v = BRSet_items s - {r}"
        using tab_items_update[of i ?t "s_eq s" None] rp i(2) len Some hash_eq.e_refl[OF rp(1)]
        by (simp add: BRSet_items_def BRSet_vacate_def tab_ok_def)
      moreover have "y = r" if "y \<in> BRSet_items s" "s_eq s y x" for y
        using found_unique[OF rep(1) i(3), of "Some y"] that Some by (simp add: found_def)
      ultimately show ?thesis
        using s'(6) i(3) Some by (auto simp: items_remove_def found_def)
    qed
    moreover have "s_itemCount s' + 1 = s_itemCount s"
      using s'(5) rp vc by simp
    ultimately show thesis
      using that s' i(3) Some by (simp add: same_kind_def BRSet_vacate_def)
  qed
qed

section \<open>The other operations\<close>

lemma BRSetContains_spec:
  assumes "BRSet_wf s"
  shows "BRSetContains s x = Inr (\<exists>y\<in>BRSet_items s. s_eq s y x)"
proof -
  obtain r where "BRSetGet s x = Inr r" "found s x r" by (rule BRSetGet_spec[OF assms])
  then show ?thesis by (auto simp: BRSetContains_def found_def split: option.splits)
qed

lemma BRSetClear_spec:
  assumes "BRSet_wf s"
  shows "BRSet_wf (BRSetClear s)" "BRSet_items (BRSetClear s) = {}" "same_kind s (BRSetClear s)"
  using assms by (auto simp: BRSetClear_def BRSet_wf_def BRSet_rep_def tab_count_def tab_ok_def
      tab_distinct_def BRSet_items_def tab_items_def same_kind_def)

lemma distinct_present:
  assumes "tab_distinct e tab" "\<And>x. e x x"
  shows "distinct (map the (filter (\<lambda>t. t \<noteq> None) tab))"
  using assms(1)
proof (induction tab)
  case Nil
  then show ?case by simp
next
  case (Cons t tab)
  note d = tab_distinct_Cons[OF Cons.prems]
  show ?case
  proof (cases t)
    case None
    then show ?thesis using Cons.IH d by simp
  next
    case (Some x)
    then have "x \<notin> tab_items tab" using d assms(2) by auto
    then have "x \<notin> the ` {t \<in> set tab. t \<noteq> None}" by (auto simp: tab_items_def)
    then show ?thesis using Some Cons.IH d by simp
  qed
qed

lemma set_present: "set (map the (filter (\<lambda>t. t \<noteq> None) tab)) = tab_items tab"
  by (force simp: tab_items_def image_iff)

text \<open>The number of items of a well-formed set is its count, and \<open>BRSetAll\<close> lists them once each.\<close>

lemma card_items:
  assumes "BRSet_rep s"
  shows "finite (BRSet_items s)" "card (BRSet_items s) = s_itemCount s"
proof -
  note rep = BRSet_repD[OF assms]
  have "distinct (map the (filter (\<lambda>t. t \<noteq> None) (s_table s)))"
    using distinct_present[of "s_eq s" "s_table s"] hash_eq.e_refl[OF rep(1)] rep(5) by (simp add: tab_ok_def)
  from distinct_card[OF this] show "card (BRSet_items s) = s_itemCount s"
    unfolding set_present length_map using rep(4) by (simp add: BRSet_items_def tab_count_def)
  show "finite (BRSet_items s)"
    unfolding BRSet_items_def by (metis List.finite_set set_present)
qed

lemma BRSetAll_spec:
  assumes "BRSet_rep s" "s_itemCount s \<le> count"
  shows "set (BRSetAll s count) = BRSet_items s" "distinct (BRSetAll s count)"
    and "length (BRSetAll s count) = BRSetCount s"
proof -
  note rep = BRSet_repD[OF assms(1)]
  have "BRSetAll s count = map the (filter (\<lambda>t. t \<noteq> None) (s_table s))"
    using assms(2) rep(4) by (simp add: BRSetAll_def tab_count_def)
  moreover have "distinct (map the (filter (\<lambda>t. t \<noteq> None) (s_table s)))"
    using distinct_present[of "s_eq s" "s_table s"] hash_eq.e_refl[OF rep(1)] rep(5) by (simp add: tab_ok_def)
  ultimately show "set (BRSetAll s count) = BRSet_items s" "distinct (BRSetAll s count)"
    and "length (BRSetAll s count) = BRSetCount s"
    using rep(4)
    by (simp_all only: set_present BRSet_items_def BRSetCount_def tab_count_def length_map)
qed

text \<open>\<open>BRSetUnion\<close> and \<open>BRSetMinus\<close> fold insertion and removal over the items of the other set.\<close>

lemma BRSetAdd_f_spec:
  assumes "BRSet_wf s" "s_itemCount s < BRSet_limit (last tableSizes)"
  obtains s' r where "BRSetAdd_f (length tableSizes) s x = Inr (s', r)" "BRSet_wf s'"
    "same_kind s s'" "BRSet_items s' = items_add (s_eq s) x (BRSet_items s)"
  using BRSetAdd_spec[OF assms, of x] by (metis BRSetAdd_def)

lemma card_items_add: "finite I \<Longrightarrow> card (items_add e x I) \<le> card I + 1"
proof -
  assume "finite I"
  then have "card {y \<in> I. \<not> e y x} \<le> card I" by (intro card_mono) auto
  then show ?thesis using \<open>finite I\<close> by (simp add: items_add_def card_insert_if)
qed

lemma BRSetUnion_spec:
  assumes "BRSet_wf s" "s_itemCount s + tab_count ts \<le> BRSet_limit (last tableSizes)"
  shows "\<exists>s'. BRSetUnion_f (length tableSizes) s ts = Inr s' \<and> BRSet_wf s' \<and> same_kind s s' \<and>
           BRSet_items s' = foldl (\<lambda>I x. items_add (s_eq s) x I) (BRSet_items s)
             (map the (filter (\<lambda>t. t \<noteq> None) ts))"
  using assms
proof (induction ts arbitrary: s)
  case Nil
  then show ?case by (simp add: same_kind_def)
next
  case (Cons t ts)
  show ?case
  proof (cases t)
    case None
    then show ?thesis using Cons.IH[of s] Cons.prems by (simp add: tab_count_def)
  next
    case (Some x)
    have "s_itemCount s < BRSet_limit (last tableSizes)"
      using Cons.prems(2) Some by (simp add: tab_count_def)
    then obtain s1 r where s1: "BRSetAdd_f (length tableSizes) s x = Inr (s1, r)" "BRSet_wf s1"
        "same_kind s s1" "BRSet_items s1 = items_add (s_eq s) x (BRSet_items s)"
      using BRSetAdd_f_spec[OF Cons.prems(1)] by blast
    have "s_itemCount s1 \<le> s_itemCount s + 1"
      using card_items[of s] card_items[of s1] card_items_add[of "BRSet_items s" "s_eq s" x]
        s1(2,4) Cons.prems(1) by (simp add: BRSet_wf_def)
    then have "s_itemCount s1 + tab_count ts \<le> BRSet_limit (last tableSizes)"
      using Cons.prems(2) Some by (simp add: tab_count_def)
    from Cons.IH[OF s1(2) this] show ?thesis
      using s1 Some by (auto simp: same_kind_def)
  qed
qed

lemma BRSet_removeAll_spec:
  assumes "BRSet_wf s"
  shows "\<exists>s'. BRSet_removeAll s ts = Inr s' \<and> BRSet_wf s' \<and> same_kind s s' \<and>
           BRSet_items s' = {x \<in> BRSet_items s. \<forall>y\<in>tab_items ts. \<not> s_eq s x y}"
  using assms
proof (induction ts arbitrary: s)
  case Nil
  then show ?case by (simp add: same_kind_def tab_items_def)
next
  case (Cons t ts)
  show ?case
  proof (cases t)
    case None
    then show ?thesis using Cons by (simp add: tab_items_Cons)
  next
    case (Some x)
    obtain s1 r where s1: "BRSetRemove s x = Inr (s1, r)" "BRSet_wf s1" "same_kind s s1"
        "BRSet_items s1 = items_remove (s_eq s) x (BRSet_items s)"
      by (rule BRSetRemove_spec[OF Cons.prems])
    from Cons.IH[OF s1(2)] show ?thesis
      using s1 Some by (auto simp: same_kind_def tab_items_Cons items_remove_def)
  qed
qed

lemma BRSetMinus_spec:
  assumes "BRSet_wf s"
  obtains s' where "BRSetMinus s other = Inr s'" "BRSet_wf s'" "same_kind s s'"
    and "BRSet_items s' = {x \<in> BRSet_items s. \<forall>y\<in>BRSet_items other. \<not> s_eq s x y}"
  using BRSet_removeAll_spec[OF assms, of "s_table other"] that
  by (auto simp: BRSetMinus_def BRSet_items_def)

lemma BRSetIntersects_spec:
  assumes "BRSet_wf s"
  shows "BRSetIntersects s other = Inr (\<exists>x\<in>BRSet_items s. \<exists>y\<in>BRSet_items other. s_eq s x y)"
proof -
  have "BRSet_anyIn s ts = Inr (\<exists>x\<in>BRSet_items s. \<exists>y\<in>tab_items ts. s_eq s x y)" for ts
    using assms
  proof (induction s ts rule: BRSet_anyIn.induct)
    case (3 s t ts)
    obtain r where r: "BRSetGet s t = Inr r" "found s t r" by (rule BRSetGet_spec[OF 3(2)])
    show ?case
    proof (cases r)
      case None
      then show ?thesis using r 3 by (auto simp: found_def tab_items_Cons)
    next
      case (Some y)
      then show ?thesis using r by (auto simp: found_def tab_items_Cons)
    qed
  qed (auto simp: tab_items_def)
  then show ?thesis by (simp add: BRSetIntersects_def BRSet_items_def)
qed

text \<open>\<open>BRSetNew\<close> gives an empty set for every capacity that has a table size.\<close>

lemma BRSetNew_wf:
  assumes "hash_eq h e" "capacity \<le> tableSizes ! 49"
  shows "BRSet_wf (BRSetNew h e capacity)" "BRSet_items (BRSetNew h e capacity) = {}"
proof -
  have "BRSet_sizeIndex capacity \<le> 49"
  proof (rule ccontr)
    assume "\<not> ?thesis"
    then have "49 < length (takeWhile (\<lambda>s. s < capacity) tableSizes)"
      by (simp add: BRSet_sizeIndex_def)
    from nth_length_takeWhile takeWhile_nth[OF this] nth_mem[OF this] show False
      using assms(2) by (metis leD set_takeWhileD)
  qed
  then have i: "BRSet_sizeIndex capacity + 1 < length tableSizes" by (simp add: length_tableSizes)
  then have "tableSizes ! (BRSet_sizeIndex capacity + 1) \<in> set (tl tableSizes)"
    by (auto simp: tl_size_nth intro!: exI[of _ "BRSet_sizeIndex capacity + 1"])
  then show "BRSet_wf (BRSetNew h e capacity)" "BRSet_items (BRSetNew h e capacity) = {}"
    using i empty_wf[OF assms(1)]
    by (simp_all add: BRSetNew_def BRSetInit_def Let_def BRSet_items_def tab_items_def)
qed

section \<open>Properties\<close>

text \<open>
  C1: \<open>BRSetAdd\<close> on a well-formed set returns, growing the table when it must, and refines insertion
  into a set with one item per class of \<open>eq\<close>: the result is well-formed, its items are the old ones
  without the item equal to the new one, plus the new one, and the returned item is the replaced one.
\<close>

theorem BRSetAdd_refines:
  assumes "BRSet_wf s" "s_itemCount s < BRSet_limit (last tableSizes)"
  shows "\<exists>s' r. BRSetAdd s x = Inr (s', r) \<and> BRSet_wf s' \<and> same_kind s s' \<and> found s x r \<and>
           BRSet_items s' = items_add (s_eq s) x (BRSet_items s)"
  using BRSetAdd_spec[OF assms, of x] by blast

lemma hash_eq_nat: "hash_eq (\<lambda>x::nat. x div 2) (\<lambda>x y. x div 2 = y div 2)"
  by unfold_locales auto

theorem BRSetAdd_refines_witness:
  "\<exists>s' r. BRSetAdd (BRSetNew (\<lambda>x::nat. x div 2) (\<lambda>x y. x div 2 = y div 2) 5) 8 = Inr (s', r) \<and>
     BRSet_items s' = {8}"
  using BRSetAdd_refines[OF BRSetNew_wf(1)[OF hash_eq_nat, of 5], of 8]
    BRSetNew_wf(2)[OF hash_eq_nat, of 5]
  by (auto simp: tableSizes_def BRSetNew_def BRSetInit_def BRSet_sizeIndex_def BRSet_limit_def
      items_add_def)

text \<open>
  C2: \<open>BRSetRemove\<close> on a well-formed set returns (the clean-up of the cluster ends), keeps the set
  well-formed, removes exactly the item equal to the argument and returns it, and every other item
  stays reachable; the count goes down by one when an item was removed.
\<close>

theorem BRSetRemove_refines:
  assumes "BRSet_wf s"
  shows "\<exists>s' r. BRSetRemove s x = Inr (s', r) \<and> BRSet_wf s' \<and> same_kind s s' \<and> found s x r \<and>
           BRSet_items s' = items_remove (s_eq s) x (BRSet_items s) \<and>
           BRSetCount s' + (if r = None then 0 else 1) = BRSetCount s"
proof -
  obtain s' r where "BRSetRemove s x = Inr (s', r)" "BRSet_wf s'" "same_kind s s'" "found s x r"
    "BRSet_items s' = items_remove (s_eq s) x (BRSet_items s)"
    "s_itemCount s' + (if r = None then 0 else 1) = s_itemCount s"
    by (rule BRSetRemove_spec[OF assms, of x])
  then show ?thesis unfolding BRSetCount_def by (intro exI[of _ s'] exI[of _ r] conjI)
qed

text \<open>A table with every item in its hash bucket is well-formed when the items differ.\<close>

lemma direct_wf:
  assumes "hash_eq (s_hash s) (s_eq s)" "length (s_table s) = s_size s" "s_size s \<in> set (tl tableSizes)"
    and "s_itemCount s = tab_count (s_table s)" "s_itemCount s \<le> BRSet_limit (s_size s)"
    and at: "\<And>p x. p < s_size s \<Longrightarrow> s_table s ! p = Some x \<Longrightarrow> s_hash s x mod s_size s = p"
  shows "BRSet_wf s"
proof -
  have "tab_distinct (s_eq s) (s_table s)"
    unfolding tab_distinct_def
  proof (intro allI impI)
    fix p q x y
    assume a: "p < length (s_table s)" "q < length (s_table s)" "s_table s ! p = Some x"
      "s_table s ! q = Some y" "s_eq s x y"
    have "s_hash s x = s_hash s y" by (rule hash_eq.e_hash[OF assms(1) a(5)])
    then show "p = q" using at[of p x] at[of q y] a assms(2) by simp
  qed
  moreover have "reach (s_table s) (s_hash s x) p" if "p < s_size s" "s_table s ! p = Some x" for p x
    using at[OF that] that(1) assms(2) unfolding reach_def by (intro exI[of _ 0]) simp
  ultimately show ?thesis using assms by (simp add: BRSet_wf_def BRSet_rep_def tab_ok_def)
qed

theorem BRSetRemove_refines_witness:
  "\<exists>s' r. BRSetRemove \<lparr> s_table = [Some 3, None, None], s_size = 3, s_itemCount = 1,
       s_hash = (\<lambda>x::nat. x), s_eq = (=) \<rparr> 3 = Inr (s', r) \<and> BRSet_items s' = {} \<and> r = Some 3"
proof -
  let ?s = "\<lparr> s_table = [Some 3, None, None], s_size = 3, s_itemCount = 1,
       s_hash = (\<lambda>x::nat. x), s_eq = (=) \<rparr>"
  have "BRSet_wf ?s"
    by (rule direct_wf) (auto simp: hash_eq_def tableSizes_def tab_count_def BRSet_limit_def nth_Cons'
        split: if_splits)
  from BRSetRemove_refines[OF this, of 3] obtain s' r where
    "BRSetRemove ?s 3 = Inr (s', r)" "found ?s 3 r" "BRSet_items s' = items_remove (=) 3 (BRSet_items ?s)"
    by auto
  then show ?thesis
    by (auto simp: items_remove_def BRSet_items_def tab_items_def found_def split: option.splits)
qed

text \<open>
  C3: a lookup in a well-formed set returns: \<open>BRSetGet\<close> answers the one item equal to the argument and
  \<open>BRSetContains\<close> whether there is one, and \<open>BRSetAll\<close> lists every item once.
\<close>

theorem BRSet_lookup_correct:
  assumes "BRSet_wf s"
  shows "(\<exists>r. BRSetGet s x = Inr r \<and> found s x r \<and> (\<forall>r'. found s x r' \<longrightarrow> r' = r)) \<and>
         BRSetContains s x = Inr (\<exists>y\<in>BRSet_items s. s_eq s y x) \<and>
         set (BRSetAll s (BRSetCount s)) = BRSet_items s \<and> distinct (BRSetAll s (BRSetCount s))"
proof -
  have rep: "BRSet_rep s" using assms by (simp add: BRSet_wf_def)
  obtain r where "BRSetGet s x = Inr r" "found s x r" by (rule BRSetGet_spec[OF assms])
  then show ?thesis
    using BRSetContains_spec[OF assms] BRSetAll_spec[OF rep, of "BRSetCount s"]
      found_unique[OF rep] by (auto simp: BRSetCount_def)
qed

theorem BRSet_lookup_correct_witness:
  "BRSetContains (BRSetNew (\<lambda>x::nat. x div 2) (\<lambda>x y. x div 2 = y div 2) 5) 8 = Inr False"
  using BRSet_lookup_correct[OF BRSetNew_wf(1)[OF hash_eq_nat, of 5], of 8]
    BRSetNew_wf(2)[OF hash_eq_nat, of 5]
  by (simp add: tableSizes_def)

text \<open>
  The table grows past the limit of two in three only after rounding up: with 7 buckets the set
  keeps its size with 6 items in it, a load of 6/7, although the comments speak of a maximum of 2/3.
\<close>

lemma BRSet_load_beyond_two_thirds:
  "\<exists>s. BRSet_wf s \<and> s_size s = 7 \<and> s_itemCount s = 5 \<and>
     (\<exists>s'. BRSetAdd s (5::nat) = Inr (s', None) \<and> s_size s' = 7 \<and> 3 * s_itemCount s' > 2 * s_size s')"
proof -
  let ?T = "[Some 0, Some 1, Some 2, Some 3, Some 4, None, None] :: nat option list"
  let ?s = "\<lparr> s_table = ?T, s_size = 7, s_itemCount = 5, s_hash = \<lambda>x. x, s_eq = (=) \<rparr>"
  have "BRSet_wf ?s"
    by (rule direct_wf) (auto simp: hash_eq_def tableSizes_def tab_count_def BRSet_limit_def nth_Cons'
        split: if_splits)
  moreover have "BRSet_probe (=) ?T 7 5 7 5 = Some 5"
    using probe_step[of "(=)" ?T 7 5 6 5] by (simp add: stops_def)
  then have "BRSetAdd ?s 5 = Inr (?s\<lparr> s_table := ?T[5 := Some 5], s_itemCount := 6 \<rparr>, None)"
    by (simp add: BRSetAdd_def BRSetAdd_f.simps BRSet_find_def BRSet_put_def BRSet_limit_def)
  ultimately show ?thesis by (intro exI[of _ ?s]) simp
qed

end
