(* ===== verification/BRCrypto.thy ===== *)
theory BRCrypto
  imports BRInt
begin

text \<open>
  \<open>BRCrypto.c\<close>: the hash functions, \<open>BRHMAC\<close> and \<open>BRMurmur3_32\<close>. A buffer of 64 bytes that the C code
  reads as an array of \<open>uint32_t\<close> is a byte list read by \<open>u32s\<close>, in the little endian order of the
  machine. The functions that differ only in the compression function, the initial state and the way the
  length is appended share \<open>md_digest\<close>, which is proved to be the usual padding and iteration.
\<close>

section \<open>Rotations and byte order\<close>

definition le32 :: "u32 \<Rightarrow> u32" where
  "le32 x = x"

definition be32 :: "u32 \<Rightarrow> u32" where
  "be32 x = push_bit 24 (x AND 0xff) OR push_bit 8 (x AND 0xff00) OR
     drop_bit 8 (x AND 0xff0000) OR drop_bit 24 (x AND 0xff000000)"

definition le64 :: "u64 \<Rightarrow> u64" where
  "le64 x = x"

definition be64 :: "u64 \<Rightarrow> u64" where
  "be64 x = ucast (be32 (ucast (drop_bit 32 x))) OR push_bit 32 (ucast (be32 (ucast x)))"

definition rol32 :: "u32 \<Rightarrow> nat \<Rightarrow> u32" where
  "rol32 a b = push_bit b a OR drop_bit (32 - b) a"

definition ror32 :: "u32 \<Rightarrow> nat \<Rightarrow> u32" where
  "ror32 a b = drop_bit b a OR push_bit (32 - b) a"

definition ror64 :: "u64 \<Rightarrow> nat \<Rightarrow> u64" where
  "ror64 a b = drop_bit b a OR push_bit (64 - b) a"

definition rol64 :: "u64 \<Rightarrow> nat \<Rightarrow> u64" where
  "rol64 a b = push_bit b a XOR drop_bit (64 - b) a"

definition u32s :: "nat \<Rightarrow> bytes \<Rightarrow> u32 list" where
  "u32s n bs = map (\<lambda>i. UInt32GetLE (drop (4 * i) bs)) [0..<n]"

definition u64s :: "nat \<Rightarrow> bytes \<Rightarrow> u64 list" where
  "u64s n bs = map (\<lambda>i. UInt64GetLE (drop (8 * i) bs)) [0..<n]"

section \<open>Blocks and padding\<close>

text \<open>
  The loop over the full blocks of the data. It leaves the rest of the data, shorter than a block, which
  the functions have then copied to \<open>x\<close>.
\<close>

function md_loop :: "nat \<Rightarrow> ('st \<Rightarrow> bytes \<Rightarrow> 'st) \<Rightarrow> 'st \<Rightarrow> bytes \<Rightarrow> 'st \<times> bytes" where
  "md_loop n compress buf data =
     (if 0 < n \<and> n \<le> length data
      then md_loop n compress (compress buf (take n data)) (drop n data)
      else (buf, data))"
  by pat_completeness auto
termination
  by (relation "measure (\<lambda>(n, _, _, data). length data)") auto

declare md_loop.simps [simp del]

definition md_digest ::
    "nat \<Rightarrow> nat \<Rightarrow> (size_t \<Rightarrow> bytes) \<Rightarrow> ('st \<Rightarrow> bytes \<Rightarrow> 'st) \<Rightarrow> 'st \<Rightarrow> bytes \<Rightarrow> 'st" where
  "md_digest n lenBytes lenEnc compress init data =
     (let (buf, rest) = md_loop n compress init data;
          x = rest @ 0x80 # replicate (n - (length rest + 1)) 0;
          (buf, x) = (if n - lenBytes \<le> length rest then (compress buf x, replicate n 0) else (buf, x))
      in compress buf (take (n - lenBytes) x @ lenEnc (of_nat (length data))))"

text \<open>The length in bits, as two big endian words, two little endian words, or a 128 bit big endian word.\<close>

definition bits_be32 :: "size_t \<Rightarrow> bytes" where
  "bits_be32 len = UInt32SetLE (be32 (ucast (drop_bit 29 len))) @ UInt32SetLE (be32 (ucast (push_bit 3 len)))"

definition bits_le32 :: "size_t \<Rightarrow> bytes" where
  "bits_le32 len = UInt32SetLE (le32 (ucast (push_bit 3 len))) @ UInt32SetLE (le32 (ucast (drop_bit 29 len)))"

definition bits_be64 :: "size_t \<Rightarrow> bytes" where
  "bits_be64 len = UInt64SetLE 0 @ UInt64SetLE (be64 (len * 8))"

section \<open>SHA-1\<close>

definition sha1_f1 :: "u32 \<Rightarrow> u32 \<Rightarrow> u32 \<Rightarrow> u32" where
  "sha1_f1 x y z = (x AND y) OR (NOT x AND z)"

definition sha1_f2 :: "u32 \<Rightarrow> u32 \<Rightarrow> u32 \<Rightarrow> u32" where
  "sha1_f2 x y z = x XOR y XOR z"

definition sha1_f3 :: "u32 \<Rightarrow> u32 \<Rightarrow> u32 \<Rightarrow> u32" where
  "sha1_f3 x y z = (x AND y) OR (x AND z) OR (y AND z)"

type_synonym sha1_state = "u32 \<times> u32 \<times> u32 \<times> u32 \<times> u32"

definition sha1_step ::
    "(u32 \<Rightarrow> u32 \<Rightarrow> u32 \<Rightarrow> u32) \<Rightarrow> u32 \<Rightarrow> sha1_state \<Rightarrow> u32 \<Rightarrow> sha1_state" where
  "sha1_step f y s z =
     (case s of (a, b, c, d, e) \<Rightarrow> (rol32 a 5 + f b c d + e + y + z, a, rol32 b 30, c, d))"

definition sha1_extend :: "u32 list \<Rightarrow> u32 list" where
  "sha1_extend x = foldl (\<lambda>x i. x @ [rol32 (x ! (i - 3) XOR x ! (i - 8) XOR x ! (i - 14) XOR x ! (i - 16)) 1])
     (map be32 x) [16..<80]"

definition BRSHA1Compress :: "sha1_state \<Rightarrow> bytes \<Rightarrow> sha1_state" where
  "BRSHA1Compress r block =
     (let x = sha1_extend (u32s 16 block);
          s = foldl (sha1_step sha1_f1 0x5a827999) r (take 20 x);
          s = foldl (sha1_step sha1_f2 0x6ed9eba1) s (take 20 (drop 20 x));
          s = foldl (sha1_step sha1_f3 0x8f1bbcdc) s (take 20 (drop 40 x));
          s = foldl (sha1_step sha1_f2 0xca62c1d6) s (drop 60 x)
      in case r of (r0, r1, r2, r3, r4) \<Rightarrow> case s of (a, b, c, d, e) \<Rightarrow>
           (r0 + a, r1 + b, r2 + c, r3 + d, r4 + e))"

definition BRSHA1 :: "bytes \<Rightarrow> bytes" where
  "BRSHA1 data =
     (case md_digest 64 8 bits_be32 BRSHA1Compress
        (0x67452301, 0xefcdab89, 0x98badcfe, 0x10325476, 0xc3d2e1f0) data of (a, b, c, d, e) \<Rightarrow>
      concat (map (\<lambda>w. UInt32SetLE (be32 w)) [a, b, c, d, e]))"

section \<open>SHA-224 and SHA-256\<close>

definition sha_ch :: "'a::len word \<Rightarrow> 'a word \<Rightarrow> 'a word \<Rightarrow> 'a word" where
  "sha_ch x y z = (x AND y) XOR (NOT x AND z)"

definition sha_maj :: "'a::len word \<Rightarrow> 'a word \<Rightarrow> 'a word \<Rightarrow> 'a word" where
  "sha_maj x y z = (x AND y) XOR (x AND z) XOR (y AND z)"

definition sha256_s0 :: "u32 \<Rightarrow> u32" where
  "sha256_s0 x = ror32 x 2 XOR ror32 x 13 XOR ror32 x 22"

definition sha256_s1 :: "u32 \<Rightarrow> u32" where
  "sha256_s1 x = ror32 x 6 XOR ror32 x 11 XOR ror32 x 25"

definition sha256_s2 :: "u32 \<Rightarrow> u32" where
  "sha256_s2 x = ror32 x 7 XOR ror32 x 18 XOR drop_bit 3 x"

definition sha256_s3 :: "u32 \<Rightarrow> u32" where
  "sha256_s3 x = ror32 x 17 XOR ror32 x 19 XOR drop_bit 10 x"

type_synonym 'w sha_state = "'w \<times> 'w \<times> 'w \<times> 'w \<times> 'w \<times> 'w \<times> 'w \<times> 'w"

definition sha256_k :: "u32 list" where
  "sha256_k = concat
    [[0x428a2f98, 0x71374491, 0xb5c0fbcf, 0xe9b5dba5],
     [0x3956c25b, 0x59f111f1, 0x923f82a4, 0xab1c5ed5],
     [0xd807aa98, 0x12835b01, 0x243185be, 0x550c7dc3],
     [0x72be5d74, 0x80deb1fe, 0x9bdc06a7, 0xc19bf174],
     [0xe49b69c1, 0xefbe4786, 0x0fc19dc6, 0x240ca1cc],
     [0x2de92c6f, 0x4a7484aa, 0x5cb0a9dc, 0x76f988da],
     [0x983e5152, 0xa831c66d, 0xb00327c8, 0xbf597fc7],
     [0xc6e00bf3, 0xd5a79147, 0x06ca6351, 0x14292967],
     [0x27b70a85, 0x2e1b2138, 0x4d2c6dfc, 0x53380d13],
     [0x650a7354, 0x766a0abb, 0x81c2c92e, 0x92722c85],
     [0xa2bfe8a1, 0xa81a664b, 0xc24b8b70, 0xc76c51a3],
     [0xd192e819, 0xd6990624, 0xf40e3585, 0x106aa070],
     [0x19a4c116, 0x1e376c08, 0x2748774c, 0x34b0bcb5],
     [0x391c0cb3, 0x4ed8aa4a, 0x5b9cca4f, 0x682e6ff3],
     [0x748f82ee, 0x78a5636f, 0x84c87814, 0x8cc70208],
     [0x90befffa, 0xa4506ceb, 0xbef9a3f7, 0xc67178f2]]"

definition sha256_extend :: "u32 list \<Rightarrow> u32 list" where
  "sha256_extend x =
     foldl (\<lambda>w i. w @ [sha256_s3 (w ! (i - 2)) + w ! (i - 7) + sha256_s2 (w ! (i - 15)) + w ! (i - 16)])
       (map be32 x) [16..<64]"

definition sha256_step :: "u32 sha_state \<Rightarrow> u32 \<times> u32 \<Rightarrow> u32 sha_state" where
  "sha256_step s kw =
     (case s of (a, b, c, d, e, f, g, h) \<Rightarrow> case kw of (k, w) \<Rightarrow>
        let t1 = h + sha256_s1 e + sha_ch e f g + k + w; t2 = sha256_s0 a + sha_maj a b c
        in (t1 + t2, a, b, c, d + t1, e, f, g))"

definition sha_add :: "('w::plus) sha_state \<Rightarrow> 'w sha_state \<Rightarrow> 'w sha_state" where
  "sha_add r s =
     (case r of (r0, r1, r2, r3, r4, r5, r6, r7) \<Rightarrow> case s of (a, b, c, d, e, f, g, h) \<Rightarrow>
        (r0 + a, r1 + b, r2 + c, r3 + d, r4 + e, r5 + f, r6 + g, r7 + h))"

definition sha_list :: "'w sha_state \<Rightarrow> 'w list" where
  "sha_list s = (case s of (a, b, c, d, e, f, g, h) \<Rightarrow> [a, b, c, d, e, f, g, h])"

definition BRSHA256Compress :: "u32 sha_state \<Rightarrow> bytes \<Rightarrow> u32 sha_state" where
  "BRSHA256Compress r block =
     sha_add r (foldl sha256_step r (zip sha256_k (sha256_extend (u32s 16 block))))"

definition BRSHA224 :: "bytes \<Rightarrow> bytes" where
  "BRSHA224 data = concat (map (\<lambda>w. UInt32SetLE (be32 w)) (take 7 (sha_list
     (md_digest 64 8 bits_be32 BRSHA256Compress
        (0xc1059ed8, 0x367cd507, 0x3070dd17, 0xf70e5939, 0xffc00b31, 0x68581511, 0x64f98fa7, 0xbefa4fa4)
        data))))"

definition sha256_init :: "u32 sha_state" where
  "sha256_init =
     (0x6a09e667, 0xbb67ae85, 0x3c6ef372, 0xa54ff53a, 0x510e527f, 0x9b05688c, 0x1f83d9ab, 0x5be0cd19)"

definition BRSHA256 :: "bytes \<Rightarrow> bytes" where
  "BRSHA256 data = concat (map (\<lambda>w. UInt32SetLE (be32 w)) (sha_list
     (md_digest 64 8 bits_be32 BRSHA256Compress sha256_init data)))"

definition BRSHA256_2 :: "bytes \<Rightarrow> bytes" where
  "BRSHA256_2 data = BRSHA256 (BRSHA256 data)"

section \<open>SHA-384 and SHA-512\<close>

definition sha512_S0 :: "u64 \<Rightarrow> u64" where
  "sha512_S0 x = ror64 x 28 XOR ror64 x 34 XOR ror64 x 39"

definition sha512_S1 :: "u64 \<Rightarrow> u64" where
  "sha512_S1 x = ror64 x 14 XOR ror64 x 18 XOR ror64 x 41"

definition sha512_S2 :: "u64 \<Rightarrow> u64" where
  "sha512_S2 x = ror64 x 1 XOR ror64 x 8 XOR drop_bit 7 x"

definition sha512_S3 :: "u64 \<Rightarrow> u64" where
  "sha512_S3 x = ror64 x 19 XOR ror64 x 61 XOR drop_bit 6 x"

definition sha512_k :: "u64 list" where
  "sha512_k = concat
    [[0x428a2f98d728ae22, 0x7137449123ef65cd, 0xb5c0fbcfec4d3b2f, 0xe9b5dba58189dbbc],
     [0x3956c25bf348b538, 0x59f111f1b605d019, 0x923f82a4af194f9b, 0xab1c5ed5da6d8118],
     [0xd807aa98a3030242, 0x12835b0145706fbe, 0x243185be4ee4b28c, 0x550c7dc3d5ffb4e2],
     [0x72be5d74f27b896f, 0x80deb1fe3b1696b1, 0x9bdc06a725c71235, 0xc19bf174cf692694],
     [0xe49b69c19ef14ad2, 0xefbe4786384f25e3, 0x0fc19dc68b8cd5b5, 0x240ca1cc77ac9c65],
     [0x2de92c6f592b0275, 0x4a7484aa6ea6e483, 0x5cb0a9dcbd41fbd4, 0x76f988da831153b5],
     [0x983e5152ee66dfab, 0xa831c66d2db43210, 0xb00327c898fb213f, 0xbf597fc7beef0ee4],
     [0xc6e00bf33da88fc2, 0xd5a79147930aa725, 0x06ca6351e003826f, 0x142929670a0e6e70],
     [0x27b70a8546d22ffc, 0x2e1b21385c26c926, 0x4d2c6dfc5ac42aed, 0x53380d139d95b3df],
     [0x650a73548baf63de, 0x766a0abb3c77b2a8, 0x81c2c92e47edaee6, 0x92722c851482353b],
     [0xa2bfe8a14cf10364, 0xa81a664bbc423001, 0xc24b8b70d0f89791, 0xc76c51a30654be30],
     [0xd192e819d6ef5218, 0xd69906245565a910, 0xf40e35855771202a, 0x106aa07032bbd1b8],
     [0x19a4c116b8d2d0c8, 0x1e376c085141ab53, 0x2748774cdf8eeb99, 0x34b0bcb5e19b48a8],
     [0x391c0cb3c5c95a63, 0x4ed8aa4ae3418acb, 0x5b9cca4f7763e373, 0x682e6ff3d6b2b8a3],
     [0x748f82ee5defb2fc, 0x78a5636f43172f60, 0x84c87814a1f0ab72, 0x8cc702081a6439ec],
     [0x90befffa23631e28, 0xa4506cebde82bde9, 0xbef9a3f7b2c67915, 0xc67178f2e372532b],
     [0xca273eceea26619c, 0xd186b8c721c0c207, 0xeada7dd6cde0eb1e, 0xf57d4f7fee6ed178],
     [0x06f067aa72176fba, 0x0a637dc5a2c898a6, 0x113f9804bef90dae, 0x1b710b35131c471b],
     [0x28db77f523047d84, 0x32caab7b40c72493, 0x3c9ebe0a15c9bebc, 0x431d67c49c100d4c],
     [0x4cc5d4becb3e42b6, 0x597f299cfc657e2a, 0x5fcb6fab3ad6faec, 0x6c44198c4a475817]]"

definition sha512_extend :: "u64 list \<Rightarrow> u64 list" where
  "sha512_extend x =
     foldl (\<lambda>w i. w @ [sha512_S3 (w ! (i - 2)) + w ! (i - 7) + sha512_S2 (w ! (i - 15)) + w ! (i - 16)])
       (map be64 x) [16..<80]"

definition sha512_step :: "u64 sha_state \<Rightarrow> u64 \<times> u64 \<Rightarrow> u64 sha_state" where
  "sha512_step s kw =
     (case s of (a, b, c, d, e, f, g, h) \<Rightarrow> case kw of (k, w) \<Rightarrow>
        let t1 = h + sha512_S1 e + sha_ch e f g + k + w; t2 = sha512_S0 a + sha_maj a b c
        in (t1 + t2, a, b, c, d + t1, e, f, g))"

definition BRSHA512Compress :: "u64 sha_state \<Rightarrow> bytes \<Rightarrow> u64 sha_state" where
  "BRSHA512Compress r block =
     sha_add r (foldl sha512_step r (zip sha512_k (sha512_extend (u64s 16 block))))"

definition BRSHA384 :: "bytes \<Rightarrow> bytes" where
  "BRSHA384 data = concat (map (\<lambda>w. UInt64SetLE (be64 w)) (take 6 (sha_list
     (md_digest 128 16 bits_be64 BRSHA512Compress
        (0xcbbb9d5dc1059ed8, 0x629a292a367cd507, 0x9159015a3070dd17, 0x152fecd8f70e5939,
         0x67332667ffc00b31, 0x8eb44a8768581511, 0xdb0c2e0d64f98fa7, 0x47b5481dbefa4fa4) data))))"

definition BRSHA512 :: "bytes \<Rightarrow> bytes" where
  "BRSHA512 data = concat (map (\<lambda>w. UInt64SetLE (be64 w)) (sha_list
     (md_digest 128 16 bits_be64 BRSHA512Compress
        (0x6a09e667f3bcc908, 0xbb67ae8584caa73b, 0x3c6ef372fe94f82b, 0xa54ff53a5f1d36f1,
         0x510e527fade682d1, 0x9b05688c2b3e6c1f, 0x1f83d9abfb41bd6b, 0x5be0cd19137e2179) data)))"

section \<open>RIPEMD-160\<close>

definition rmd_f :: "u32 \<Rightarrow> u32 \<Rightarrow> u32 \<Rightarrow> u32" where
  "rmd_f x y z = x XOR y XOR z"

definition rmd_g :: "u32 \<Rightarrow> u32 \<Rightarrow> u32 \<Rightarrow> u32" where
  "rmd_g x y z = (x AND y) OR (NOT x AND z)"

definition rmd_h :: "u32 \<Rightarrow> u32 \<Rightarrow> u32 \<Rightarrow> u32" where
  "rmd_h x y z = (x OR NOT y) XOR z"

definition rmd_i :: "u32 \<Rightarrow> u32 \<Rightarrow> u32 \<Rightarrow> u32" where
  "rmd_i x y z = (x AND z) OR (y AND NOT z)"

definition rmd_j :: "u32 \<Rightarrow> u32 \<Rightarrow> u32 \<Rightarrow> u32" where
  "rmd_j x y z = x XOR (y OR NOT z)"

text \<open>One line of the macro \<open>rmd\<close>: the state is \<open>(a, b, c, d, e)\<close> of the left or the right line.\<close>

definition rmd_step :: "(u32 \<Rightarrow> u32 \<Rightarrow> u32 \<Rightarrow> u32) \<Rightarrow> u32 \<Rightarrow> u32 list \<Rightarrow> sha1_state \<Rightarrow> nat \<times> nat \<Rightarrow> sha1_state" where
  "rmd_step f k x st rs =
     (case st of (a, b, c, d, e) \<Rightarrow> case rs of (r, s) \<Rightarrow>
        let t = rol32 (f b c d + a + le32 (x ! r) + k) s + e
        in (e, t, b, rol32 c 10, d))"

definition rmd_round ::
    "(u32 \<Rightarrow> u32 \<Rightarrow> u32 \<Rightarrow> u32) \<Rightarrow> u32 \<Rightarrow> nat list \<Rightarrow> nat list \<Rightarrow> u32 list \<Rightarrow> sha1_state \<Rightarrow> sha1_state" where
  "rmd_round f k rs ss x st = foldl (rmd_step f k x) st (zip rs ss)"

definition rmd_left :: "u32 list \<Rightarrow> sha1_state \<Rightarrow> sha1_state" where
  "rmd_left x st =
     (let st = rmd_round rmd_f 0x00000000
            [0, 1, 2, 3, 4, 5, 6, 7, 8, 9, 10, 11, 12, 13, 14, 15]
            [11, 14, 15, 12, 5, 8, 7, 9, 11, 13, 14, 15, 6, 7, 9, 8] x st;
          st = rmd_round rmd_g 0x5a827999
            [7, 4, 13, 1, 10, 6, 15, 3, 12, 0, 9, 5, 2, 14, 11, 8]
            [7, 6, 8, 13, 11, 9, 7, 15, 7, 12, 15, 9, 11, 7, 13, 12] x st;
          st = rmd_round rmd_h 0x6ed9eba1
            [3, 10, 14, 4, 9, 15, 8, 1, 2, 7, 0, 6, 13, 11, 5, 12]
            [11, 13, 6, 7, 14, 9, 13, 15, 14, 8, 13, 6, 5, 12, 7, 5] x st;
          st = rmd_round rmd_i 0x8f1bbcdc
            [1, 9, 11, 10, 0, 8, 12, 4, 13, 3, 7, 15, 14, 5, 6, 2]
            [11, 12, 14, 15, 14, 15, 9, 8, 9, 14, 5, 6, 8, 6, 5, 12] x st
      in rmd_round rmd_j 0xa953fd4e
            [4, 0, 5, 9, 7, 12, 2, 10, 14, 1, 3, 8, 11, 6, 15, 13]
            [9, 15, 5, 11, 6, 8, 13, 12, 5, 12, 13, 14, 11, 8, 5, 6] x st)"

definition rmd_right :: "u32 list \<Rightarrow> sha1_state \<Rightarrow> sha1_state" where
  "rmd_right x st =
     (let st = rmd_round rmd_j 0x50a28be6
            [5, 14, 7, 0, 9, 2, 11, 4, 13, 6, 15, 8, 1, 10, 3, 12]
            [8, 9, 9, 11, 13, 15, 15, 5, 7, 7, 8, 11, 14, 14, 12, 6] x st;
          st = rmd_round rmd_i 0x5c4dd124
            [6, 11, 3, 7, 0, 13, 5, 10, 14, 15, 8, 12, 4, 9, 1, 2]
            [9, 13, 15, 7, 12, 8, 9, 11, 7, 7, 12, 7, 6, 15, 13, 11] x st;
          st = rmd_round rmd_h 0x6d703ef3
            [15, 5, 1, 3, 7, 14, 6, 9, 11, 8, 12, 2, 10, 0, 4, 13]
            [9, 7, 15, 11, 8, 6, 6, 14, 12, 13, 5, 14, 13, 13, 7, 5] x st;
          st = rmd_round rmd_g 0x7a6d76e9
            [8, 6, 4, 1, 3, 11, 15, 0, 5, 12, 2, 13, 9, 7, 10, 14]
            [15, 5, 8, 11, 14, 14, 6, 14, 6, 9, 12, 9, 12, 5, 15, 8] x st
      in rmd_round rmd_f 0x00000000
            [12, 15, 10, 4, 1, 5, 8, 7, 6, 2, 13, 14, 0, 3, 9, 11]
            [8, 5, 12, 9, 12, 5, 14, 6, 8, 13, 6, 5, 15, 13, 11, 11] x st)"

definition BRRMDCompress :: "sha1_state \<Rightarrow> bytes \<Rightarrow> sha1_state" where
  "BRRMDCompress r block =
     (case r of (r0, r1, r2, r3, r4) \<Rightarrow>
      case rmd_left (u32s 16 block) r of (al, bl, cl, dl, el) \<Rightarrow>
      case rmd_right (u32s 16 block) r of (ar, br, cr, dr, er) \<Rightarrow>
        (r1 + cl + dr, r2 + dl + er, r3 + el + ar, r4 + al + br, r0 + bl + cr))"

definition BRRMD160 :: "bytes \<Rightarrow> bytes" where
  "BRRMD160 data =
     (case md_digest 64 8 bits_le32 BRRMDCompress
        (0x67452301, 0xefcdab89, 0x98badcfe, 0x10325476, 0xc3d2e1f0) data of (a, b, c, d, e) \<Rightarrow>
      concat (map (\<lambda>w. UInt32SetLE (le32 w)) [a, b, c, d, e]))"

definition BRHash160 :: "bytes \<Rightarrow> bytes" where
  "BRHash160 data = BRRMD160 (BRSHA256 data)"

section \<open>SHA3-256 and Keccak-256\<close>

definition sha3_k :: "u64 list" where
  "sha3_k = [
    0x0000000000000001, 0x0000000000008082, 0x800000000000808a, 0x8000000080008000,
    0x000000000000808b, 0x0000000080000001, 0x8000000080008081, 0x8000000000008009,
    0x000000000000008a, 0x0000000000000088, 0x0000000080008009, 0x000000008000000a,
    0x000000008000808b, 0x800000000000008b, 0x8000000000008089, 0x8000000000008003,
    0x8000000000008002, 0x8000000000000080, 0x000000000000800a, 0x800000008000000a,
    0x8000000080008081, 0x8000000000008080, 0x0000000080000001, 0x8000000080008008]"

definition sha3_theta :: "u64 list \<Rightarrow> u64 list" where
  "sha3_theta r =
     (let a = map (\<lambda>j. r ! j XOR r ! (j + 5) XOR r ! (j + 10) XOR r ! (j + 15) XOR r ! (j + 20)) [0..<5];
          b = map (\<lambda>j. rol64 (a ! ((j + 1) mod 5)) 1 XOR a ! ((j + 4) mod 5)) [0..<5]
      in map (\<lambda>i. r ! i XOR b ! (i mod 5)) [0..<25])"

definition sha3_rho :: "u64 list \<Rightarrow> u64 list" where
  "sha3_rho r = map2 (\<lambda>w n. if n = 0 then w else rol64 w n) r
     [0, 1, 62, 28, 27, 36, 44, 6, 55, 20, 3, 10, 43, 25, 39, 41, 45, 15, 21, 8, 18, 2, 61, 56, 14]"

definition sha3_pi :: "u64 list \<Rightarrow> u64 list" where
  "sha3_pi r =
     (let r1 = r ! 1;
          r' = foldl (\<lambda>r (d, s). r[d := r ! s]) r
            [(1, 6), (6, 9), (9, 22), (22, 14), (14, 20), (20, 2), (2, 12), (12, 13), (13, 19), (19, 23),
             (23, 15), (15, 4), (4, 24), (24, 21), (21, 8), (8, 16), (16, 5), (5, 3), (3, 18), (18, 17),
             (17, 11), (11, 7), (7, 10)]
      in r'[10 := r1])"

definition sha3_chi :: "u64 list \<Rightarrow> u64 list" where
  "sha3_chi r = foldl (\<lambda>r j.
     let r0 = r ! j; r1 = r ! (1 + j);
         r = r[j := r ! j XOR (NOT r1 AND r ! (2 + j))];
         r = r[1 + j := r ! (1 + j) XOR (NOT (r ! (2 + j)) AND r ! (3 + j))];
         r = r[2 + j := r ! (2 + j) XOR (NOT (r ! (3 + j)) AND r ! (4 + j))];
         r = r[3 + j := r ! (3 + j) XOR (NOT (r ! (4 + j)) AND r0)]
     in r[4 + j := r ! (4 + j) XOR (NOT r0 AND r1)]) r [0, 5, 10, 15, 20]"

definition BRSHA3Compress :: "u64 list \<Rightarrow> bytes \<Rightarrow> u64 list" where
  "BRSHA3Compress r block =
     (let x = u64s (length block div 8) block;
          r = map (\<lambda>i. if i < length x then r ! i XOR le64 (x ! i) else r ! i) [0..<25]
      in foldl (\<lambda>r k. let r = sha3_chi (sha3_pi (sha3_rho (sha3_theta r))) in r[0 := r ! 0 XOR k]) r sha3_k)"

definition sha3_digest :: "u8 \<Rightarrow> bytes \<Rightarrow> bytes" where
  "sha3_digest pad data =
     (let (buf, rest) = md_loop 136 BRSHA3Compress (replicate 25 0) data;
          x = rest @ replicate (136 - length rest) 0;
          x = x[length rest := x ! length rest OR pad];
          x = x[135 := x ! 135 OR 0x80];
          buf = BRSHA3Compress buf x
      in concat (map (\<lambda>w. UInt64SetLE (le64 w)) (take 4 buf)))"

definition BRSHA3_256 :: "bytes \<Rightarrow> bytes" where
  "BRSHA3_256 data = sha3_digest 0x06 data"

definition BRKeccak256 :: "bytes \<Rightarrow> bytes" where
  "BRKeccak256 data = sha3_digest 0x01 data"

section \<open>MD5\<close>

definition md5_F :: "u32 \<Rightarrow> u32 \<Rightarrow> u32 \<Rightarrow> u32" where
  "md5_F x y z = z XOR (x AND (y XOR z))"

definition md5_G :: "u32 \<Rightarrow> u32 \<Rightarrow> u32 \<Rightarrow> u32" where
  "md5_G x y z = y XOR (z AND (x XOR y))"

definition md5_H :: "u32 \<Rightarrow> u32 \<Rightarrow> u32 \<Rightarrow> u32" where
  "md5_H x y z = x XOR y XOR z"

definition md5_I :: "u32 \<Rightarrow> u32 \<Rightarrow> u32 \<Rightarrow> u32" where
  "md5_I x y z = y XOR (x OR NOT z)"

definition md5_k :: "u32 list" where
  "md5_k = [
    0xd76aa478, 0xe8c7b756, 0x242070db, 0xc1bdceee, 0xf57c0faf, 0x4787c62a, 0xa8304613, 0xfd469501,
    0x698098d8, 0x8b44f7af, 0xffff5bb1, 0x895cd7be, 0x6b901122, 0xfd987193, 0xa679438e, 0x49b40821,
    0xf61e2562, 0xc040b340, 0x265e5a51, 0xe9b6c7aa, 0xd62f105d, 0x02441453, 0xd8a1e681, 0xe7d3fbc8,
    0x21e1cde6, 0xc33707d6, 0xf4d50d87, 0x455a14ed, 0xa9e3e905, 0xfcefa3f8, 0x676f02d9, 0x8d2a4c8a,
    0xfffa3942, 0x8771f681, 0x6d9d6122, 0xfde5380c, 0xa4beea44, 0x4bdecfa9, 0xf6bb4b60, 0xbebfbc70,
    0x289b7ec6, 0xeaa127fa, 0xd4ef3085, 0x04881d05, 0xd9d4d039, 0xe6db99e5, 0x1fa27cf8, 0xc4ac5665,
    0xf4292244, 0x432aff97, 0xab9423a7, 0xfc93a039, 0x655b59c3, 0x8f0ccc92, 0xffeff47d, 0x85845dd1,
    0x6fa87e4f, 0xfe2ce6e0, 0xa3014314, 0x4e0811a1, 0xf7537e82, 0xbd3af235, 0x2ad7d2bb, 0xeb86d391]"

definition md5_s :: "nat list" where
  "md5_s = [7, 12, 17, 22, 5, 9, 14, 20, 4, 11, 16, 23, 6, 10, 15, 21]"

type_synonym md5_state = "u32 \<times> u32 \<times> u32 \<times> u32"

definition md5_step ::
    "(u32 \<Rightarrow> u32 \<Rightarrow> u32 \<Rightarrow> u32) \<Rightarrow> (nat \<Rightarrow> nat) \<Rightarrow> nat \<Rightarrow> u32 list \<Rightarrow> md5_state \<Rightarrow> nat \<Rightarrow> md5_state" where
  "md5_step f idx so x st i =
     (case st of (a, b, c, d) \<Rightarrow>
        let a = a + f b c d + le32 (x ! idx i) + md5_k ! i;
            a = rol32 a (md5_s ! (so + i mod 4));
            a = a + b
        in (d, a, b, c))"

definition BRMD5Compress :: "md5_state \<Rightarrow> bytes \<Rightarrow> md5_state" where
  "BRMD5Compress r block =
     (let x = u32s 16 block;
          st = foldl (md5_step md5_F (\<lambda>i. i) 0 x) r [0..<16];
          st = foldl (md5_step md5_G (\<lambda>i. (5 * i + 1) mod 16) 4 x) st [16..<32];
          st = foldl (md5_step md5_H (\<lambda>i. (3 * i + 5) mod 16) 8 x) st [32..<48];
          st = foldl (md5_step md5_I (\<lambda>i. 7 * i mod 16) 12 x) st [48..<64]
      in case r of (r0, r1, r2, r3) \<Rightarrow> case st of (a, b, c, d) \<Rightarrow> (r0 + a, r1 + b, r2 + c, r3 + d))"

definition BRMD5 :: "bytes \<Rightarrow> bytes" where
  "BRMD5 data =
     (case md_digest 64 8 bits_le32 BRMD5Compress (0x67452301, 0xefcdab89, 0x98badcfe, 0x10325476) data of
        (a, b, c, d) \<Rightarrow> concat (map (\<lambda>w. UInt32SetLE (le32 w)) [a, b, c, d]))"

section \<open>MurmurHash3\<close>

definition murmur_C1 :: u32 where
  "murmur_C1 = 0xcc9e2d51"

definition murmur_C2 :: u32 where
  "murmur_C2 = 0x1b873593"

definition fmix32 :: "u32 \<Rightarrow> u32" where
  "fmix32 h =
     (let h = h XOR drop_bit 16 h; h = h * 0x85ebca6b; h = h XOR drop_bit 13 h; h = h * 0xc2b2ae35
      in h XOR drop_bit 16 h)"

definition murmur_block :: "u32 \<Rightarrow> u32 \<Rightarrow> u32" where
  "murmur_block h w =
     (let k = le32 w * murmur_C1; k = rol32 k 15 * murmur_C2 in rol32 (h XOR k) 13 * 5 + 0xe6546b64)"

definition murmur_tail :: "u32 \<Rightarrow> bytes \<Rightarrow> u32" where
  "murmur_tail h t =
     (if t = [] then h
      else let k = (if length t = 3 then push_bit 16 (ucast (t ! 2)) else 0);
               k = (if 2 \<le> length t then k XOR push_bit 8 (ucast (t ! 1)) else k);
               k = (k XOR ucast (t ! 0)) * murmur_C1
           in h XOR (rol32 k 15 * murmur_C2))"

definition BRMurmur3_32 :: "bytes \<Rightarrow> u32 \<Rightarrow> u32" where
  "BRMurmur3_32 data seed =
     (let count = length data div 4;
          h = foldl murmur_block seed (u32s count data);
          h = murmur_tail h (drop (4 * count) data)
      in fmix32 (h XOR of_nat (length data)))"

section \<open>HMAC\<close>

text \<open>
  The pads are arrays of 64 bit words, but the constants have equal bytes, so the word-wise exclusive
  or is a byte-wise one.
\<close>

definition BRHMAC :: "(bytes \<Rightarrow> bytes) \<Rightarrow> nat \<Rightarrow> bytes \<Rightarrow> bytes \<Rightarrow> bytes" where
  "BRHMAC hash hashLen key data =
     (let blockLen = (if 32 < hashLen then 128 else 64);
          key = (if blockLen < length key then hash key else key);
          pad = key @ replicate (blockLen - length key) 0;
          kipad = map (\<lambda>b. b XOR 0x36) pad;
          kopad = map (\<lambda>b. b XOR 0x5c) pad
      in hash (kopad @ hash (kipad @ data)))"

section \<open>Padding and iteration\<close>

text \<open>
  What \<open>md_digest\<close> promises: the message is followed by a byte 0x80, the least number of zero bytes and
  its length, so that the result is a whole number of blocks, and the compression function is iterated
  over the blocks.
\<close>

function chunks :: "nat \<Rightarrow> 'a list \<Rightarrow> 'a list list" where
  "chunks n xs = (if n = 0 \<or> xs = [] then [] else take n xs # chunks n (drop n xs))"
  by pat_completeness auto
termination
  by (relation "measure (\<lambda>(n, xs). length xs)") auto

declare chunks.simps [simp del]

lemma chunks_append: "0 < n \<Longrightarrow> length xs = n \<Longrightarrow> chunks n (xs @ ys) = xs # chunks n ys"
  using chunks.simps[of n "xs @ ys"] by auto

lemma chunks_Nil [simp]: "chunks n [] = []"
  by (simp add: chunks.simps)

definition md_pad :: "nat \<Rightarrow> nat \<Rightarrow> (size_t \<Rightarrow> bytes) \<Rightarrow> bytes \<Rightarrow> bytes" where
  "md_pad n lenBytes lenEnc data =
     data @ 0x80 # replicate ((n - (length data + 1 + lenBytes) mod n) mod n) 0 @
       lenEnc (of_nat (length data))"

lemma md_loop_spec:
  assumes "0 < n" "md_loop n c st data = (st', rest)"
  shows "length rest = length data mod n \<and>
         foldl c st (chunks n (data @ suf)) = foldl c st' (chunks n (rest @ suf))"
  using assms
proof (induction n c st data rule: md_loop.induct)
  case (1 n c st data)
  show ?case
  proof (cases "n \<le> length data")
    case True
    have "chunks n (data @ suf) = take n data # chunks n (drop n data @ suf)"
      using chunks_append[of n "take n data" "drop n data @ suf"] True 1(2)
      by (metis append_assoc append_take_drop_id length_take min.absorb2)
    then show ?thesis
      using 1 True md_loop.simps[of n c st data] by (simp add: le_mod_geq)
  next
    case False
    then show ?thesis using 1(3) md_loop.simps[of n c st data] by simp
  qed
qed

locale md_hash =
  fixes n lenBytes :: nat and lenEnc :: "size_t \<Rightarrow> bytes"
  assumes lenBytes: "lenBytes < n" and length_lenEnc: "length (lenEnc l) = lenBytes"
begin

lemma length_md_pad: "n dvd length (md_pad n lenBytes lenEnc data)"
proof -
  let ?m = "length data + 1 + lenBytes"
  have "length (md_pad n lenBytes lenEnc data) = ?m + (n - ?m mod n) mod n"
    by (simp add: md_pad_def length_lenEnc)
  moreover have "(?m + (n - ?m mod n) mod n) mod n = (?m mod n + (n - ?m mod n)) mod n"
    by (metis mod_add_left_eq mod_add_right_eq)
  moreover have "?m mod n + (n - ?m mod n) = n"
    using lenBytes mod_less_divisor[of n ?m] by (intro le_add_diff_inverse) simp
  ultimately show ?thesis by (simp only: mod_self mod_0_imp_dvd)
qed

lemma md_digest_eq:
  "md_digest n lenBytes lenEnc c st data = foldl c st (chunks n (md_pad n lenBytes lenEnc data))"
proof -
  obtain st' rest where loop: "md_loop n c st data = (st', rest)" by fastforce
  let ?L = "lenEnc (of_nat (length data))" and ?m = "length data + 1 + lenBytes"
  let ?z = "(n - ?m mod n) mod n" and ?r = "length rest"
  have n: "0 < n" using lenBytes by simp
  have r: "?r = length data mod n" "?r < n"
    using md_loop_spec[OF n loop] n by simp_all
  have mr: "?m mod n = (?r + 1 + lenBytes) mod n"
    using mod_add_left_eq[of "length data" n "1 + lenBytes"] r(1) by (simp add: ac_simps)
  have all: "foldl c st (chunks n (md_pad n lenBytes lenEnc data)) =
      foldl c st' (chunks n (rest @ 0x80 # replicate ?z 0 @ ?L))"
    using md_loop_spec[OF n loop] by (simp add: md_pad_def)
  show ?thesis
  proof (cases "n - lenBytes \<le> ?r")
    case False
    then have "?z = n - (?r + 1 + lenBytes)"
      using mr r(2) by (cases "?r + 1 + lenBytes = n") auto
    moreover from this have "take (n - lenBytes) (rest @ 0x80 # replicate (n - (?r + 1)) 0) @ ?L =
        rest @ 0x80 # replicate ?z 0 @ ?L"
      using False by (simp add: take_Cons' min_def) (simp add: add.commute)
    moreover have "length (rest @ 0x80 # replicate ?z 0 @ ?L) = n"
      using False calculation(1) by (simp add: length_lenEnc)
    ultimately show ?thesis
      using all loop False chunks_append[OF n, of "rest @ 0x80 # replicate ?z 0 @ ?L" "[]"]
      by (simp add: md_digest_def)
  next
    case True
    have z: "?z = (n - (?r + 1)) + (n - lenBytes)"
    proof -
      have "(?r + 1 + lenBytes) mod n = ?r + 1 + lenBytes - n"
        using True r(2) lenBytes by (simp add: le_mod_geq)
      then show ?thesis using mr True r(2) lenBytes by simp
    qed
    have "rest @ 0x80 # replicate ?z 0 @ ?L =
        (rest @ 0x80 # replicate (n - (?r + 1)) 0) @ (replicate (n - lenBytes) 0 @ ?L)"
      unfolding z replicate_add by simp
    moreover have "length (rest @ 0x80 # replicate (n - (?r + 1)) (0::u8)) = n"
      using r(2) by simp
    ultimately have "chunks n (rest @ 0x80 # replicate ?z 0 @ ?L) =
        [rest @ 0x80 # replicate (n - (?r + 1)) 0, replicate (n - lenBytes) 0 @ ?L]"
      using chunks_append[OF n, of "rest @ 0x80 # replicate (n - (?r + 1)) 0"
          "replicate (n - lenBytes) 0 @ ?L"]
        chunks_append[OF n, of "replicate (n - lenBytes) 0 @ ?L" "[]"] lenBytes
      by (simp add: length_lenEnc)
    then show ?thesis using all loop True by (simp add: md_digest_def)
  qed
qed

end

interpretation md_be32: md_hash 64 8 bits_be32
  by unfold_locales (simp_all add: bits_be32_def)

interpretation md_le32: md_hash 64 8 bits_le32
  by unfold_locales (simp_all add: bits_le32_def)

interpretation md_be64: md_hash 128 16 bits_be64
  by unfold_locales (simp_all add: bits_be64_def)

lemma length_BRSHA256 [simp]: "length (BRSHA256 data) = 32"
  by (simp add: BRSHA256_def sha_list_def length_concat comp_def split: prod.splits)

lemma length_BRSHA256_2 [simp]: "length (BRSHA256_2 data) = 32"
  by (simp add: BRSHA256_2_def)

lemma length_BRRMD160 [simp]: "length (BRRMD160 data) = 20"
  by (simp add: BRRMD160_def split: prod.splits)

lemma length_BRHash160 [simp]: "length (BRHash160 data) = 20"
  by (simp add: BRHash160_def)

section \<open>Properties\<close>

text \<open>
  C4: \<open>BRSHA256\<close> is the iteration of its compression function over the blocks of the padded message, as
  the standard defines it: the block loop, the handling of the last block and the case in which the
  length goes to a block of its own agree with the padding rule for every length.
\<close>

theorem BRSHA256_standard:
  "BRSHA256 data = concat (map (\<lambda>w. UInt32SetLE (be32 w)) (sha_list
     (foldl BRSHA256Compress sha256_init (chunks 64 (md_pad 64 8 bits_be32 data)))))"
  by (simp add: BRSHA256_def md_be32.md_digest_eq)

end
