(* ===== verification/BRBase58.thy ===== *)
theory BRBase58
  imports BRCrypto "HOL-Library.Char_ord"
begin

text \<open>
  \<open>BRBase58.c\<close>: base58 and base58check. A C string is the list of its characters before the
  terminator. An output buffer is its length, or \<open>None\<close> for a null pointer; a function returns the C
  return value and what it has written, if it has written anything. The digit arrays are kept with the
  least significant digit first, the order in which the inner loops go over them.
\<close>

section \<open>Encoding\<close>

definition b58_chars :: string where
  "b58_chars = ''123456789ABCDEFGHJKLMNPQRSTUVWXYZabcdefghijkmnopqrstuvwxyz''"

fun b58_enc_byte :: "u32 \<Rightarrow> u8 list \<Rightarrow> u8 list" where
  "b58_enc_byte carry [] = []"
| "b58_enc_byte carry (d # ds) =
     (let carry = carry + push_bit 8 (ucast d)
      in ucast (carry mod 58) # b58_enc_byte (carry div 58) ds)"

definition b58_enc_buf :: "bytes \<Rightarrow> u8 list" where
  "b58_enc_buf data =
     foldl (\<lambda>buf b. b58_enc_byte (ucast b) buf) (replicate (length data * 138 div 100 + 1) 0) data"

definition BRBase58Encode :: "nat option \<Rightarrow> bytes \<Rightarrow> nat \<times> string option" where
  "BRBase58Encode strLen data =
     (let zcount = length (takeWhile (\<lambda>b. b = 0) data);
          buf = rev (b58_enc_buf (drop zcount data));
          digits = dropWhile (\<lambda>d. d = 0) buf;
          len = zcount + length digits + 1
      in case strLen of
           None \<Rightarrow> (len, None)
         | Some n \<Rightarrow> if len \<le> n
             then (len, Some (replicate zcount (b58_chars ! 0) @ map (\<lambda>d. b58_chars ! unat d) digits))
             else (0, None))"

section \<open>Decoding\<close>

definition b58_value :: "char \<Rightarrow> u32" where
  "b58_value c =
     (let carry = of_char c :: u32 in
      if c \<in> set ''123456789'' then carry - of_char CHR ''1''
      else if c \<in> set ''ABCDEFGH'' then carry + (9 - of_char CHR ''A'')
      else if c \<in> set ''JKLMN'' then carry + (17 - of_char CHR ''J'')
      else if c \<in> set ''PQRSTUVWXYZ'' then carry + (22 - of_char CHR ''P'')
      else if c \<in> set ''abcdefghijk'' then carry + (33 - of_char CHR ''a'')
      else if c \<in> set ''mnopqrstuvwxyz'' then carry + (44 - of_char CHR ''m'')
      else 0xFFFFFFFF)"

fun b58_dec_digit :: "u32 \<Rightarrow> u8 list \<Rightarrow> u8 list" where
  "b58_dec_digit carry [] = []"
| "b58_dec_digit carry (d # ds) =
     (let carry = carry + ucast d * 58
      in ucast (carry AND 0xff) # b58_dec_digit (drop_bit 8 carry) ds)"

fun b58_dec_loop :: "string \<Rightarrow> u8 list \<Rightarrow> u8 list" where
  "b58_dec_loop [] buf = buf"
| "b58_dec_loop (c # cs) buf =
     (if 58 \<le> b58_value c then buf else b58_dec_loop cs (b58_dec_digit (b58_value c) buf))"

definition BRBase58Decode :: "nat option \<Rightarrow> string \<Rightarrow> nat \<times> bytes option" where
  "BRBase58Decode dataLen str =
     (let zcount = length (takeWhile (\<lambda>c. c = CHR ''1'') str);
          str = drop zcount str;
          buf = rev (b58_dec_loop str (replicate (length str * 733 div 1000 + 1) 0));
          rest = dropWhile (\<lambda>d. d = 0) buf;
          len = zcount + length rest
      in case dataLen of
           None \<Rightarrow> (len, None)
         | Some n \<Rightarrow> if len \<le> n then (len, Some (replicate zcount 0 @ rest)) else (0, None))"

section \<open>Base58check\<close>

definition BRBase58CheckEncode :: "nat option \<Rightarrow> bytes \<Rightarrow> nat \<times> string option" where
  "BRBase58CheckEncode strLen data =
     (let buf = data @ BRSHA256_2 data in BRBase58Encode strLen (take (length data + 4) buf))"

text \<open>
  The decoder works in a buffer of the length of the string. When \<open>BRBase58Decode\<close> does not write it, it
  returns 0 and nothing of the buffer is read; the empty list stands for it.
\<close>

definition BRBase58CheckDecode :: "nat option \<Rightarrow> string \<Rightarrow> nat \<times> bytes option" where
  "BRBase58CheckDecode dataLen str =
     (let (len, buf) = BRBase58Decode (Some (length str)) str;
          buf = (case buf of None \<Rightarrow> [] | Some b \<Rightarrow> b);
          len = (if 4 \<le> len
                 then (let len = len - 4; md = BRSHA256_2 (take len buf)
                       in if take 4 (drop len buf) \<noteq> take 4 md then 0 else len)
                 else 0)
      in case dataLen of
           None \<Rightarrow> (len, None)
         | Some n \<Rightarrow> if len \<le> n then (len, Some (take len buf)) else (0, None))"

section \<open>Digits\<close>

text \<open>The number a list of digits stands for, least significant digit first.\<close>

fun num_of :: "nat \<Rightarrow> u8 list \<Rightarrow> nat" where
  "num_of b [] = 0"
| "num_of b (d # ds) = unat d + b * num_of b ds"

lemma num_of_append: "num_of b (xs @ ys) = num_of b xs + b ^ length xs * num_of b ys"
  by (induction xs) (auto simp: algebra_simps)

lemma num_of_replicate [simp]: "num_of b (replicate n 0) = 0"
  by (induction n) auto

lemma num_of_less: "\<forall>d\<in>set ds. unat d < b \<Longrightarrow> num_of b ds < b ^ length ds"
proof (induction ds)
  case Nil
  then show ?case by simp
next
  case (Cons d ds)
  then have "num_of b ds + 1 \<le> b ^ length ds" by simp
  then have "b * (num_of b ds + 1) \<le> b * b ^ length ds" by (rule mult_le_mono2)
  with Cons.prems show ?case by (simp add: algebra_simps)
qed

lemma num_of_inject:
  "length xs = length ys \<Longrightarrow> \<forall>d\<in>set xs \<union> set ys. unat d < b \<Longrightarrow> num_of b xs = num_of b ys \<Longrightarrow> xs = ys"
proof (induction xs ys rule: list_induct2)
  case Nil
  then show ?case by simp
next
  case (Cons x xs y ys)
  have b: "0 < b" "unat x < b" "unat y < b" using Cons.prems(1) by auto
  have "unat x = num_of b (x # xs) mod b" "unat y = num_of b (y # ys) mod b" using b by auto
  then have "unat x = unat y" using Cons.prems(2) by metis
  then have "x = y" by (rule unsigned_word_eqI)
  with Cons b show ?case by auto
qed

text \<open>Without leading zeros, the number determines the digits.\<close>

definition canonical :: "nat \<Rightarrow> u8 list \<Rightarrow> bool" where
  "canonical b ds \<longleftrightarrow> (\<forall>d\<in>set ds. unat d < b) \<and> (ds = [] \<or> last ds \<noteq> 0)"

lemma canonical_ge:
  assumes "canonical b ds" "ds \<noteq> []"
  shows "b ^ (length ds - 1) \<le> num_of b ds"
proof -
  obtain xs x where ds: "ds = xs @ [x]" by (metis assms(2) rev_exhaust)
  then have "x \<noteq> 0" using assms by (simp add: canonical_def)
  then have "1 \<le> unat x" by (simp add: Suc_le_eq unat_gt_0)
  then have "b ^ length xs \<le> b ^ length xs * unat x" using mult_le_mono2[of 1 "unat x"] by simp
  moreover have "num_of b ds = num_of b xs + b ^ length xs * unat x" "length ds - 1 = length xs"
    by (simp_all add: ds num_of_append)
  ultimately show ?thesis by (simp only: trans_le_add2)
qed

lemma canonical_inject:
  assumes "canonical b xs" "canonical b ys" "num_of b xs = num_of b ys" "1 < b"
  shows "xs = ys"
proof -
  have le: "length vs \<le> length us" if c: "canonical b us" "canonical b vs" "num_of b us = num_of b vs" for us vs
  proof (cases "vs = []")
    case False
    have "b ^ (length vs - 1) \<le> num_of b vs" using canonical_ge[OF c(2) False] .
    also have "num_of b vs < b ^ length us" using num_of_less[of us b] c by (simp add: canonical_def)
    finally have "length vs - 1 < length us" by (rule power_less_imp_less_exp[OF assms(4)])
    then show ?thesis by simp
  qed simp
  have "length xs = length ys" using le[of xs ys] le[of ys xs] assms by simp
  then show ?thesis using num_of_inject[of xs ys b] assms by (auto simp: canonical_def)
qed

lemma canonical_dropWhile:
  assumes "\<forall>d\<in>set ds. unat d < b"
  shows "canonical b (rev (dropWhile (\<lambda>d. d = 0) (rev ds)))"
    and "num_of b (rev (dropWhile (\<lambda>d. d = 0) (rev ds))) = num_of b ds"
proof -
  let ?r = "dropWhile (\<lambda>d. d = 0) (rev ds)" and ?z = "takeWhile (\<lambda>d. d = 0) (rev ds)"
  have z: "?z = replicate (length ?z) 0"
    by (intro replicate_eqI) (auto dest: set_takeWhileD)
  have ds: "ds = rev ?r @ rev ?z"
    by (metis rev_append rev_rev_ident takeWhile_dropWhile_id)
  show "num_of b (rev ?r) = num_of b ds"
    by (subst (2) ds, subst z) (simp only: num_of_append rev_replicate num_of_replicate)
  have "?r = [] \<or> hd ?r \<noteq> 0" using hd_dropWhile[of "\<lambda>d. d = 0" "rev ds"] by auto
  then show "canonical b (rev ?r)"
    using assms set_dropWhileD[of _ "\<lambda>d. d = 0" "rev ds"] by (auto simp: canonical_def last_rev)
qed

section \<open>The inner loops multiply and add\<close>

lemma unat_push8: "unat (push_bit 8 (ucast (d::u8)) :: u32) = 256 * unat d"
  using unat_u8[of d] by (simp add: unat_simps)

lemma enc_byte_num:
  assumes "unat carry < 256" "\<forall>d\<in>set ds. unat d < 58"
  shows "num_of 58 (b58_enc_byte carry ds) = (unat carry + 256 * num_of 58 ds) mod 58 ^ length ds \<and>
         (\<forall>d\<in>set (b58_enc_byte carry ds). unat d < 58) \<and>
         length (b58_enc_byte carry ds) = length ds"
  using assms
proof (induction carry ds rule: b58_enc_byte.induct)
  case (1 carry)
  then show ?case by simp
next
  case (2 carry d ds)
  let ?c = "carry + push_bit 8 (ucast d)"
  have c: "unat ?c = unat carry + 256 * unat d" "unat carry + 256 * unat d < 256 * 58"
    using 2(2,3) by (auto simp: unat_word_ariths unat_push8)
  have "unat (?c div 58) < 256" using c by (simp add: unat_div)
  from 2(1)[OF refl this] 2(3)
  have IH: "num_of 58 (b58_enc_byte (?c div 58) ds) =
      ((unat carry + 256 * unat d) div 58 + 256 * num_of 58 ds) mod 58 ^ length ds"
    "\<forall>d\<in>set (b58_enc_byte (?c div 58) ds). unat d < 58" "length (b58_enc_byte (?c div 58) ds) = length ds"
    using c by (auto simp: unat_div)
  have r: "unat (ucast (?c mod 58) :: u8) = (unat carry + 256 * unat d) mod 58"
    using c by (simp add: unat_ucast unat_mod)
  let ?a = "unat carry + 256 * (unat d + 58 * num_of 58 ds)"
  have a: "?a = (unat carry + 256 * unat d) + 58 * (256 * num_of 58 ds)"
    by (simp add: algebra_simps)
  have "?a div 58 = (unat carry + 256 * unat d) div 58 + 256 * num_of 58 ds"
    unfolding a by simp
  moreover have "?a mod 58 = (unat carry + 256 * unat d) mod 58"
    unfolding a by (rule mod_mult_self2)
  ultimately have "?a mod (58 * 58 ^ length ds) = (unat carry + 256 * unat d) mod 58 +
      58 * (((unat carry + 256 * unat d) div 58 + 256 * num_of 58 ds) mod 58 ^ length ds)"
    by (simp add: mod_mult2_eq)
  then show ?case using IH r by (simp add: Let_def)
qed

lemma dec_digit_num:
  assumes "unat carry < 58"
  shows "num_of 256 (b58_dec_digit carry ds) = (unat carry + 58 * num_of 256 ds) mod 256 ^ length ds \<and>
         length (b58_dec_digit carry ds) = length ds"
  using assms
proof (induction carry ds rule: b58_dec_digit.induct)
  case (1 carry)
  then show ?case by simp
next
  case (2 carry d ds)
  let ?c = "carry + ucast d * 58"
  have d: "unat d < 256" by (rule unat_u8)
  have c: "unat ?c = unat carry + 58 * unat d" "unat carry + 58 * unat d < 256 * 58"
    using 2(2) d by (auto simp: unat_simps)
  have s: "unat (drop_bit 8 ?c) = (unat carry + 58 * unat d) div 256"
    using c by (simp add: unat_drop_bit)
  then have "unat (drop_bit 8 ?c) < 58" using c by simp
  from 2(1)[OF refl this]
  have IH: "num_of 256 (b58_dec_digit (drop_bit 8 ?c) ds) =
      ((unat carry + 58 * unat d) div 256 + 58 * num_of 256 ds) mod 256 ^ length ds"
    "length (b58_dec_digit (drop_bit 8 ?c) ds) = length ds"
    using s by auto
  have r: "unat (ucast (?c AND 0xff) :: u8) = (unat carry + 58 * unat d) mod 256"
    using c by (simp add: ucast_and_ff unat_ucast)
  let ?a = "unat carry + 58 * (unat d + 256 * num_of 256 ds)"
  have a: "?a = (unat carry + 58 * unat d) + 256 * (58 * num_of 256 ds)"
    by (simp add: algebra_simps)
  have "?a div 256 = (unat carry + 58 * unat d) div 256 + 58 * num_of 256 ds"
    unfolding a by simp
  moreover have "?a mod 256 = (unat carry + 58 * unat d) mod 256"
    unfolding a by (rule mod_mult_self2)
  ultimately have "?a mod (256 * 256 ^ length ds) = (unat carry + 58 * unat d) mod 256 +
      256 * (((unat carry + 58 * unat d) div 256 + 58 * num_of 256 ds) mod 256 ^ length ds)"
    by (simp add: mod_mult2_eq)
  then show ?case using IH r by (simp add: Let_def)
qed

section \<open>The buffers are large enough\<close>

lemma power_root_le: "0 < n \<Longrightarrow> (a::nat) ^ n \<le> b ^ n \<Longrightarrow> a \<le> b"
  by (simp add: power_mono_iff)

lemma power_swap: "((a::nat) ^ n) ^ m = (a ^ m) ^ n"
  by (simp only: power_mult [symmetric] mult.commute)

lemma enc_buf_size: "256 ^ n \<le> (58::nat) ^ (n * 138 div 100 + 1)"
proof (rule power_root_le)
  have "((256::nat) ^ n) ^ 8 = (256 ^ 8) ^ n" by (rule power_swap)
  also have "\<dots> \<le> (58 ^ 11) ^ n" by (rule power_mono) simp_all
  also have "\<dots> = 58 ^ (11 * n)" by (rule power_mult [symmetric])
  also have "\<dots> \<le> 58 ^ ((n * 138 div 100 + 1) * 8)"
    using div_mult_mod_eq[of "n * 138" 100] mod_less_divisor[of 100 "n * 138", simplified]
    by (intro power_increasing) simp_all
  finally show "((256::nat) ^ n) ^ 8 \<le> (58 ^ (n * 138 div 100 + 1)) ^ 8"
    by (simp only: power_mult)
qed simp

lemma dec_buf_size: "58 ^ n \<le> (256::nat) ^ (n * 733 div 1000 + 1)"
proof (rule power_root_le)
  have "((58::nat) ^ n) ^ 146 = (58 ^ 146) ^ n" by (rule power_swap)
  also have "\<dots> \<le> (256 ^ 107) ^ n" by (rule power_mono) simp_all
  also have "\<dots> = 256 ^ (107 * n)" by (rule power_mult [symmetric])
  also have "\<dots> \<le> 256 ^ ((n * 733 div 1000 + 1) * 146)"
    using div_mult_mod_eq[of "n * 733" 1000] mod_less_divisor[of 1000 "n * 733", simplified]
    by (intro power_increasing) simp_all
  finally show "((58::nat) ^ n) ^ 146 \<le> (256 ^ (n * 733 div 1000 + 1)) ^ 146"
    by (simp only: power_mult)
qed simp

text \<open>After the loops the buffers hold the number that the input stands for.\<close>

lemma enc_loop_num:
  assumes "\<forall>d\<in>set buf. unat d < 58"
  shows "num_of 58 (foldl (\<lambda>buf b. b58_enc_byte (ucast b) buf) buf data) =
           (256 ^ length data * num_of 58 buf + num_of 256 (rev data)) mod 58 ^ length buf \<and>
         (\<forall>d\<in>set (foldl (\<lambda>buf b. b58_enc_byte (ucast b) buf) buf data). unat d < 58) \<and>
         length (foldl (\<lambda>buf b. b58_enc_byte (ucast b) buf) buf data) = length buf"
  using assms
proof (induction data arbitrary: buf)
  case Nil
  then show ?case using num_of_less[of buf 58] by simp
next
  case (Cons b data)
  have ub: "unat (ucast b :: u32) = unat b" using unat_u8[of b] by (simp add: unat_simps)
  note step = enc_byte_num[of "ucast b" buf, unfolded ub, OF unat_u8 Cons.prems]
  let ?n = "58 ^ length buf :: nat" and ?m = "256 ^ length data :: nat"
  have "(?m * ((unat b + 256 * num_of 58 buf) mod ?n) + num_of 256 (rev data)) mod ?n =
      (?m * (unat b + 256 * num_of 58 buf) + num_of 256 (rev data)) mod ?n"
    by (metis mod_add_left_eq mod_mult_right_eq)
  also have "?m * (unat b + 256 * num_of 58 buf) + num_of 256 (rev data) =
      256 ^ length (b # data) * num_of 58 buf + num_of 256 (rev (b # data))"
    by (simp add: num_of_append algebra_simps)
  finally show ?case using Cons.IH[of "b58_enc_byte (ucast b) buf"] step by simp
qed

lemma enc_buf_num:
  "num_of 58 (b58_enc_buf data) = num_of 256 (rev data) \<and> (\<forall>d\<in>set (b58_enc_buf data). unat d < 58)"
proof -
  have "num_of 256 (rev data) < 256 ^ length data"
    using num_of_less[of "rev data" 256] unat_u8 by simp
  then have "num_of 256 (rev data) < 58 ^ (length data * 138 div 100 + 1)"
    using enc_buf_size less_le_trans by blast
  then show ?thesis
    using enc_loop_num[of "replicate (length data * 138 div 100 + 1) 0" data]
    by (simp add: b58_enc_buf_def)
qed

lemma b58_value_chars: "d < 58 \<Longrightarrow> b58_value (b58_chars ! d) = of_nat d"
proof -
  have "list_all (\<lambda>d. b58_value (b58_chars ! d) = of_nat d) [0..<58]" by code_simp
  then show "d < 58 \<Longrightarrow> ?thesis" by (simp add: list_all_iff)
qed

lemma dec_loop_num:
  assumes "\<forall>d\<in>set ds. unat d < 58"
  shows "num_of 256 (b58_dec_loop (map (\<lambda>d. b58_chars ! unat d) ds) buf) mod 256 ^ length buf =
           (58 ^ length ds * num_of 256 buf + num_of 58 (rev ds)) mod 256 ^ length buf \<and>
         length (b58_dec_loop (map (\<lambda>d. b58_chars ! unat d) ds) buf) = length buf"
  using assms
proof (induction ds arbitrary: buf)
  case Nil
  then show ?case by simp
next
  case (Cons d ds)
  have d: "unat d < 58" using Cons.prems by simp
  have v: "b58_value (b58_chars ! unat d) = of_nat (unat d)" by (rule b58_value_chars[OF d])
  have uv: "unat (of_nat (unat d) :: u32) = unat d" using d by (simp add: unat_simps)
  have nb: "\<not> 58 \<le> (of_nat (unat d) :: u32)" using d uv by (simp add: word_le_nat_alt)
  note step = dec_digit_num[of "of_nat (unat d)" buf, unfolded uv, OF d]
  let ?n = "256 ^ length buf :: nat" and ?m = "58 ^ length ds :: nat"
  have "(?m * ((unat d + 58 * num_of 256 buf) mod ?n) + num_of 58 (rev ds)) mod ?n =
      (?m * (unat d + 58 * num_of 256 buf) + num_of 58 (rev ds)) mod ?n"
    by (metis mod_add_left_eq mod_mult_right_eq)
  also have "?m * (unat d + 58 * num_of 256 buf) + num_of 58 (rev ds) =
      58 ^ length (d # ds) * num_of 256 buf + num_of 58 (rev (d # ds))"
    by (simp add: num_of_append algebra_simps)
  finally show ?case
    using Cons.IH[of "b58_dec_digit (of_nat (unat d)) buf"] Cons.prems step v nb by simp
qed

section \<open>Round trips\<close>

text \<open>The leading zeros and the rest, as both functions split them.\<close>

lemma takeWhile_replicate:
  "takeWhile (\<lambda>x. x = a) xs = replicate (length (takeWhile (\<lambda>x. x = a) xs)) a"
  by (intro replicate_eqI) (auto dest: set_takeWhileD)

lemma drop_takeWhile_length: "drop (length (takeWhile P xs)) xs = dropWhile P xs"
  by (metis append_eq_conv_conj takeWhile_dropWhile_id)

lemma takeWhile_replicate_append:
  "ys = [] \<or> hd ys \<noteq> a \<Longrightarrow> length (takeWhile (\<lambda>x. x = a) (replicate n a @ ys)) = n"
  by (induction n) (cases ys; simp)+

definition b58_digits :: "bytes \<Rightarrow> u8 list" where
  "b58_digits data = dropWhile (\<lambda>d. d = 0) (rev (b58_enc_buf (dropWhile (\<lambda>b. b = 0) data)))"

definition b58_text :: "bytes \<Rightarrow> string" where
  "b58_text data = replicate (length (takeWhile (\<lambda>b. b = 0) data)) (b58_chars ! 0) @
     map (\<lambda>d. b58_chars ! unat d) (b58_digits data)"

lemma BRBase58Encode_text:
  "length (b58_text data) < n \<Longrightarrow>
   BRBase58Encode (Some n) data = (length (b58_text data) + 1, Some (b58_text data))"
  by (simp add: BRBase58Encode_def b58_text_def b58_digits_def drop_takeWhile_length Let_def)

lemma BRBase58Encode_None: "fst (BRBase58Encode None data) = length (b58_text data) + 1"
  by (simp add: BRBase58Encode_def b58_text_def b58_digits_def drop_takeWhile_length Let_def)

lemma b58_digits_props:
  "canonical 58 (rev (b58_digits data))"
  "num_of 58 (rev (b58_digits data)) = num_of 256 (rev (dropWhile (\<lambda>b. b = 0) data))"
  using canonical_dropWhile[of "b58_enc_buf (dropWhile (\<lambda>b. b = 0) data)" 58]
    enc_buf_num[of "dropWhile (\<lambda>b. b = 0) data"]
  by (simp_all add: b58_digits_def)

lemma b58_chars_inject: "d < 58 \<Longrightarrow> b58_chars ! d = CHR ''1'' \<Longrightarrow> d = 0"
proof -
  assume d: "d < 58" "b58_chars ! d = CHR ''1''"
  have "b58_value CHR ''1'' = 0" by code_simp
  then have "(of_nat d :: u32) = 0" using b58_value_chars[OF d(1)] d(2) by simp
  then have "unat (of_nat d :: u32) = 0" by simp
  then show "d = 0" using d(1) by (simp add: unat_of_nat)
qed

lemma canonical_rest: "canonical 256 (rev (dropWhile (\<lambda>b. b = 0) data))"
  using hd_dropWhile[of "\<lambda>b. b = 0" data] unat_u8
  by (cases "dropWhile (\<lambda>b. b = 0) data = []") (auto simp: canonical_def last_rev)

lemma BRBase58Decode_text:
  "BRBase58Decode None (b58_text data) = (length data, None)"
  "length data \<le> n \<Longrightarrow> BRBase58Decode (Some n) (b58_text data) = (length data, Some data)"
proof -
  let ?z = "length (takeWhile (\<lambda>b. b = 0) data)" and ?rest = "dropWhile (\<lambda>b. b = 0) data"
  let ?ds = "b58_digits data"
  let ?cs = "map (\<lambda>d. b58_chars ! unat d) ?ds"
  have dig: "\<forall>d\<in>set ?ds. unat d < 58" using b58_digits_props(1)[of data] by (simp add: canonical_def)
  have one: "b58_chars ! 0 = CHR ''1''" by (simp add: b58_chars_def)
  have hd: "?cs = [] \<or> hd ?cs \<noteq> CHR ''1''"
  proof (cases ?ds)
    case (Cons d ds)
    then have "d \<noteq> 0" using b58_digits_props(1)[of data] by (simp add: canonical_def)
    then have "unat d \<noteq> 0" by (simp add: unat_eq_0)
    then show ?thesis using Cons dig b58_chars_inject[of "unat d"] by auto
  qed simp
  have zc: "length (takeWhile (\<lambda>c. c = CHR ''1'') (b58_text data)) = ?z"
    unfolding b58_text_def one by (rule takeWhile_replicate_append[OF hd])
  have dr: "drop ?z (b58_text data) = ?cs" by (simp add: b58_text_def)
  have dl: "length (b58_text data) - ?z = length ?ds" by (simp add: b58_text_def)
  let ?size = "length ?cs * 733 div 1000 + 1"
  let ?buf = "b58_dec_loop ?cs (replicate ?size 0)"
  have "num_of 58 (rev ?ds) < 58 ^ length ?ds"
    using num_of_less[of "rev ?ds" 58] dig by simp
  then have "num_of 58 (rev ?ds) < 256 ^ ?size" using dec_buf_size[of "length ?ds"] by simp
  moreover have "num_of 256 ?buf < 256 ^ ?size"
    using num_of_less[of ?buf 256] unat_u8 dec_loop_num[OF dig, of "replicate ?size 0"] by simp
  ultimately have num: "num_of 256 ?buf = num_of 256 (rev ?rest)"
    using dec_loop_num[OF dig, of "replicate ?size 0"] b58_digits_props(2)[of data] by simp
  have "canonical 256 (rev ?rest)" by (rule canonical_rest)
  moreover have "canonical 256 (rev (dropWhile (\<lambda>d. d = 0) (rev ?buf)))"
    "num_of 256 (rev (dropWhile (\<lambda>d. d = 0) (rev ?buf))) = num_of 256 ?buf"
    using canonical_dropWhile[of ?buf 256] unat_u8 by auto
  ultimately have "dropWhile (\<lambda>d. d = 0) (rev ?buf) = ?rest"
    using canonical_inject[of 256 "rev (dropWhile (\<lambda>d. d = 0) (rev ?buf))" "rev ?rest"] num by simp
  moreover have "replicate ?z 0 @ ?rest = data"
    using takeWhile_replicate[of 0 data] takeWhile_dropWhile_id[of "\<lambda>b. b = 0" data] by simp
  moreover have "?z + length ?rest = length data"
    by (metis length_append takeWhile_dropWhile_id)
  ultimately show "BRBase58Decode None (b58_text data) = (length data, None)"
    "length data \<le> n \<Longrightarrow> BRBase58Decode (Some n) (b58_text data) = (length data, Some data)"
    by (simp_all add: BRBase58Decode_def zc dr dl Let_def)
qed

lemma b58_text_length: "length data \<le> length (b58_text data)"
proof -
  let ?rest = "dropWhile (\<lambda>b. b = 0) data" and ?ds = "b58_digits data"
  have "length ?rest \<le> length ?ds"
  proof (rule ccontr)
    assume less: "\<not> ?thesis"
    then have "256 ^ (length ?rest - 1) \<le> num_of 256 (rev ?rest)"
      using canonical_ge[OF canonical_rest, of data] by fastforce
    also have "\<dots> < 58 ^ length ?ds"
      using num_of_less[of "rev ?ds" 58] b58_digits_props[of data] by (simp add: canonical_def)
    also have "\<dots> \<le> 58 ^ (length ?rest - 1)" using less by (intro power_increasing) auto
    also have "\<dots> \<le> 256 ^ (length ?rest - 1)" by (rule power_mono) simp_all
    finally show False by simp
  qed
  moreover have "length data = length (takeWhile (\<lambda>b. b = 0) data) + length ?rest"
    by (metis length_append takeWhile_dropWhile_id)
  ultimately show ?thesis by (simp add: b58_text_def)
qed

lemma BRBase58CheckDecode_text:
  assumes "length data \<le> n"
  shows "BRBase58CheckDecode (Some n) (b58_text (data @ take 4 (BRSHA256_2 data))) = (length data, Some data)"
  using assms b58_text_length[of "data @ take 4 (BRSHA256_2 data)"]
  by (simp add: BRBase58CheckDecode_def BRBase58Decode_text(2) Let_def)

section \<open>Properties\<close>

text \<open>
  C5: base58 round trip: with a buffer of the size the encoder asks for, it writes a string that the
  decoder turns back into the data, leading zeros included. Both digit buffers are large enough and no
  carry is lost.
\<close>

theorem BRBase58_roundtrip:
  assumes "fst (BRBase58Encode None data) \<le> n" "length data \<le> m"
  shows "\<exists>str. BRBase58Encode (Some n) data = (length str + 1, Some str) \<and>
           BRBase58Decode (Some m) str = (length data, Some data)"
  using assms BRBase58Encode_None BRBase58Encode_text[of data n] BRBase58Decode_text(2)[of data m]
  by (intro exI[of _ "b58_text data"]) simp

theorem BRBase58_roundtrip_witness:
  "\<exists>str. BRBase58Encode (Some 10) [0, 1, 255] = (length str + 1, Some str) \<and>
     BRBase58Decode (Some 3) str = (3, Some [0, 1, 255])"
proof -
  have "fst (BRBase58Encode None [0, 1, 255]) \<le> 10" by code_simp
  from BRBase58_roundtrip[OF this, of 3] show ?thesis by (simp add: numeral_3_eq_3)
qed

text \<open>
  C6: base58check: what the encoder writes for the data is decoded to the data, and whenever the decoder
  returns a positive length the string is a base58 text of the data followed by the first four bytes of
  its double SHA-256.
\<close>

theorem BRBase58Check_correct:
  assumes "fst (BRBase58CheckEncode None data) \<le> n" "length data \<le> m"
  shows "(\<exists>str. BRBase58CheckEncode (Some n) data = (length str + 1, Some str) \<and>
            BRBase58CheckDecode (Some m) str = (length data, Some data)) \<and>
         (\<forall>k str len out. BRBase58CheckDecode (Some k) str = (len, Some out) \<longrightarrow> 0 < len \<longrightarrow>
            len = length out \<and> BRBase58Decode (Some (length str)) str =
              (len + 4, Some (out @ take 4 (BRSHA256_2 out))))"
proof (intro conjI allI impI)
  have enc: "BRBase58CheckEncode k data = BRBase58Encode k (data @ take 4 (BRSHA256_2 data))" for k
    by (simp add: BRBase58CheckEncode_def)
  let ?t = "b58_text (data @ take 4 (BRSHA256_2 data))"
  have "fst (BRBase58CheckEncode None data) = length ?t + 1"
    unfolding enc by (rule BRBase58Encode_None)
  then have "BRBase58CheckEncode (Some n) data = (length ?t + 1, Some ?t)"
    using assms(1) BRBase58Encode_text[of "data @ take 4 (BRSHA256_2 data)" n] by (simp add: enc)
  then show "\<exists>str. BRBase58CheckEncode (Some n) data = (length str + 1, Some str) \<and>
            BRBase58CheckDecode (Some m) str = (length data, Some data)"
    using BRBase58CheckDecode_text[OF assms(2)] by blast
next
  fix k str len out
  assume dec: "BRBase58CheckDecode (Some k) str = (len, Some out)" and pos: "0 < len"
  obtain l b where d: "BRBase58Decode (Some (length str)) str = (l, b)" by fastforce
  have l: "case b of None \<Rightarrow> l = 0 | Some bs \<Rightarrow> length bs = l"
    using d by (auto simp: BRBase58Decode_def Let_def split: if_splits)
  obtain bs where bs: "b = Some bs" "length bs = l"
    using l dec pos d by (cases b) (auto simp: BRBase58CheckDecode_def Let_def split: if_splits)
  from dec pos have "4 \<le> l" "len = l - 4" "out = take len bs"
      "take 4 (drop len bs) = take 4 (BRSHA256_2 out)"
    by (auto simp: BRBase58CheckDecode_def d bs Let_def split: if_splits)
  moreover from this have "bs = out @ take 4 (BRSHA256_2 out)"
    using bs(2) by (metis append_take_drop_id diff_diff_cancel length_drop order_refl take_all)
  ultimately show "len = length out" "BRBase58Decode (Some (length str)) str =
      (len + 4, Some (out @ take 4 (BRSHA256_2 out)))"
    using d bs by simp_all
qed

theorem BRBase58Check_correct_witness:
  "\<exists>str. BRBase58CheckEncode (Some 100) [] = (length str + 1, Some str) \<and>
     BRBase58CheckDecode (Some 0) str = (0, Some [])"
proof -
  let ?d = "take 4 (BRSHA256_2 [])"
  have "length (b58_digits ?d) \<le> 4 * 138 div 100 + 1"
    using length_dropWhile_le[of "\<lambda>d. d = 0" "rev (b58_enc_buf (dropWhile (\<lambda>b. b = 0) ?d))"]
      enc_loop_num[of "replicate (length (dropWhile (\<lambda>b. b = 0) ?d) * 138 div 100 + 1) 0"]
      length_dropWhile_le[of "\<lambda>b. b = 0" ?d]
    by (simp add: b58_digits_def b58_enc_buf_def)
  moreover have "length (takeWhile (\<lambda>b. b = 0) ?d) \<le> 4"
    using length_takeWhile_le[of "\<lambda>b. b = 0" ?d] by simp
  ultimately have "fst (BRBase58CheckEncode None []) \<le> 100"
    using BRBase58Encode_None[of ?d] by (simp add: BRBase58CheckEncode_def b58_text_def)
  from BRBase58Check_correct[OF this, of 0] show ?thesis by simp
qed

end
