(* ===== verification/BRBech32.thy ===== *)
theory BRBech32
  imports BRInt "HOL-Library.Char_ord"
begin

text \<open>
  \<open>BRBech32.c\<close>: segregated witness addresses. The fixed local arrays \<open>buf[52]\<close> and \<open>addr[91]\<close> are
  accessed with their bounds checked, so that an overflow is the value \<open>Inl OutOfBounds\<close>.
\<close>

section \<open>Characters and the checksum\<close>

definition OP_0 :: u8 where "OP_0 = 0x00"

definition OP_1 :: u8 where "OP_1 = 0x51"

definition islower :: "char \<Rightarrow> bool" where
  "islower c \<longleftrightarrow> 97 \<le> (of_char c :: nat) \<and> (of_char c :: nat) \<le> 122"

definition isupper :: "char \<Rightarrow> bool" where
  "isupper c \<longleftrightarrow> 65 \<le> (of_char c :: nat) \<and> (of_char c :: nat) \<le> 90"

definition tolower :: "char \<Rightarrow> char" where
  "tolower c = (if isupper c then char_of ((of_char c :: nat) + 32) else c)"

definition polymod :: "u32 \<Rightarrow> u32" where
  "polymod x =
     push_bit 5 (x AND 0x1ffffff) XOR (- (drop_bit 25 x AND 1) AND 0x3b6a57b2) XOR
     (- (drop_bit 26 x AND 1) AND 0x26508e6d) XOR (- (drop_bit 27 x AND 1) AND 0x1ea119fa) XOR
     (- (drop_bit 28 x AND 1) AND 0x3d4233dd) XOR (- (drop_bit 29 x AND 1) AND 0x2a1462b3)"

text \<open>
  The checksum over the human readable part: the high bits, a zero, the low bits. The encoder has no
  \<open>tolower\<close> here, but it has refused upper case characters before.
\<close>

definition hrp_chk :: "string \<Rightarrow> u32" where
  "hrp_chk hrp =
     (let chk = foldl (\<lambda>chk c. polymod chk XOR drop_bit 5 (of_char (tolower c))) 1 hrp
      in foldl (\<lambda>chk c. polymod chk XOR (of_char c AND 0x1f)) (polymod chk) hrp)"

section \<open>Decoding\<close>

definition bech32_chars :: string where
  "bech32_chars = ''qpzry9x8gf2tvdw0s3jn54khce6mua7l''"

text \<open>The switch over the lower case digit is the position in the encoder's table.\<close>

definition bech32_value :: "char \<Rightarrow> u8 option" where
  "bech32_value c =
     map_of [(CHR ''q'', 0), (CHR ''p'', 1), (CHR ''z'', 2), (CHR ''r'', 3), (CHR ''y'', 4), (CHR ''9'', 5),
       (CHR ''x'', 6), (CHR ''8'', 7), (CHR ''g'', 8), (CHR ''f'', 9), (CHR ''2'', 10), (CHR ''t'', 11),
       (CHR ''v'', 12), (CHR ''d'', 13), (CHR ''w'', 14), (CHR ''0'', 15), (CHR ''s'', 16), (CHR ''3'', 17),
       (CHR ''j'', 18), (CHR ''n'', 19), (CHR ''5'', 20), (CHR ''4'', 21), (CHR ''k'', 22), (CHR ''h'', 23),
       (CHR ''c'', 24), (CHR ''e'', 25), (CHR ''6'', 26), (CHR ''m'', 27), (CHR ''u'', 28), (CHR ''a'', 29),
       (CHR ''7'', 30), (CHR ''l'', 31)] (tolower c)"

definition buf_or :: "bytes \<Rightarrow> nat \<Rightarrow> u8 \<Rightarrow> bytes res" where
  "buf_or buf p v = (if p < length buf then Inr (buf[p := buf ! p OR v]) else Inl OutOfBounds)"

text \<open>\<open>while (sep > 0 && addr[sep] != '1') sep--\<close>, from the terminator on.\<close>

fun bech32_sep :: "string \<Rightarrow> nat \<Rightarrow> nat" where
  "bech32_sep addr 0 = 0"
| "bech32_sep addr (Suc n) =
     (if Suc n < length addr \<and> addr ! Suc n = CHR ''1'' then Suc n else bech32_sep addr n)"

text \<open>One digit of the program: \<open>j\<close> counts the digits after the version.\<close>

definition bech32_store :: "nat \<Rightarrow> u8 \<Rightarrow> bytes \<Rightarrow> bytes res" where
  "bech32_store j c buf =
     (let x = (j mod 8) * 5 - ((j mod 8) * 5 div 8) * 8; p = (j div 8) * 5 + (j mod 8) * 5 div 8
      in rbind (buf_or buf p (ucast (drop_bit x (push_bit 3 (ucast c :: u32)))))
           (\<lambda>buf. if 3 < x then buf_or buf (p + 1) (ucast (push_bit (11 - x) (ucast c :: u32)))
                  else Inr buf))"

text \<open>
  The digit loop, over the characters from index \<open>i\<close> on. \<open>None\<close> is the early return for an invalid
  digit. \<open>j = -1\<close> is the version.
\<close>

fun bech32_digits :: "nat \<Rightarrow> nat \<Rightarrow> int \<Rightarrow> string \<Rightarrow> u32 \<Rightarrow> u8 \<Rightarrow> bytes \<Rightarrow> (u32 \<times> u8 \<times> bytes) option res" where
  "bech32_digits addrLen i j [] chk ver buf = Inr (Some (chk, ver, buf))"
| "bech32_digits addrLen i j (ch # cs) chk ver buf =
     (case bech32_value ch of
        None \<Rightarrow> Inr None
      | Some c \<Rightarrow>
          let chk = polymod chk XOR ucast c; ver = (if j = - 1 then c else ver)
          in if j = - 1 \<or> addrLen \<le> i + 6 then bech32_digits addrLen (i + 1) (j + 1) cs chk ver buf
             else rbind (bech32_store (nat j) c buf)
                    (\<lambda>buf. bech32_digits addrLen (i + 1) (j + 1) cs chk ver buf))"

definition BRBech32Decode :: "string \<Rightarrow> (nat \<times> (string \<times> bytes) option) res" where
  "BRBech32Decode addr =
     (if \<exists>c\<in>set addr. (of_char c :: nat) < 33 \<or> 126 < (of_char c :: nat) then Inr (0, None)
      else let addrLen = length addr; sep = bech32_sep addr addrLen
      in if addrLen < 8 \<or> 90 < addrLen \<or> sep < 1 \<or> addrLen < sep + 2 + 6 \<or>
            ((\<exists>c\<in>set addr. isupper c) \<and> (\<exists>c\<in>set addr. islower c)) then Inr (0, None)
      else rbind (bech32_digits addrLen (sep + 1) (- 1) (drop (sep + 1) addr) (hrp_chk (take sep addr))
                    0xff (replicate 52 0))
        (\<lambda>r. case r of
           None \<Rightarrow> Inr (0, None)
         | Some (chk, ver, buf) \<Rightarrow>
             let bufLen = (addrLen - (sep + 2 + 6)) * 5 div 8
             in if chk \<noteq> 1 \<or> 16 < ver \<or> bufLen < 2 \<or> 40 < bufLen then Inr (0, None)
                else if 84 \<le> sep then Inl AssertFailed
                else Inr (2 + bufLen, Some (map tolower (take sep addr),
                       (if ver = 0 then OP_0 else ver + OP_1 - 1) # of_nat bufLen # take bufLen buf))))"

section \<open>Encoding\<close>

definition addr_put :: "string \<Rightarrow> char \<Rightarrow> string res" where
  "addr_put addr c = (if length addr < 91 then Inr (addr @ [c]) else Inl OutOfBounds)"

definition data_get :: "bytes \<Rightarrow> nat \<Rightarrow> u8 res" where
  "data_get data i = (if i < length data then Inr (data ! i) else Inl OutOfBounds)"

text \<open>\<open>chk = polymod(chk) ^ c, addr[i++] = chars[c]\<close>\<close>

definition bech32_emit :: "u8 \<Rightarrow> u32 \<times> string \<Rightarrow> (u32 \<times> string) res" where
  "bech32_emit c st =
     (case st of (chk, addr) \<Rightarrow>
        rbind (addr_put addr (bech32_chars ! unat c)) (\<lambda>addr. Inr (polymod chk XOR ucast c, addr)))"

text \<open>
  The loop over the bytes of the program, from \<open>j\<close> on, with \<open>b\<close> the byte of the round before. \<open>n\<close>
  rounds are left, the last of them for \<open>j = len\<close>.
\<close>

definition bech32_byte :: "nat \<Rightarrow> nat \<Rightarrow> u8 \<Rightarrow> u8 \<Rightarrow> u32 \<times> string \<Rightarrow> (u32 \<times> string) res" where
  "bech32_byte j len a b st =
     (let x = (j mod 5) * 8 - ((j mod 5) * 8 div 5) * 5;
          c = ucast ((push_bit (5 - x) (ucast a :: u32) OR drop_bit (3 + x) (ucast b)) AND 0x1f)
      in rbind (if j < len \<or> 0 < j mod 5 then bech32_emit c st else Inr st) (\<lambda>st.
         if 2 \<le> x \<and> j < len
         then bech32_emit (ucast (drop_bit (x - 2) (ucast b :: u32) AND 0x1f)) st
         else Inr st))"

primrec bech32_bytes :: "nat \<Rightarrow> nat \<Rightarrow> nat \<Rightarrow> bytes \<Rightarrow> u8 \<Rightarrow> u32 \<times> string \<Rightarrow> (u32 \<times> string) res" where
  "bech32_bytes 0 j len data b st = Inr st"
| "bech32_bytes (Suc n) j len data b st =
     rbind (if j < len then data_get data (2 + j) else Inr 0) (\<lambda>b'.
     rbind (bech32_byte j len b b' st) (\<lambda>st. bech32_bytes n (j + 1) len data b' st))"

text \<open>The six checksum digits, the one with shift \<open>5 k\<close> for each \<open>k\<close> of the list.\<close>

fun bech32_sum :: "u32 \<Rightarrow> nat list \<Rightarrow> string \<Rightarrow> string res" where
  "bech32_sum chk [] addr = Inr addr"
| "bech32_sum chk (k # ks) addr =
     rbind (addr_put addr (bech32_chars ! unat (drop_bit (5 * k) chk AND 0x1f)))
       (\<lambda>addr. bech32_sum chk ks addr)"

definition BRBech32Encode :: "string \<Rightarrow> bytes \<Rightarrow> (nat \<times> string option) res" where
  "BRBech32Encode hrp data =
     (if 84 < length hrp \<or>
         (\<exists>c\<in>set hrp. (of_char c :: nat) < 33 \<or> 126 < (of_char c :: nat) \<or> isupper c) then Inr (0, None)
      else rbind (addr_put hrp CHR ''1'') (\<lambda>addr.
        rbind (data_get data 0) (\<lambda>d0.
        if OP_0 < d0 \<and> d0 < OP_1 then Inr (0, None)
        else rbind (data_get data 1) (\<lambda>d1.
        let ver = (if OP_1 \<le> d0 then d0 + 1 - OP_1 else 0); len = unat d1
        in if 16 < ver \<or> len < 2 \<or> 40 < len \<or> 91 \<le> length addr + 1 + len + 6 then Inr (0, None)
        else rbind (bech32_emit ver (hrp_chk hrp, addr)) (\<lambda>st.
             rbind (bech32_bytes (len + 1) 0 len data 0 st) (\<lambda>(chk, addr).
             let chk = (polymod ^^ 6) chk XOR 1
             in rbind (bech32_sum chk [5, 4, 3, 2, 1, 0] addr) (\<lambda>addr.
             rbind (addr_put addr CHR 0x00) (\<lambda>full. Inr (length full, Some addr)))))))))"

end
