(* ===== verification/BRBech32Correct.thy ===== *)
theory BRBech32Correct
  imports BRBech32
begin

text \<open>
  Correctness of the segregated witness codec of \<open>BRBech32.c\<close>: the decoder never leaves its buffer, the
  checksum the encoder appends is the one the decoder accepts, the regrouping of 8 bit bytes into 5 bit
  digits and back is the identity on the bit streams, and the two functions are inverse to each other.
\<close>

section \<open>The checksum\<close>

lemma feedback: "- (drop_bit k x AND 1) AND K = (if bit x k then K else (0::u32))"
  by (simp add: and_one_eq bit_iff_odd_drop_bit odd_iff_mod_2_eq_one)

lemma polymod_alt:
  "polymod x = push_bit 5 (x AND 0x1ffffff) XOR (if bit x 25 then 0x3b6a57b2 else 0) XOR
     (if bit x 26 then 0x26508e6d else 0) XOR (if bit x 27 then 0x1ea119fa else 0) XOR
     (if bit x 28 then 0x3d4233dd else 0) XOR (if bit x 29 then 0x2a1462b3 else 0)"
  by (simp only: polymod_def feedback)

lemma polymod_xor: "polymod (x XOR y) = polymod x XOR polymod y"
proof -
  have "push_bit 5 ((x XOR y) AND 0x1ffffff) = push_bit 5 (x AND 0x1ffffff) XOR push_bit 5 (y AND (0x1ffffff::u32))"
    by (rule bit_word_eqI) (auto simp: bit_push_bit_iff bit_and_iff bit_xor_iff)
  moreover have "(if bit (x XOR y) k then K else 0) = (if bit x k then K else 0) XOR (if bit y k then K else (0::u32))" for k K
    by (auto simp: bit_xor_iff)
  ultimately show ?thesis unfolding polymod_alt by (simp only: ac_simps)
qed

lemma mask_25: "(0x1ffffff :: u32) = mask 25"
  by (simp add: mask_eq_exp_minus_1)

lemma polymod_small: "take_bit 25 y = y \<Longrightarrow> polymod y = push_bit 5 y"
proof -
  assume t: "take_bit 25 y = y"
  have "\<not> bit y k" if "25 \<le> k" for k
    using that by (subst t[symmetric]) (simp add: bit_take_bit_iff)
  then show ?thesis unfolding polymod_alt mask_25 by (simp add: t flip: take_bit_eq_mask)
qed

lemma polymod_30: "take_bit 30 (polymod x) = polymod x"
  unfolding polymod_alt mask_25 take_bit_xor
  by (auto simp: take_bit_push_bit simp flip: take_bit_eq_mask)

lemma sum_step:
  assumes D: "take_bit 30 D = D" and k: "k < 6"
  shows "polymod (q XOR drop_bit (5 * (k + 1)) D) XOR (drop_bit (5 * k) D AND 0x1f) =
         polymod q XOR drop_bit (5 * k) (D :: u32)"
proof -
  have hi: "bit D n \<Longrightarrow> n < 30" for n
    by (subst (asm) D[symmetric]) (simp add: bit_take_bit_iff)
  have "take_bit 25 (drop_bit (5 * (k + 1)) D) = drop_bit (5 * (k + 1)) D"
    by (rule bit_word_eqI) (auto simp: bit_take_bit_iff bit_drop_bit_eq dest: hi)
  then have "polymod (drop_bit (5 * (k + 1)) D) = push_bit 5 (drop_bit (5 * (k + 1)) D)"
    by (rule polymod_small)
  moreover have "push_bit 5 (drop_bit (5 * (k + 1)) D) XOR (drop_bit (5 * k) D AND mask 5) = drop_bit (5 * k) D"
    by (rule bit_word_eqI) (auto simp: bit_push_bit_iff bit_drop_bit_eq bit_xor_iff bit_and_iff bit_mask_iff)
  moreover have "(0x1f :: u32) = mask 5" by (simp add: mask_eq_exp_minus_1)
  ultimately show ?thesis by (simp add: polymod_xor xor.assoc)
qed

lemma polymod_pow6: "(polymod ^^ 6) x = polymod (polymod (polymod (polymod (polymod (polymod x)))))"
  by (simp add: numeral_eq_Suc)

lemma checksum_valid:
  "foldl (\<lambda>chk k. polymod chk XOR (drop_bit (5 * k) ((polymod ^^ 6) chk0 XOR 1) AND 0x1f)) chk0
     [5, 4, 3, 2, 1, 0] = 1"
proof -
  define D where "D = (polymod ^^ 6) chk0 XOR 1"
  have D: "take_bit 30 D = D"
    unfolding D_def take_bit_xor polymod_pow6 by (simp add: polymod_30)
  have "drop_bit 30 D = 0"
    by (metis D drop_bit_take_bit diff_self_eq_0 take_bit_0)
  then show ?thesis
    unfolding D_def[symmetric]
    using sum_step[OF D, of 5 chk0] sum_step[OF D, of 4 "polymod chk0"]
     sum_step[OF D, of 3 "polymod (polymod chk0)"]
     sum_step[OF D, of 2 "polymod (polymod (polymod chk0))"]
     sum_step[OF D, of 1 "polymod (polymod (polymod (polymod chk0)))"]
     sum_step[OF D, of 0 "polymod (polymod (polymod (polymod (polymod chk0))))"]
    by simp (simp add: D_def polymod_pow6)
qed

section \<open>The decoder stays in its buffer\<close>

lemma store_safe_all: "list_all (\<lambda>j. let x = (j mod 8) * 5 - ((j mod 8) * 5 div 8) * 8; p = (j div 8) * 5 + (j mod 8) * 5 div 8
    in p < 52 \<and> (3 < x \<longrightarrow> p + 1 < 52)) [0..<(81::nat)]"
  by code_simp

lemma bech32_store_safe:
  assumes "j \<le> 80" "length buf = 52"
  shows "\<exists>buf'. bech32_store j c buf = Inr buf' \<and> length buf' = 52"
  using store_safe_all[unfolded list_all_iff, THEN bspec, of j] assms
  by (auto simp: bech32_store_def buf_or_def Let_def)

lemma bech32_digits_safe:
  assumes "int i = j + int sep + 2" "- 1 \<le> j" "i + length cs = addrLen" "addrLen \<le> 90" "1 \<le> sep"
    and "length buf = 52"
  shows "\<exists>r. bech32_digits addrLen i j cs chk ver buf = Inr r \<and>
    (\<forall>chk ver buf. r = Some (chk, ver, buf) \<longrightarrow> length buf = 52)"
  using assms
proof (induction addrLen i j cs chk ver buf rule: bech32_digits.induct)
  case (1 addrLen i j chk ver buf)
  then show ?case by simp
next
  case (2 addrLen i j ch cs chk ver buf)
  show ?case
  proof (cases "bech32_value ch")
    case None
    then show ?thesis by simp
  next
    case (Some c)
    show ?thesis
    proof (cases "j = - 1 \<or> addrLen \<le> i + 6")
      case True
      then show ?thesis
        using 2(1)[OF Some refl refl True] 2(3-) Some by (simp add: Let_def) 
    next
      case False
      then have "nat j \<le> 80" using 2(3-) by linarith
      then obtain buf' where b: "bech32_store (nat j) c buf = Inr buf'" "length buf' = 52"
        using bech32_store_safe 2(8) by blast
      then show ?thesis
        using 2(2)[OF Some refl refl False b(1)] 2(3-) Some False by (simp add: Let_def)
    qed
  qed
qed

lemma bech32_sep_le: "bech32_sep addr n \<le> n"
  by (induction n) auto

lemma BRBech32Decode_safe: "\<exists>r. BRBech32Decode addr = Inr r"
proof -
  let ?sep = "bech32_sep addr (length addr)"
  show ?thesis
  proof (cases "1 \<le> ?sep \<and> ?sep + 8 \<le> length addr \<and> length addr \<le> 90")
    case True
    have len: "?sep + 1 + length (drop (?sep + 1) addr) = length addr"
      unfolding length_drop using True by linarith
    obtain r where "bech32_digits (length addr) (?sep + 1) (- 1) (drop (?sep + 1) addr)
        (hrp_chk (take ?sep addr)) 0xff (replicate 52 0) = Inr r"
      using bech32_digits_safe[of "?sep + 1" "- 1" ?sep "drop (?sep + 1) addr" "length addr" "replicate 52 0"] True
        len by fastforce
    then show ?thesis using True
      by (auto simp: BRBech32Decode_def Let_def split: option.splits)
  next
    case False
    then show ?thesis by (auto simp: BRBech32Decode_def Let_def)
  qed
qed

section \<open>Bit streams\<close>

text \<open>The bit streams of a list of bytes and of a list of 5 bit groups, most significant bit first.\<close>

definition bbit :: "bytes \<Rightarrow> nat \<Rightarrow> bool" where
  "bbit bs t = bit (bs ! (t div 8)) (7 - t mod 8)"

definition gbit :: "u8 list \<Rightarrow> nat \<Rightarrow> bool" where
  "gbit gs t = bit (gs ! (t div 5)) (4 - t mod 5)"

lemma gbits_snoc:
  assumes "\<forall>t<5 * length gs. gbit gs t = P t" "\<forall>r<5. bit c (4 - r) = P (5 * length gs + r)"
  shows "\<forall>t<5 * length (gs @ [c]). gbit (gs @ [c]) t = P t"
proof (intro allI impI)
  fix t assume t: "t < 5 * length (gs @ [c])"
  show "gbit (gs @ [c]) t = P t"
  proof (cases "t < 5 * length gs")
    case True
    then have "t div 5 < length gs" by auto
    then show ?thesis using assms(1) True by (simp add: gbit_def nth_append)
  next
    case False
    then obtain r where r: "t = 5 * length gs + r" "r < 5"
      using t by (metis Suc_eq_plus1 add_less_cancel_left le_Suc_ex length_append_singleton
          linorder_not_less mult_Suc_right add.commute)
    then show ?thesis using assms(2) by (simp add: gbit_def)
  qed
qed

lemma bbit_at: "r < 8 \<Longrightarrow> bbit d (8 * j + r) = bit (d ! j) (7 - r)"
  by (simp add: bbit_def)

definition grp1 :: "nat \<Rightarrow> u8 \<Rightarrow> u8 \<Rightarrow> u8" where
  "grp1 x a b = ucast ((push_bit (5 - x) (ucast a :: u32) OR drop_bit (3 + x) (ucast b)) AND 0x1f)"

definition grp2 :: "nat \<Rightarrow> u8 \<Rightarrow> u8" where
  "grp2 x b = ucast (drop_bit (x - 2) (ucast b :: u32) AND 0x1f)"

lemma mask5: "(0x1f :: u32) = mask 5" by (simp add: mask_eq_exp_minus_1)

lemma bit_u8: "bit (w :: u8) n \<Longrightarrow> n < 8"
  using bit_imp_le_length[of w n] by simp

lemma bit_grp1:
  "x < 5 \<Longrightarrow> r < 5 \<Longrightarrow>
   bit (grp1 x a b) (4 - r) = (if r < x then bit a (x - 1 - r) else bit b (7 + x - r))"
  unfolding grp1_def mask5
  by (auto simp: bit_ucast_iff bit_and_iff bit_or_iff bit_push_bit_iff bit_drop_bit_eq bit_mask_iff
      algebra_simps dest: bit_u8)

lemma bit_grp2:
  "2 \<le> x \<Longrightarrow> x < 5 \<Longrightarrow> r < 5 \<Longrightarrow> bit (grp2 x b) (4 - r) = bit b (x + 2 - r)"
  unfolding grp2_def mask5
  by (auto simp: bit_ucast_iff bit_and_iff bit_drop_bit_eq bit_mask_iff algebra_simps dest: bit_u8)

lemma grp_less: "unat (grp1 x a b) < 32" "unat (grp2 x b) < 32"
proof -
  have "unat (ucast (w AND 0x1f) :: u8) < 32" for w :: u32
  proof -
    have "w AND 0x1f = take_bit 5 w" by (simp only: mask5 take_bit_eq_mask)
    then show ?thesis by (simp add: unat_simps unsigned_take_bit_eq take_bit_eq_mod)
  qed
  then show "unat (grp1 x a b) < 32" "unat (grp2 x b) < 32" by (simp_all only: grp1_def grp2_def)
qed

definition byte_groups :: "nat \<Rightarrow> nat \<Rightarrow> u8 \<Rightarrow> u8 \<Rightarrow> u8 list" where
  "byte_groups j len a b =
     (if j < len \<or> 0 < 8 * j mod 5 then [grp1 (8 * j mod 5) a b] else []) @
     (if 2 \<le> 8 * j mod 5 \<and> j < len then [grp2 (8 * j mod 5) b] else [])"

primrec groups :: "nat \<Rightarrow> nat \<Rightarrow> nat \<Rightarrow> bytes \<Rightarrow> u8 \<Rightarrow> u8 list" where
  "groups 0 j len d b = []"
| "groups (Suc n) j len d b =
     (let b' = (if j < len then d ! j else 0) in byte_groups j len b b' @ groups n (j + 1) len d b')"

lemma groups_stream:
  assumes "n + j = len + 1" "length gs = 8 * j div 5" "b = (if j = 0 then 0 else d ! (j - 1))"
    and "\<forall>t<5 * length gs. gbit gs t = (t < 8 * len \<and> bbit d t)" "\<forall>g\<in>set gs. unat g < 32" "0 < n"
  shows "length (gs @ groups n j len d b) = (8 * len + 4) div 5 \<and>
    (\<forall>t<5 * length (gs @ groups n j len d b).
        gbit (gs @ groups n j len d b) t = (t < 8 * len \<and> bbit d t)) \<and>
    (\<forall>g\<in>set (gs @ groups n j len d b). unat g < 32)"
  using assms
proof (induction n arbitrary: j b gs)
  case 0
  then show ?case by simp
next
  case (Suc n)
  define x where "x = 8 * j mod 5"
  have x: "x < 5" "5 * length gs + x = 8 * j" using Suc.prems(2) by (auto simp: x_def)
  define b' where "b' = (if j < len then d ! j else 0)"
  let ?P = "\<lambda>t. t < 8 * len \<and> bbit d t"
  have g1: "\<forall>r<5. bit (grp1 x b b') (4 - r) = ?P (5 * length gs + r)" if "j < len \<or> 0 < x"
  proof (intro allI impI)
    fix r :: nat assume r: "r < 5"
    show "bit (grp1 x b b') (4 - r) = ?P (5 * length gs + r)"
    proof (cases "r < x")
      case True
      then have j: "0 < j" using x(2) by (cases j) auto
      then have t: "5 * length gs + r = 8 * (j - 1) + (8 - x + r)" "8 - x + r < 8" "7 - (8 - x + r) = x - 1 - r"
        using x True by auto
      have "8 * (j - 1) + (8 - x + r) < 8 * len" using t(2) j Suc.prems(1) by linarith
      then show ?thesis
        unfolding t(1) bbit_at[OF t(2)] t(3) bit_grp1[OF x(1) r] using True j Suc.prems(3) by simp
    next
      case False
      then have t: "5 * length gs + r = 8 * j + (r - x)" "r - x < 8" "7 - (r - x) = 7 + x - r"
        using x r by auto
      show ?thesis
        unfolding t(1) bbit_at[OF t(2)] t(3) bit_grp1[OF x(1) r]
        using False t(2) Suc.prems(1) by (auto simp: b'_def)
    qed
  qed
  have g2: "\<forall>r<5. bit (grp2 x b') (4 - r) = ?P (5 * (length gs + 1) + r)" if "2 \<le> x" "j < len"
  proof (intro allI impI)
    fix r :: nat assume r: "r < 5"
    have t: "5 * (length gs + 1) + r = 8 * j + (5 - x + r)" "5 - x + r < 8" "7 - (5 - x + r) = x + 2 - r"
      using x r that by auto
    show "bit (grp2 x b') (4 - r) = ?P (5 * (length gs + 1) + r)"
      unfolding t(1) bbit_at[OF t(2)] t(3) bit_grp2[OF that(1) x(1) r]
      using that t(2) by (simp add: b'_def)
  qed
  define gs' where "gs' = gs @ byte_groups j len b b'"
  have gs': "\<forall>t<5 * length gs'. gbit gs' t = ?P t"
  proof (cases "j < len \<or> 0 < x")
    case True
    note one = gbits_snoc[OF Suc.prems(4) g1[OF True]]
    show ?thesis
    proof (cases "2 \<le> x \<and> j < len")
      case t2: True
      then show ?thesis
        using gbits_snoc[OF one, of "grp2 x b'"] g2 True
        by (simp add: gs'_def byte_groups_def flip: x_def)
    next
      case False
      then show ?thesis
        using one True unfolding gs'_def byte_groups_def x_def[symmetric] if_not_P[OF False] by simp
    qed
  next
    case False
    then show ?thesis using Suc.prems(4) by (simp add: gs'_def byte_groups_def flip: x_def)
  qed
  have less: "\<forall>g\<in>set gs'. unat g < 32"
    using Suc.prems(5) grp_less by (auto simp: gs'_def byte_groups_def)
  have app: "gs @ groups (Suc n) j len d b = gs' @ groups n (j + 1) len d b'"
    by (simp add: gs'_def b'_def Let_def)
  show ?case
  proof (cases "j < len")
    case True
    have "8 * (j + 1) div 5 = length gs + (if 2 \<le> x then 2 else 1)"
      by (rule div_nat_eqI) (use x in auto)
    then have "length gs' = 8 * (j + 1) div 5"
      using True unfolding gs'_def byte_groups_def by (simp flip: x_def)
    moreover have "b' = (if j + 1 = 0 then 0 else d ! (j + 1 - 1))" using True by (simp add: b'_def)
    ultimately show ?thesis
      unfolding app using Suc.IH[of "j + 1" gs' b'] Suc.prems(1) True gs' less by simp
  next
    case False
    then have n: "n = 0" "j = len" using Suc.prems(1) by auto
    have "(8 * len + 4) div 5 = length gs + (if 0 < x then 1 else 0)"
      by (rule div_nat_eqI) (use x n in auto)
    then have "length gs' = (8 * len + 4) div 5"
      using n unfolding gs'_def byte_groups_def by (simp add: x_def)
    then show ?thesis unfolding app using n gs' less by simp
  qed
qed

text \<open>Storing a group in the decoder's buffer sets the five bits of its place in the stream.\<close>

lemma store_bits:
  assumes k: "k \<le> 80" "length buf = 52" and c: "unat c < 32" and st: "bech32_store k c buf = Inr buf'"
  shows "length buf' = 52 \<and>
    (\<forall>t<416. bbit buf' t = (bbit buf t \<or> (5 * k \<le> t \<and> t < 5 * k + 5 \<and> bit c (4 - (t - 5 * k)))))"
proof -
  define p x where "p = 5 * k div 8" and "x = 5 * k mod 8"
  have px: "5 * k = 8 * p + x" "x < 8" by (auto simp: p_def x_def)
  have pe: "k div 8 * 5 + k mod 8 * 5 div 8 = p" "k mod 8 * 5 - k mod 8 * 5 div 8 * 8 = x"
  proof -
    have k: "5 * k = 5 * (k mod 8) + 8 * (5 * (k div 8))"
      using mult_div_mod_eq[of 8 k] by linarith
    show "k div 8 * 5 + k mod 8 * 5 div 8 = p"
      unfolding p_def by (subst k) (simp add: mult.commute)
    show "k mod 8 * 5 - k mod 8 * 5 div 8 * 8 = x"
      unfolding x_def minus_div_mult_eq_mod
      by (subst k) (simp only: mod_mult_self2 mult.commute)
  qed
  have pl: "p < 51" using px(1) k(1) by simp
  have c5: "bit c n \<Longrightarrow> n < 5" for n
  proof -
    have "take_bit 5 c = c" using c by (intro take_bit_unat_small) simp
    then show "bit c n \<Longrightarrow> n < 5" by (metis bit_take_bit_iff)
  qed
  let ?b1 = "ucast (drop_bit x (push_bit 3 (ucast c :: u32))) :: u8"
  let ?b2 = "ucast (push_bit (11 - x) (ucast c :: u32)) :: u8"
  define b1 where "b1 = buf[p := buf ! p OR ?b1]"
  have buf': "buf' = (if 3 < x then b1[p + 1 := b1 ! (p + 1) OR ?b2] else b1)"
    using st k(2) pl unfolding bech32_store_def Let_def pe
    by (auto simp: buf_or_def b1_def split: if_splits)
  have bit1: "bit ?b1 (7 - s) = (x \<le> s \<and> s < x + 5 \<and> bit c (4 - (s - x)))" if "s < 8" for s
  proof -
    have "bit ?b1 (7 - s) = (3 \<le> 7 - s + x \<and> 7 - s + x < 32 \<and> bit c (7 - s + x - 3))"
      using that by (auto simp: bit_ucast_iff bit_drop_bit_eq bit_push_bit_iff add.commute)
    also have "\<dots> = (x \<le> s \<and> s < x + 5 \<and> bit c (4 - (s - x)))"
    proof (cases "x \<le> s \<and> s < x + 5")
      case True
      then have "7 - s + x - 3 = 4 - (s - x)" "3 \<le> 7 - s + x" "7 - s + x < 32" using that by auto
      then show ?thesis using True by simp
    next
      case False
      then have "\<not> (3 \<le> 7 - s + x \<and> 7 - s + x - 3 < 5)" using that px(2) by auto
      then show ?thesis using False c5[of "7 - s + x - 3"] by blast
    qed
    finally show ?thesis .
  qed
  have bit2: "bit ?b2 (7 - s) = (s + 3 < x \<and> bit c (x - 4 - s))" if "s < 8" "3 < x" for s
  proof -
    have "bit ?b2 (7 - s) = (11 - x \<le> 7 - s \<and> bit c (7 - s - (11 - x)))"
      using that by (auto simp: bit_ucast_iff bit_push_bit_iff dest: bit_u8)
    moreover have "11 - x \<le> 7 - s \<longleftrightarrow> s + 3 < x" using that px(2) by auto
    moreover have "7 - s - (11 - x) = x - 4 - s" using that px(2) by auto
    ultimately show ?thesis by simp
  qed
  have "bbit buf' t = (bbit buf t \<or> (5 * k \<le> t \<and> t < 5 * k + 5 \<and> bit c (4 - (t - 5 * k))))"
    if "t < 416" for t
  proof -
    define q s where "q = t div 8" and "s = t mod 8"
    have qs: "t = 8 * q + s" "s < 8" "q < 52" using that by (auto simp: q_def s_def)
    have nb: "bbit b t = bit (b ! q) (7 - s)" for b by (simp add: bbit_def q_def s_def)
    have b1q: "bit (b1 ! q) (7 - s) = (bit (buf ! q) (7 - s) \<or> q = p \<and> bit ?b1 (7 - s))"
      using qs k(2) pl by (auto simp: b1_def nth_list_update bit_or_iff)
    consider "q = p" | "q = p + 1" | "q \<noteq> p" "q \<noteq> p + 1" by blast
    then show ?thesis
    proof cases
      case 1
      have "(5 * k \<le> t \<and> t < 5 * k + 5 \<and> bit c (4 - (t - 5 * k))) =
          (x \<le> s \<and> s < x + 5 \<and> bit c (4 - (s - x)))"
        using 1 qs px by auto
      then show ?thesis using 1 b1q bit1[OF qs(2)] by (simp add: nb buf')
    next
      case 2
      have eq: "4 - (t - 5 * k) = x - 4 - s" if "3 < x" "s + 3 < x" using 2 qs px that by auto
      have place: "(5 * k \<le> t \<and> t < 5 * k + 5 \<and> bit c (4 - (t - 5 * k))) =
          (3 < x \<and> s + 3 < x \<and> bit c (x - 4 - s))"
        using 2 qs px eq by auto
      have "buf' ! q = (if 3 < x then buf ! q OR ?b2 else buf ! q)"
        using 2 pl k(2) by (simp add: buf' b1_def)
      then show ?thesis
        unfolding nb place using bit2[OF qs(2)] by (auto simp: bit_or_iff)
    next
      case 3
      then have "\<not> (5 * k \<le> t \<and> t < 5 * k + 5)" using qs px by auto
      then show ?thesis using 3 b1q by (auto simp: nb buf' b1_def)
    qed
  qed
  moreover have "length buf' = 52" using k(2) by (simp add: buf' b1_def)
  ultimately show ?thesis by blast
qed

section \<open>The loops on the digits of an encoded program\<close>

definition feed :: "u32 \<Rightarrow> u8 \<Rightarrow> u32" where
  "feed chk c = polymod chk XOR ucast c"

definition chr :: "u8 \<Rightarrow> char" where
  "chr c = bech32_chars ! unat c"

lemma bech32_value_chr: "unat c < 32 \<Longrightarrow> bech32_value (chr c) = Some c"
proof -
  assume c: "unat c < 32"
  have "list_all (\<lambda>k. bech32_value (bech32_chars ! k) = Some (of_nat k)) [0..<32]" by code_simp
  with c have "bech32_value (bech32_chars ! unat c) = Some (of_nat (unat c))"
    by (simp only: list_all_iff) simp
  then show ?thesis by (simp add: chr_def)
qed

lemma chr_props:
  assumes "unat c < 32"
  shows "33 \<le> (of_char (chr c) :: nat)" "(of_char (chr c) :: nat) \<le> 126" "\<not> isupper (chr c)" "chr c \<noteq> CHR ''1''"
proof -
  have "list_all (\<lambda>ch. 33 \<le> (of_char ch :: nat) \<and> (of_char ch :: nat) \<le> 126 \<and> \<not> isupper ch \<and>
      ch \<noteq> CHR ''1'') bech32_chars"
    by code_simp
  moreover have "length bech32_chars = 32" by code_simp
  then have "chr c \<in> set bech32_chars" using assms by (simp add: chr_def)
  ultimately show "33 \<le> (of_char (chr c) :: nat)" "(of_char (chr c) :: nat) \<le> 126" "\<not> isupper (chr c)"
    "chr c \<noteq> CHR ''1''" by (auto simp: list_all_iff)
qed

lemma bech32_emit_room:
  "length addr < 91 \<Longrightarrow> bech32_emit c (chk, addr) = Inr (feed chk c, addr @ [chr c])"
  by (simp add: bech32_emit_def addr_put_def feed_def chr_def)

lemma shift_eq: "(j mod 5) * 8 - ((j mod 5) * 8 div 5) * 5 = 8 * j mod (5::nat)"
proof -
  have "8 * j mod 5 = j mod 5 * 8 mod 5" by (metis mod_mult_right_eq mult.commute)
  then show ?thesis by (simp only: minus_div_mult_eq_mod)
qed

lemma pos_eq: "0 < j mod 5 \<longleftrightarrow> 0 < 8 * j mod (5::nat)"
  by presburger

lemma bech32_byte_groups:
  assumes "length addr + length (byte_groups j len a b) \<le> 91"
  shows "bech32_byte j len a b (chk, addr) =
    Inr (foldl feed chk (byte_groups j len a b), addr @ map chr (byte_groups j len a b))"
  using assms unfolding bech32_byte_def Let_def shift_eq grp1_def[symmetric] grp2_def[symmetric]
    byte_groups_def pos_eq[symmetric]
  by (auto simp: bech32_emit_room split: if_splits)

lemma bech32_bytes_groups:
  assumes "length addr + length (groups n j len (drop 2 data) b) \<le> 91" "2 + len \<le> length data"
  shows "bech32_bytes n j len data b (chk, addr) =
    Inr (foldl feed chk (groups n j len (drop 2 data) b), addr @ map chr (groups n j len (drop 2 data) b))"
  using assms
proof (induction n arbitrary: j b chk addr)
  case 0
  then show ?case by simp
next
  case (Suc n)
  let ?b = "if j < len then drop 2 data ! j else 0"
  have "(if j < len then data_get data (2 + j) else Inr 0) = Inr ?b"
    using Suc.prems(2) by (simp add: data_get_def)
  then show ?case
    using Suc bech32_byte_groups[of addr j len b ?b chk] by (simp add: Let_def)
qed

lemma bech32_sum_room:
  "length addr + length ks \<le> 91 \<Longrightarrow>
   bech32_sum chk ks addr = Inr (addr @ map (\<lambda>k. chr (ucast (drop_bit (5 * k) chk AND 0x1f))) ks)"
proof (induction ks arbitrary: addr)
  case Nil
  then show ?case by simp
next
  case (Cons k ks)
  have "unat (ucast (drop_bit (5 * k) chk AND 0x1f) :: u8) = unat (drop_bit (5 * k) chk AND 0x1f)"
  proof -
    have "unat (drop_bit (5 * k) chk AND 0x1f) < 32"
      by (simp only: mask5 take_bit_eq_mask[symmetric] unat_take_bit) simp
    then show ?thesis by (simp add: unat_ucast)
  qed
  then show ?case using Cons by (simp add: addr_put_def chr_def)
qed

text \<open>The decoder's loop over the groups of a program: the checksum, and the buffer's stream.\<close>

lemma bech32_digits_groups:
  assumes "int i = j + int sep + 2" "0 \<le> j" "i + length gs + 6 \<le> addrLen" "addrLen \<le> 90" "1 \<le> sep"
    and "\<forall>g\<in>set gs. unat g < 32" "length buf = 52"
    and "\<forall>t<416. bbit buf t = (t < 5 * nat j \<and> P t)"
    and "\<forall>t<5 * length gs. gbit gs t = P (5 * nat j + t)"
  shows "\<exists>buf'. bech32_digits addrLen i j (map chr gs @ rest) chk ver buf =
      bech32_digits addrLen (i + length gs) (j + int (length gs)) rest (foldl feed chk gs) ver buf' \<and>
    length buf' = 52 \<and> (\<forall>t<416. bbit buf' t = (t < 5 * (nat j + length gs) \<and> P t))"
  using assms
proof (induction gs arbitrary: i j chk buf)
  case Nil
  then show ?case by auto
next
  case (Cons g gs)
  have g: "unat g < 32" using Cons.prems(6) by simp
  have k: "nat j \<le> 80" using Cons.prems(1-5) by (simp add: nat_le_iff)
  obtain buf1 where b1: "bech32_store (nat j) g buf = Inr buf1"
    using bech32_store_safe[OF k Cons.prems(7)] by blast
  note sb = store_bits[OF k Cons.prems(7) g b1]
  have gP: "bit g (4 - r) = P (5 * nat j + r)" if "r < 5" for r
    using Cons.prems(9)[rule_format, of r] that by (simp add: gbit_def)
  have "\<forall>t<416. bbit buf1 t = (t < 5 * nat (j + 1) \<and> P t)"
  proof (intro allI impI)
    fix t :: nat assume t: "t < 416"
    have "5 * nat j \<le> t \<Longrightarrow> t < 5 * nat j + 5 \<Longrightarrow> bit g (4 - (t - 5 * nat j)) = P t"
      using gP[of "t - 5 * nat j"] by simp
    then show "bbit buf1 t = (t < 5 * nat (j + 1) \<and> P t)"
      using sb Cons.prems(8) t Cons.prems(2) by (auto simp: nat_add_distrib)
  qed
  moreover have "\<forall>t<5 * length gs. gbit gs t = P (5 * nat (j + 1) + t)"
  proof (intro allI impI)
    fix t assume "t < 5 * length gs"
    have eq: "5 * nat j + (5 + t) = 5 * nat (j + 1) + t" using Cons.prems(2) by (simp add: nat_add_distrib)
    have "(5 + t) div 5 = Suc (t div 5)" by simp
    with \<open>t < 5 * length gs\<close> show "gbit gs t = P (5 * nat (j + 1) + t)"
      using Cons.prems(9)[rule_format, of "5 + t"] Cons.prems(2) eq
      by (simp add: gbit_def)
  qed
  ultimately have IH: "\<exists>buf'. bech32_digits addrLen (i + 1) (j + 1) (map chr gs @ rest) (feed chk g) ver buf1 =
      bech32_digits addrLen (i + 1 + length gs) (j + 1 + int (length gs)) rest
        (foldl feed (feed chk g) gs) ver buf' \<and>
    length buf' = 52 \<and> (\<forall>t<416. bbit buf' t = (t < 5 * (nat (j + 1) + length gs) \<and> P t))"
    using Cons.prems sb by (intro Cons.IH) auto
  have "bech32_digits addrLen i j (map chr (g # gs) @ rest) chk ver buf =
      bech32_digits addrLen (i + 1) (j + 1) (map chr gs @ rest) (feed chk g) ver buf1"
    using bech32_value_chr[OF g] Cons.prems(2,3) b1 by (simp add: Let_def feed_def)
  then show ?case using IH Cons.prems(2) by (simp add: nat_add_distrib algebra_simps)
qed

declare groups.simps(2) [simp del]

section \<open>The round trip\<close>

lemma bech32_sep_hrp:
  assumes "CHR ''1'' \<notin> set rest" "1 \<le> length hrp" "length hrp \<le> n" "n \<le> length (hrp @ CHR ''1'' # rest)"
  shows "bech32_sep (hrp @ CHR ''1'' # rest) n = length hrp"
  using assms
proof (induction n)
  case 0
  then show ?case by simp
next
  case (Suc n)
  show ?case
  proof (cases "Suc n = length hrp")
    case False
    then obtain k where k: "Suc n = length hrp + Suc k"
      using Suc.prems(3) by (metis add_Suc_right le_neq_implies_less less_imp_Suc_add)
    have "rest ! k \<noteq> CHR ''1''" if "k < length rest" using nth_mem[OF that] Suc.prems(1) by metis
    then have "\<not> (Suc n < length (hrp @ CHR ''1'' # rest) \<and> (hrp @ CHR ''1'' # rest) ! Suc n = CHR ''1'')"
      unfolding k by (auto simp: nth_append)
    then show ?thesis using Suc False by auto
  next
    case True
    then have c: "Suc n < length (hrp @ CHR ''1'' # rest) \<and> (hrp @ CHR ''1'' # rest) ! Suc n = CHR ''1''"
      by (simp add: nth_append)
    show ?thesis unfolding bech32_sep.simps(2) if_P[OF c] by (rule True)
  qed
qed

lemma tolower_id: "\<not> isupper c \<Longrightarrow> tolower c = c"
  by (simp add: tolower_def)

lemma bech32_digits_checks:
  assumes "\<forall>g\<in>set gs. unat g < 32" "0 \<le> j" "addrLen \<le> i + 6"
  shows "bech32_digits addrLen i j (map chr gs) chk ver buf = Inr (Some (foldl feed chk gs, ver, buf))"
  using assms
proof (induction gs arbitrary: i j chk)
  case Nil
  then show ?case by simp
next
  case (Cons g gs)
  then show ?case using bech32_value_chr[of g] by (simp add: Let_def feed_def)
qed

definition bech32_checks :: "u32 \<Rightarrow> u8 list" where
  "bech32_checks chk = map (\<lambda>k. ucast (drop_bit (5 * k) ((polymod ^^ 6) chk XOR 1) AND 0x1f)) [5, 4, 3, 2, 1, 0]"

lemma ucast_ucast_and: "ucast (ucast (w AND 0x1f :: u32) :: u8) = w AND (0x1f :: u32)"
  unfolding mask5 by (rule bit_word_eqI) (auto simp: bit_ucast_iff bit_and_iff bit_mask_iff)

lemma checks_valid: "foldl feed chk (bech32_checks chk) = 1"
  using checksum_valid[of chk] by (simp add: bech32_checks_def feed_def ucast_ucast_and del: funpow.simps)

lemma checks_less: "g \<in> set (bech32_checks chk) \<Longrightarrow> unat g < 32"
proof -
  have "unat (ucast (w AND 0x1f) :: u8) < 32" for w :: u32
  proof -
    have "unat (w AND 0x1f) < 32"
      by (simp only: mask5 take_bit_eq_mask[symmetric] unat_take_bit) simp
    then show ?thesis by (simp add: unat_ucast)
  qed
  then show "g \<in> set (bech32_checks chk) \<Longrightarrow> unat g < 32" by (auto simp: bech32_checks_def)
qed

definition bech32_ver :: "u8 \<Rightarrow> u8" where
  "bech32_ver d0 = (if OP_1 \<le> d0 then d0 + 1 - OP_1 else 0)"

definition bech32_valid :: "string \<Rightarrow> bytes \<Rightarrow> bool" where
  "bech32_valid hrp data \<longleftrightarrow>
     (\<forall>c\<in>set hrp. 33 \<le> (of_char c :: nat) \<and> (of_char c :: nat) \<le> 126 \<and> \<not> isupper c) \<and>
     \<not> (OP_0 < data ! 0 \<and> data ! 0 < OP_1) \<and> bech32_ver (data ! 0) \<le> 16 \<and>
     2 \<le> unat (data ! 1) \<and> unat (data ! 1) \<le> 40"

definition bech32_text :: "string \<Rightarrow> bytes \<Rightarrow> string" where
  "bech32_text hrp data =
     (let len = unat (data ! 1); gs = bech32_ver (data ! 0) # groups (len + 1) 0 len (drop 2 data) 0
      in hrp @ CHR ''1'' # map chr (gs @ bech32_checks (foldl feed (hrp_chk hrp) gs)))"

lemma groups_all:
  "length (groups (len + 1) 0 len d 0) = (8 * len + 4) div 5"
  "\<forall>t<5 * length (groups (len + 1) 0 len d 0). gbit (groups (len + 1) 0 len d 0) t = (t < 8 * len \<and> bbit d t)"
  "\<forall>g\<in>set (groups (len + 1) 0 len d 0). unat g < 32"
  using groups_stream[of "len + 1" 0 len "[]" 0 d] by simp_all

lemma ver_less: "bech32_ver d0 \<le> 16 \<Longrightarrow> unat (bech32_ver d0) < 32"
  by (simp add: word_le_nat_alt)

lemma hrp_chars:
  "length hrp \<le> 84 \<Longrightarrow>
   (84 < length hrp \<or> (\<exists>c\<in>set hrp. (of_char c :: nat) < 33 \<or> 126 < (of_char c :: nat) \<or> isupper c)) =
     (\<not> (\<forall>c\<in>set hrp. 33 \<le> (of_char c :: nat) \<and> (of_char c :: nat) \<le> 126 \<and> \<not> isupper c))"
proof -
  assume "length hrp \<le> 84"
  moreover have "(x < 33 \<or> 126 < x \<or> u) = (\<not> (33 \<le> x \<and> x \<le> 126 \<and> \<not> u))" for x :: nat and u
    by auto
  ultimately show ?thesis by simp
qed

text \<open>Up to the terminator the encoder stays within 91 characters when the digits leave the room.\<close>

lemma groups_length_le: "len \<le> 40 \<Longrightarrow> length (groups (len + 1) 0 len d 0) \<le> 64"
  unfolding groups_all(1) by linarith

lemma BRBech32Encode_to_nul:
  assumes "length hrp \<le> 19" "2 + unat (data ! 1) \<le> length data" "bech32_valid hrp data"
  shows "BRBech32Encode hrp data =
    rbind (addr_put (bech32_text hrp data) CHR 0x00) (\<lambda>full. Inr (length full, Some (bech32_text hrp data)))"
proof -
  let ?len = "unat (data ! 1)" and ?ver = "bech32_ver (data ! 0)"
  let ?gs = "groups (?len + 1) 0 ?len (drop 2 data) 0"
  have get: "data_get data 0 = Inr (data ! 0)" "data_get data 1 = Inr (data ! 1)"
    using assms(2) by (auto simp: data_get_def)
  have len: "2 \<le> ?len" "?len \<le> 40" using assms(3) by (auto simp: bech32_valid_def)
  note lgs = groups_length_le[OF len(2), of "drop 2 data"]
  have em: "bech32_emit ?ver (hrp_chk hrp, hrp @ ''1'') = Inr (feed (hrp_chk hrp) ?ver, hrp @ ''1'' @ [chr ?ver])"
    using assms(1) by (simp add: bech32_emit_room)
  have bs: "bech32_bytes (?len + 1) 0 ?len data 0 (feed (hrp_chk hrp) ?ver, hrp @ ''1'' @ [chr ?ver]) =
      Inr (foldl feed (hrp_chk hrp) (?ver # ?gs), hrp @ ''1'' @ map chr (?ver # ?gs))"
    using bech32_bytes_groups[of "hrp @ ''1'' @ [chr ?ver]" "?len + 1" 0 ?len data 0] assms lgs by simp
  let ?chk = "foldl feed (hrp_chk hrp) (?ver # ?gs)"
  have su: "bech32_sum ((polymod ^^ 6) ?chk XOR 1) [5, 4, 3, 2, 1, 0] (hrp @ ''1'' @ map chr (?ver # ?gs)) =
      Inr (bech32_text hrp data)"
    by (subst bech32_sum_room)
      (use assms(1) lgs in \<open>simp_all add: bech32_text_def bech32_checks_def Let_def\<close>)
  have nosize: "\<not> (16 < ?ver \<or> ?len < 2 \<or> 40 < ?len \<or> 91 \<le> length (hrp @ ''1'') + 1 + ?len + 6)"
    using assms(3) len assms(1) by (auto simp: bech32_valid_def)
  have ch: "(\<forall>c\<in>set hrp. 33 \<le> (of_char c :: nat) \<and> (of_char c :: nat) \<le> 126 \<and> \<not> isupper c)"
    "\<not> (OP_0 < data ! 0 \<and> data ! 0 < OP_1)"
    using assms(3) by (auto simp: bech32_valid_def)
  have ap: "addr_put hrp CHR ''1'' = Inr (hrp @ ''1'')" using assms(1) by (simp add: addr_put_def)
  have le: "length hrp \<le> 84" using assms(1) by simp
  show ?thesis
    unfolding BRBech32Encode_def hrp_chars[OF le] Let_def ap get rbind_Inr bech32_ver_def[symmetric]
      if_not_P[OF nosize] if_not_P[OF ch(2)] em bs prod.case su
    using ch(1) by simp
qed

lemma BRBech32Encode_invalid:
  assumes "length hrp \<le> 84" "2 + unat (data ! 1) \<le> length data" "\<not> bech32_valid hrp data"
  shows "BRBech32Encode hrp data = Inr (0, None)"
proof -
  have get: "data_get data 0 = Inr (data ! 0)" "data_get data 1 = Inr (data ! 1)"
    using assms(2) by (auto simp: data_get_def)
  show ?thesis
    using assms get unfolding BRBech32Encode_def hrp_chars[OF assms(1)] bech32_valid_def
    by (auto simp: addr_put_def Let_def bech32_ver_def[symmetric] not_le)
qed

lemma length_bech32_text:
  "length (bech32_text hrp data) = length hrp + (8 * unat (data ! 1) + 4) div 5 + 8"
  using groups_all(1)[of "unat (data ! 1)" "drop 2 data"]
  by (simp add: bech32_text_def bech32_checks_def Let_def)

lemma BRBech32Decode_text:
  assumes "1 \<le> length hrp" "length hrp \<le> 18" "2 + unat (data ! 1) \<le> length data" "bech32_valid hrp data"
  shows "BRBech32Decode (bech32_text hrp data) =
    Inr (2 + unat (data ! 1), Some (hrp, take (2 + unat (data ! 1)) data))"
proof -
  let ?len = "unat (data ! 1)" and ?ver = "bech32_ver (data ! 0)"
  let ?gs = "groups (?len + 1) 0 ?len (drop 2 data) 0"
  let ?ck = "bech32_checks (foldl feed (hrp_chk hrp) (?ver # ?gs))"
  let ?addr = "bech32_text hrp data"
  have addr: "?addr = hrp @ CHR ''1'' # map chr (?ver # ?gs @ ?ck)" by (simp add: bech32_text_def Let_def)
  have len: "2 \<le> ?len" "?len \<le> 40" and ver: "unat ?ver < 32" "?ver \<le> 16"
    and hrp: "\<forall>c\<in>set hrp. 33 \<le> (of_char c :: nat) \<and> (of_char c :: nat) \<le> 126 \<and> \<not> isupper c"
    and d0: "\<not> (OP_0 < data ! 0 \<and> data ! 0 < OP_1)"
    using assms(4) ver_less by (auto simp: bech32_valid_def)
  have small: "\<forall>g\<in>set (?ver # ?gs @ ?ck). unat g < 32"
    using ver groups_all(3) checks_less by auto
  have lgs: "length ?gs = (8 * ?len + 4) div 5" "length ?gs \<le> 64" "length ?ck = 6"
    using groups_all(1)[of ?len "drop 2 data"] len by (simp_all add: bech32_checks_def)
  have laddr: "length ?addr = length hrp + 1 + 1 + length ?gs + 6" using lgs by (simp add: addr)
  have range: "\<not> (\<exists>c\<in>set ?addr. (of_char c :: nat) < 33 \<or> 126 < (of_char c :: nat))"
  proof -
    have "33 \<le> (of_char c :: nat) \<and> (of_char c :: nat) \<le> 126" if "c \<in> set (map chr (?ver # ?gs @ ?ck))" for c
      using that small chr_props(1,2) by auto
    moreover have "33 \<le> (of_char CHR ''1'' :: nat) \<and> (of_char CHR ''1'' :: nat) \<le> 126" by code_simp
    ultimately have "\<forall>c\<in>set ?addr. 33 \<le> (of_char c :: nat) \<and> (of_char c :: nat) \<le> 126"
      using hrp unfolding addr set_append list.set(2) by blast
    then show ?thesis by (meson leD)
  qed
  have noupper: "\<not> (\<exists>c\<in>set ?addr. isupper c)"
  proof -
    have "\<not> isupper c" if "c \<in> set (map chr (?ver # ?gs @ ?ck))" for c
      using that small chr_props(3) by auto
    moreover have "\<not> isupper CHR ''1''" by code_simp
    ultimately show ?thesis using hrp unfolding addr set_append list.set(2) by blast
  qed
  have "CHR ''1'' \<notin> set (map chr (?ver # ?gs @ ?ck))"
    using small chr_props(4) by fastforce
  then have sep: "bech32_sep ?addr (length ?addr) = length hrp"
    unfolding addr by (intro bech32_sep_hrp) (use assms(1) in auto)
  have sizes: "\<not> (length ?addr < 8 \<or> 90 < length ?addr \<or> length hrp < 1 \<or> length ?addr < length hrp + 2 + 6 \<or>
      ((\<exists>c\<in>set ?addr. isupper c) \<and> (\<exists>c\<in>set ?addr. islower c)))"
  proof -
    have "4 \<le> length ?gs" unfolding lgs(1) using len by linarith
    then have "\<not> length ?addr < 8" "\<not> 90 < length ?addr" "\<not> length hrp < 1"
        "\<not> length ?addr < length hrp + 2 + 6"
      using laddr lgs(2) assms(1,2) by linarith+
    then show ?thesis using noupper by blast
  qed
  let ?P = "\<lambda>t. t < 8 * ?len \<and> bbit (drop 2 data) t"
  obtain buf where buf: "bech32_digits (length ?addr) (length hrp + 2) 0 (map chr ?gs @ map chr ?ck)
       (feed (hrp_chk hrp) ?ver) ?ver (replicate 52 0) =
      bech32_digits (length ?addr) (length hrp + 2 + length ?gs) (0 + int (length ?gs)) (map chr ?ck)
       (foldl feed (feed (hrp_chk hrp) ?ver) ?gs) ?ver buf"
     "length buf = 52" "\<forall>t<416. bbit buf t = (t < 5 * length ?gs \<and> ?P t)"
  proof -
    have "\<exists>buf'. bech32_digits (length ?addr) (length hrp + 2) 0 (map chr ?gs @ map chr ?ck)
       (feed (hrp_chk hrp) ?ver) ?ver (replicate 52 0) =
      bech32_digits (length ?addr) (length hrp + 2 + length ?gs) (0 + int (length ?gs)) (map chr ?ck)
       (foldl feed (feed (hrp_chk hrp) ?ver) ?gs) ?ver buf' \<and> length buf' = 52 \<and>
       (\<forall>t<416. bbit buf' t = (t < 5 * (nat 0 + length ?gs) \<and> ?P t))"
      by (rule bech32_digits_groups[where sep = "length hrp"])
        (use laddr lgs assms(1,2) groups_all(2,3) in \<open>auto simp: bbit_def\<close>)
    then show ?thesis using that by auto
  qed
  have dig: "bech32_digits (length ?addr) (length hrp + 1) (- 1) (drop (length hrp + 1) ?addr) (hrp_chk hrp) 0xff
      (replicate 52 0) = Inr (Some (1, ?ver, buf))"
  proof -
    have "drop (length hrp + 1) ?addr = chr ?ver # map chr ?gs @ map chr ?ck" by (simp add: addr)
    then show ?thesis
      using bech32_value_chr[OF ver(1)] buf(1) checks_valid[of "foldl feed (hrp_chk hrp) (?ver # ?gs)"]
        bech32_digits_checks[of ?ck "int (length ?gs)" "length ?addr" "length hrp + 2 + length ?gs"]
        checks_less laddr
      by (simp add: Let_def feed_def)
  qed
  have blen: "(length ?addr - (length hrp + 2 + 6)) * 5 div 8 = ?len"
    unfolding laddr lgs(1) by (rule div_nat_eqI) auto
  have prog: "take ?len buf = take ?len (drop 2 data)"
  proof (rule nth_equalityI)
    fix i assume "i < length (take ?len buf)"
    then have i: "i < ?len" by simp
    have "buf ! i = drop 2 data ! i"
    proof (rule bit_word_eqI)
      fix n assume n: "n < LENGTH(8)"
      have t: "7 - n < 8" "8 * i + (7 - n) < 416" "8 * i + (7 - n) < 8 * ?len" "8 * i + (7 - n) < 5 * length ?gs"
        "7 - (7 - n) = n"
        using n i len unfolding lgs(1) by auto
      show "bit (buf ! i) n = bit (drop 2 data ! i) n"
        using buf(3)[rule_format, OF t(2)] t(3,4) unfolding bbit_at[OF t(1)] t(5) by simp
    qed
    then show "take ?len buf ! i = take ?len (drop 2 data) ! i" using i by simp
  qed (use buf(2) len assms(3) in auto)
  have head: "(if ?ver = 0 then OP_0 else ?ver + OP_1 - 1) = data ! 0"
  proof (cases "OP_1 \<le> data ! 0")
    case True
    have "data ! 0 + 1 - OP_1 \<noteq> 0"
    proof
      assume "data ! 0 + 1 - OP_1 = 0"
      then have "data ! 0 = OP_1 - 1" by (simp add: algebra_simps)
      then show False using True by (simp add: OP_1_def)
    qed
    then show ?thesis using True by (simp add: bech32_ver_def)
  next
    case False
    then have "\<not> OP_0 < data ! 0" using d0 by auto
    then show ?thesis using False by (simp add: bech32_ver_def OP_0_def word_gt_0)
  qed
  have "take (2 + ?len) data = data ! 0 # data ! 1 # take ?len (drop 2 data)"
    using assms(3) by (cases data; cases "tl data") auto
  moreover have "(of_nat ?len :: u8) = data ! 1" by simp
  ultimately show ?thesis
    unfolding BRBech32Decode_def if_not_P[OF range] Let_def sep if_not_P[OF sizes] blen
    using dig prog head len ver assms(2) hrp
    by (simp add: addr tolower_id map_idI not_less)
qed

section \<open>Properties\<close>

text \<open>
  C7: \<open>BRBech32Decode\<close> returns for every string: no digit is stored outside \<open>buf\<close>, and the assertions on
  the lengths hold when they are reached.
\<close>

theorem BRBech32Decode_total:
  "\<exists>len out. BRBech32Decode addr = Inr (len, out)"
  using BRBech32Decode_safe[of addr] by auto

text \<open>
  C8: bech32 round trip: for a human readable part of 1 to 18 characters the encoder stays in its
  buffer, refuses exactly the inputs that are not valid, and what it writes is decoded to the
  human readable part and the witness program; in particular the checksum is accepted.
\<close>

theorem BRBech32_roundtrip:
  assumes "1 \<le> length hrp" "length hrp \<le> 18" "2 + unat (data ! 1) \<le> length data"
  shows "(\<not> bech32_valid hrp data \<longrightarrow> BRBech32Encode hrp data = Inr (0, None)) \<and>
    (bech32_valid hrp data \<longrightarrow> (\<exists>addr. BRBech32Encode hrp data = Inr (length addr + 1, Some addr) \<and>
       length addr \<le> 90 \<and>
       BRBech32Decode addr = Inr (2 + unat (data ! 1), Some (hrp, take (2 + unat (data ! 1)) data))))"
proof (intro conjI impI)
  assume "\<not> bech32_valid hrp data"
  then show "BRBech32Encode hrp data = Inr (0, None)"
    using assms(2,3) by (intro BRBech32Encode_invalid) auto
next
  assume v: "bech32_valid hrp data"
  then have "unat (data ! 1) \<le> 40" by (simp add: bech32_valid_def)
  then have "length (bech32_text hrp data) \<le> 90"
    unfolding length_bech32_text using assms(2) by linarith
  then show "\<exists>addr. BRBech32Encode hrp data = Inr (length addr + 1, Some addr) \<and> length addr \<le> 90 \<and>
      BRBech32Decode addr = Inr (2 + unat (data ! 1), Some (hrp, take (2 + unat (data ! 1)) data))"
    using BRBech32Encode_to_nul[OF _ assms(3) v] assms(2) BRBech32Decode_text[OF assms v]
    by (intro exI[of _ "bech32_text hrp data"]) (simp add: addr_put_def)
qed

theorem BRBech32_roundtrip_witness:
  "\<exists>addr. BRBech32Encode ''bc'' [0, 3, 7, 8, 9] = Inr (length addr + 1, Some addr) \<and>
     BRBech32Decode addr = Inr (5, Some (''bc'', [0, 3, 7, 8, 9]))"
proof -
  have "bech32_valid ''bc'' [0, 3, 7, 8, 9]" by code_simp
  then show ?thesis using BRBech32_roundtrip[of "''bc''" "[0, 3, 7, 8, 9]"] by auto
qed

text \<open>
  C9: the length check of \<open>BRBech32Encode\<close> counts the bytes of the program, not its 5 bit digits: with a
  human readable part of 19 characters and a program of 40 bytes it writes beyond \<open>addr[91]\<close>.
\<close>

theorem BRBech32Encode_overflow:
  assumes "length hrp = 19" "bech32_valid hrp data" "data ! 1 = 40" "length data = 42"
  shows "BRBech32Encode hrp data = Inl OutOfBounds"
proof -
  have "length (bech32_text hrp data) = 91" using assms by (simp add: length_bech32_text)
  then show ?thesis
    using BRBech32Encode_to_nul[of hrp data] assms by (simp add: addr_put_def)
qed

theorem BRBech32Encode_overflow_witness:
  "BRBech32Encode (replicate 19 CHR ''b'') (0x51 # 40 # replicate 40 0) = Inl OutOfBounds"
proof (rule BRBech32Encode_overflow)
  show "bech32_valid (replicate 19 CHR ''b'') (0x51 # 40 # replicate 40 0)" by code_simp
qed simp_all

end
