(* ===== verification/BRAddress.thy ===== *)
theory BRAddress
  imports BRBase58 BRBech32
begin

text \<open>
  \<open>BRAddress.c\<close>: variable length integers, script elements, and the translation between scripts and
  addresses. A pointer to a script element is its offset in the script. Every read of a script is
  checked against its length. An output buffer is its length, or \<open>None\<close> for a null pointer. The build
  is not a test net build.
\<close>

section \<open>Variable length integers\<close>

definition VAR_INT16_HEADER :: u8 where "VAR_INT16_HEADER = 0xfd"
definition VAR_INT32_HEADER :: u8 where "VAR_INT32_HEADER = 0xfe"
definition VAR_INT64_HEADER :: u8 where "VAR_INT64_HEADER = 0xff"

text \<open>
  \<open>BRVarInt buf\<close> is the value and the length of the integer at the start of \<open>buf\<close>, where \<open>bufLen\<close> is
  the length of the list. A null \<open>buf\<close> is the empty list: both give 0 and the length 1.
\<close>

definition BRVarInt :: "bytes \<Rightarrow> u64 \<times> nat" where
  "BRVarInt buf =
     (let h = (if 1 \<le> length buf then buf ! 0 else 0) in
      if h = VAR_INT16_HEADER then
        (if 1 + 2 \<le> length buf then ucast (UInt16GetLE (drop 1 buf)) else 0, 1 + 2)
      else if h = VAR_INT32_HEADER then
        (if 1 + 4 \<le> length buf then ucast (UInt32GetLE (drop 1 buf)) else 0, 1 + 4)
      else if h = VAR_INT64_HEADER then
        (if 1 + 8 \<le> length buf then UInt64GetLE (drop 1 buf) else 0, 1 + 8)
      else (ucast h, 1))"

text \<open>The bytes a variable length integer is written as, and the function that checks the buffer.\<close>

definition varint_bytes :: "u64 \<Rightarrow> bytes" where
  "varint_bytes i =
     (if i < ucast VAR_INT16_HEADER then [ucast i]
      else if i \<le> 0xffff then VAR_INT16_HEADER # UInt16SetLE (ucast i)
      else if i \<le> 0xffffffff then VAR_INT32_HEADER # UInt32SetLE (ucast i)
      else VAR_INT64_HEADER # UInt64SetLE i)"

definition BRVarIntSet :: "nat option \<Rightarrow> u64 \<Rightarrow> nat \<times> bytes option" where
  "BRVarIntSet bufLen i =
     (let n = length (varint_bytes i) in
      case bufLen of
        None \<Rightarrow> (n, None)
      | Some l \<Rightarrow> if n \<le> l then (n, Some (varint_bytes i)) else (0, None))"

definition BRVarIntSize :: "u64 \<Rightarrow> nat" where
  "BRVarIntSize i = fst (BRVarIntSet None i)"

section \<open>Script elements\<close>

definition OP_PUSHDATA1 :: u8 where "OP_PUSHDATA1 = 0x4c"
definition OP_PUSHDATA2 :: u8 where "OP_PUSHDATA2 = 0x4d"
definition OP_PUSHDATA4 :: u8 where "OP_PUSHDATA4 = 0x4e"
definition OP_16 :: u8 where "OP_16 = 0x60"
definition OP_DUP :: u8 where "OP_DUP = 0x76"
definition OP_EQUAL :: u8 where "OP_EQUAL = 0x87"
definition OP_EQUALVERIFY :: u8 where "OP_EQUALVERIFY = 0x88"
definition OP_HASH160 :: u8 where "OP_HASH160 = 0xa9"
definition OP_CHECKSIG :: u8 where "OP_CHECKSIG = 0xac"

text \<open>
  The switch of the loop: the offset after the header, and the length of the data. \<open>len\<close> keeps its
  value from the element before when the length field is cut off.
\<close>

definition script_header :: "bytes \<Rightarrow> nat \<Rightarrow> nat \<Rightarrow> nat \<times> nat" where
  "script_header script off len =
     (let op = script ! off in
      if op = OP_PUSHDATA1 then
        (off + 1 + 1, if off + 1 + 1 \<le> length script then unat (script ! (off + 1)) else len)
      else if op = OP_PUSHDATA2 then
        (off + 1 + 2, if off + 1 + 2 \<le> length script then unat (UInt16GetLE (drop (off + 1) script)) else len)
      else if op = OP_PUSHDATA4 then
        (off + 1 + 4, if off + 1 + 4 \<le> length script then unat (UInt32GetLE (drop (off + 1) script)) else len)
      else (off + 1, if OP_PUSHDATA4 < op then 0 else unat op))"

lemma script_header_less: "off < fst (script_header script off len)"
  by (simp add: script_header_def Let_def)

function script_loop :: "bytes \<Rightarrow> nat \<Rightarrow> nat \<Rightarrow> nat list \<Rightarrow> nat list \<times> nat" where
  "script_loop script off len elems =
     (if off < length script
      then let (off', len') = script_header script off len
           in script_loop script (off' + len') len' (elems @ [off])
      else (elems, off))"
  by pat_completeness auto
termination
proof (relation "measure (\<lambda>(script, off, _, _). length script - off)")
  fix script :: bytes and off len :: nat and elems x off' len'
  assume "off < length script" "x = script_header script off len" "(off', len') = x"
  then have "off < off'" using script_header_less[of off script len] by (metis fst_conv)
  then show "((script, off' + len', len', elems @ [off]), (script, off, len, elems))
      \<in> measure (\<lambda>(script, off, _, _). length script - off)"
    using \<open>off < length script\<close> by auto
qed simp

declare script_loop.simps [simp del]

text \<open>The offsets of the elements that are counted: none when the function returns 0.\<close>

definition BRScriptElements :: "nat option \<Rightarrow> bytes \<Rightarrow> nat list" where
  "BRScriptElements elemsCount script =
     (let (elems, off) = script_loop script 0 0 []
      in if (case elemsCount of None \<Rightarrow> True | Some n \<Rightarrow> length elems \<le> n) \<and> off = length script
         then elems else [])"

definition script_get :: "bytes \<Rightarrow> nat \<Rightarrow> u8 res" where
  "script_get script i = (if i < length script then Inr (script ! i) else Inl OutOfBounds)"

definition script_sub :: "bytes \<Rightarrow> nat \<Rightarrow> nat \<Rightarrow> bytes res" where
  "script_sub script off n =
     (if off + n \<le> length script then Inr (take n (drop off script)) else Inl OutOfBounds)"

definition BRScriptData :: "bytes \<Rightarrow> nat \<Rightarrow> (nat option \<times> nat) res" where
  "BRScriptData script elem =
     rbind (script_get script elem) (\<lambda>op.
     rbind (if op = OP_PUSHDATA1 then
              rbind (script_get script (elem + 1)) (\<lambda>l. Inr (elem + 1 + 1, unat l))
            else if op = OP_PUSHDATA2 then
              rbind (script_sub script (elem + 1) 2) (\<lambda>b. Inr (elem + 1 + 2, unat (UInt16GetLE b)))
            else if op = OP_PUSHDATA4 then
              rbind (script_sub script (elem + 1) 4) (\<lambda>b. Inr (elem + 1 + 4, unat (UInt32GetLE b)))
            else Inr (elem + 1, if OP_PUSHDATA4 < op then 0 else unat op)) (\<lambda>(p, dataLen).
     Inr (if 0 < dataLen then Some p else None, dataLen)))"

definition script_copy :: "bytes \<Rightarrow> nat option \<Rightarrow> nat \<Rightarrow> bytes res" where
  "script_copy script p n =
     (case p of None \<Rightarrow> if n = 0 then Inr [] else Inl NullDeref | Some off \<Rightarrow> script_sub script off n)"

definition push_header :: "nat \<Rightarrow> bytes" where
  "push_header dataLen =
     (if dataLen < unat OP_PUSHDATA1 then [of_nat dataLen]
      else if dataLen < 0xff then [OP_PUSHDATA1, of_nat dataLen]
      else if dataLen < 0xffff then OP_PUSHDATA2 # UInt16SetLE (of_nat dataLen)
      else OP_PUSHDATA4 # UInt32SetLE (of_nat dataLen))"

definition BRScriptPushData :: "nat option \<Rightarrow> bytes \<Rightarrow> nat \<times> bytes option" where
  "BRScriptPushData scriptLen data =
     (let len = length (push_header (length data)) + length data in
      case scriptLen of
        None \<Rightarrow> (len, None)
      | Some n \<Rightarrow> if len \<le> n then (len, Some (push_header (length data) @ data)) else (0, None))"

section \<open>Addresses of scripts\<close>

definition MAX_SCRIPT_LENGTH :: nat where "MAX_SCRIPT_LENGTH = 0x100"
definition BITCOIN_PUBKEY_ADDRESS :: u8 where "BITCOIN_PUBKEY_ADDRESS = 0"
definition BITCOIN_SCRIPT_ADDRESS :: u8 where "BITCOIN_SCRIPT_ADDRESS = 5"

text \<open>The opcodes that the elements begin with; every condition reads them through the pointers.\<close>

definition elem_ops :: "bytes \<Rightarrow> nat list \<Rightarrow> u8 list" where
  "elem_ops script elems = map (\<lambda>e. script ! e) elems"

definition BRAddressFromScriptPubKey :: "nat option \<Rightarrow> bytes \<Rightarrow> (nat \<times> string option) res" where
  "BRAddressFromScriptPubKey addrLen script =
     (if length script = 0 \<or> MAX_SCRIPT_LENGTH < length script then Inr (0, None)
      else
        let elems = BRScriptElements (Some (length (BRScriptElements None script))) script;
            ops = elem_ops script elems; count = length elems
        in
        if \<exists>e\<in>set elems. length script \<le> e then Inl OutOfBounds
        else if count = 5 \<and> ops ! 0 = OP_DUP \<and> ops ! 1 = OP_HASH160 \<and> ops ! 2 = 20 \<and>
           ops ! 3 = OP_EQUALVERIFY \<and> ops ! 4 = OP_CHECKSIG then
          rbind (BRScriptData script (elems ! 2)) (\<lambda>(d, l).
          rbind (script_copy script d 20) (\<lambda>hash.
          Inr (BRBase58CheckEncode addrLen (BITCOIN_PUBKEY_ADDRESS # hash))))
        else if count = 3 \<and> ops ! 0 = OP_HASH160 \<and> ops ! 1 = 20 \<and> ops ! 2 = OP_EQUAL then
          rbind (BRScriptData script (elems ! 1)) (\<lambda>(d, l).
          rbind (script_copy script d 20) (\<lambda>hash.
          Inr (BRBase58CheckEncode addrLen (BITCOIN_SCRIPT_ADDRESS # hash))))
        else if count = 2 \<and> (ops ! 0 = 65 \<or> ops ! 0 = 33) \<and> ops ! 1 = OP_CHECKSIG then
          rbind (BRScriptData script (elems ! 0)) (\<lambda>(d, l).
          rbind (script_copy script d l) (\<lambda>key.
          Inr (BRBase58CheckEncode addrLen (BITCOIN_PUBKEY_ADDRESS # BRHash160 key))))
        else if count = 2 \<and> ((ops ! 0 = OP_0 \<and> (ops ! 1 = 20 \<or> ops ! 1 = 32)) \<or>
             (OP_1 \<le> ops ! 0 \<and> ops ! 0 \<le> OP_16 \<and> 2 \<le> ops ! 1 \<and> ops ! 1 \<le> 40)) then
          rbind (BRBech32Encode ''bc'' script) (\<lambda>(r, a).
            case addrLen of
              None \<Rightarrow> Inr (r, None)
            | Some n \<Rightarrow> if n < r then Inr (0, None) else Inr (r, a))
        else Inr (0, None))"

definition BRAddressFromScriptSig :: "nat option \<Rightarrow> bytes \<Rightarrow> (nat \<times> string option) res" where
  "BRAddressFromScriptSig addrLen script =
     (if length script = 0 \<or> MAX_SCRIPT_LENGTH < length script then Inr (0, None)
      else
        let elems = BRScriptElements (Some (length (BRScriptElements None script))) script;
            ops = elem_ops script elems; count = length elems
        in
        if \<exists>e\<in>set elems. length script \<le> e then Inl OutOfBounds
        else if 2 \<le> count \<and> ops ! (count - 2) \<le> OP_PUSHDATA4 \<and>
           (ops ! (count - 1) = 65 \<or> ops ! (count - 1) = 33) then
          rbind (BRScriptData script (elems ! (count - 1))) (\<lambda>(d, l).
            let d = (if l \<noteq> 65 \<and> l \<noteq> 33 then None else d)
            in case d of
                 None \<Rightarrow> Inr (0, None)
               | Some p \<Rightarrow> rbind (script_sub script p l) (\<lambda>key.
                   Inr (BRBase58CheckEncode addrLen (BITCOIN_PUBKEY_ADDRESS # BRHash160 key))))
        else if 2 \<le> count \<and> ops ! (count - 2) \<le> OP_PUSHDATA4 \<and> ops ! (count - 1) \<le> OP_PUSHDATA4 \<and>
           0 < ops ! (count - 1) then
          rbind (BRScriptData script (elems ! (count - 1))) (\<lambda>(d, l).
            case d of
              None \<Rightarrow> Inr (0, None)
            | Some p \<Rightarrow> rbind (script_sub script p l) (\<lambda>redeem.
                Inr (BRBase58CheckEncode addrLen (BITCOIN_SCRIPT_ADDRESS # BRHash160 redeem))))
        else Inr (0, None))"

definition BRAddressFromWitness :: "nat option \<Rightarrow> bytes \<Rightarrow> nat \<times> string option" where
  "BRAddressFromWitness addrLen witness = (0, None)"

section \<open>Scripts of addresses\<close>

definition put_script :: "nat option \<Rightarrow> bytes \<Rightarrow> nat \<times> bytes option" where
  "put_script scriptLen s =
     (case scriptLen of
        None \<Rightarrow> (length s, None)
      | Some n \<Rightarrow> if length s \<le> n then (length s, Some s) else (0, None))"

definition witness_ok :: "string \<Rightarrow> bytes \<Rightarrow> bool" where
  "witness_ok hrp data \<longleftrightarrow> hrp = ''bc'' \<and> (data ! 0 \<noteq> OP_0 \<or> data ! 1 = 20 \<or> data ! 1 = 32)"

definition BRAddressScriptPubKey :: "nat option \<Rightarrow> string \<Rightarrow> (nat \<times> bytes option) res" where
  "BRAddressScriptPubKey scriptLen addr =
     (case BRBase58CheckDecode (Some 42) addr of
        (len, out) \<Rightarrow>
          if len = 21 then
            (let data = (case out of None \<Rightarrow> [] | Some d \<Rightarrow> d) in
             if data ! 0 = BITCOIN_PUBKEY_ADDRESS then
               Inr (put_script scriptLen
                 ([OP_DUP, OP_HASH160, 20] @ take 20 (drop 1 data) @ [OP_EQUALVERIFY, OP_CHECKSIG]))
             else if data ! 0 = BITCOIN_SCRIPT_ADDRESS then
               Inr (put_script scriptLen ([OP_HASH160, 20] @ take 20 (drop 1 data) @ [OP_EQUAL]))
             else Inr (0, None))
          else
            rbind (BRBech32Decode addr) (\<lambda>(dataLen, out).
              case out of
                None \<Rightarrow> Inr (0, None)
              | Some (hrp, data) \<Rightarrow>
                  if 2 < dataLen \<and> witness_ok hrp data then Inr (put_script scriptLen (take dataLen data))
                  else Inr (0, None)))"

definition BRAddressIsValid :: "string \<Rightarrow> bool res" where
  "BRAddressIsValid addr =
     (case BRBase58CheckDecode (Some 42) addr of
        (len, out) \<Rightarrow>
          if len = 21 then
            (let data = (case out of None \<Rightarrow> [] | Some d \<Rightarrow> d)
             in Inr (data ! 0 = BITCOIN_PUBKEY_ADDRESS \<or> data ! 0 = BITCOIN_SCRIPT_ADDRESS))
          else
            rbind (BRBech32Decode addr) (\<lambda>(dataLen, out).
              case out of
                None \<Rightarrow> Inr False
              | Some (hrp, data) \<Rightarrow> Inr (2 < dataLen \<and> witness_ok hrp data)))"

definition BRAddressHash160 :: "string \<Rightarrow> bytes option" where
  "BRAddressHash160 addr =
     (case BRBase58CheckDecode (Some 21) addr of
        (len, Some data) \<Rightarrow> if len = 21 then Some (take 20 (drop 1 data)) else None
      | (len, None) \<Rightarrow> None)"

section \<open>Hashing and equality\<close>

text \<open>
  A \<open>BRAddress\<close> is an array of 75 characters; \<open>strncmp\<close> looks at no more of them. The hash goes to the
  terminator, which the array contains.
\<close>

definition BRAddressHash :: "string \<Rightarrow> nat" where
  "BRAddressHash addr = unat (BRMurmur3_32 (map of_char (take 75 addr)) 0)"

definition BRAddressEq :: "string \<Rightarrow> string \<Rightarrow> bool" where
  "BRAddressEq addr otherAddr \<longleftrightarrow> addr = otherAddr \<or> take 75 addr = take 75 otherAddr"

end
