(* ===== verification/BRAddressCorrect.thy ===== *)
theory BRAddressCorrect
  imports BRAddress BRBech32Correct BRSetCorrect
begin

text \<open>
  Correctness of \<open>BRAddress.c\<close>: the round trip of variable length integers and data pushes, the safety of
  the script parser on every script, and the round trip between standard scripts and addresses.
\<close>

section \<open>Variable length integers\<close>

lemma ucast_ucast_small: "unat (i :: u64) < 2 ^ LENGTH('b) \<Longrightarrow> ucast (ucast i :: 'b::len word) = i"
  by (rule unsigned_word_eqI [where 'a = nat])
    (use unat_less_power[of i] in \<open>simp add: unat_ucast\<close>)

lemma length_varint_bytes: "1 \<le> length (varint_bytes i)" "length (varint_bytes i) \<le> 9"
  by (simp_all add: varint_bytes_def)

lemma BRVarInt_bytes: "BRVarInt (varint_bytes i @ rest) = (i, length (varint_bytes i))"
proof -
  consider "i < 0xfd" | "\<not> i < 0xfd" "i \<le> 0xffff" | "\<not> i < 0xfd" "\<not> i \<le> 0xffff" "i \<le> 0xffffffff"
    | "\<not> i < 0xfd" "\<not> i \<le> 0xffff" "\<not> i \<le> 0xffffffff" by blast
  then show ?thesis
  proof cases
    case 1
    then have u: "unat i < 0xfd" by (simp add: word_less_nat_alt)
    then have "unat (ucast i :: u8) < 0xfd" by (simp add: unat_ucast)
    then have "(ucast i :: u8) \<noteq> 0xfd" "(ucast i :: u8) \<noteq> 0xfe" "(ucast i :: u8) \<noteq> 0xff"
      by auto
    moreover have "ucast (ucast i :: u8) = i" using u by (intro ucast_ucast_small) simp
    ultimately show ?thesis
      using 1 by (simp add: varint_bytes_def BRVarInt_def VAR_INT16_HEADER_def VAR_INT32_HEADER_def
          VAR_INT64_HEADER_def)
  next
    case 2
    then have "ucast (ucast i :: u16) = i" by (intro ucast_ucast_small) (simp add: word_le_nat_alt)
    then show ?thesis
      using 2 by (simp add: varint_bytes_def BRVarInt_def VAR_INT16_HEADER_def)
  next
    case 3
    then have "ucast (ucast i :: u32) = i" by (intro ucast_ucast_small) (simp add: word_le_nat_alt)
    then show ?thesis
      using 3 by (simp add: varint_bytes_def BRVarInt_def VAR_INT16_HEADER_def VAR_INT32_HEADER_def)
  next
    case 4
    then show ?thesis
      by (simp add: varint_bytes_def BRVarInt_def VAR_INT16_HEADER_def VAR_INT32_HEADER_def
          VAR_INT64_HEADER_def)
  qed
qed

section \<open>Script elements lie in the script\<close>

lemma script_loop_spec:
  assumes "script_loop script off len acc = (elems, fin)"
  shows "off \<le> fin \<and> (\<exists>new. elems = acc @ new \<and>
    (\<forall>e\<in>set new. e < length script \<and>
      (\<exists>l. fst (script_header script e l) + snd (script_header script e l) \<le> fin)))"
  using assms
proof (induction script off len acc rule: script_loop.induct)
  case (1 script off len acc)
  show ?case
  proof (cases "off < length script")
    case False
    then show ?thesis using 1(2) by (simp add: script_loop.simps[of script off])
  next
    case True
    obtain off' len' where h: "script_header script off len = (off', len')" by fastforce
    then have loop: "script_loop script (off' + len') len' (acc @ [off]) = (elems, fin)"
      using 1(2) True by (simp add: script_loop.simps[of script off])
    from 1(1)[OF True h[symmetric] refl loop] obtain new where
      new: "off' + len' \<le> fin" "elems = (acc @ [off]) @ new"
      "\<forall>e\<in>set new. e < length script \<and>
        (\<exists>l. fst (script_header script e l) + snd (script_header script e l) \<le> fin)" by blast
    have "off < off'" using script_header_less[of off script len] h by simp
    moreover have "\<exists>l. fst (script_header script off l) + snd (script_header script off l) \<le> fin"
      using new(1) h by (intro exI[of _ len]) simp
    ultimately show ?thesis using new True by (intro conjI exI[of _ "off # new"]) auto
  qed
qed

text \<open>An element that ends in the script is read by \<open>BRScriptData\<close>, and its data is in the script.\<close>

definition elem_ok :: "bytes \<Rightarrow> nat \<Rightarrow> bool" where
  "elem_ok script e \<longleftrightarrow> e < length script \<and>
     (\<exists>p l. BRScriptData script e = Inr (if 0 < l then Some p else None, l) \<and> e < p \<and> p + l \<le> length script)"

lemma BRScriptElements_ok: "e \<in> set (BRScriptElements n script) \<Longrightarrow> elem_ok script e"
proof -
  assume e: "e \<in> set (BRScriptElements n script)"
  obtain elems fin where loop: "script_loop script 0 0 [] = (elems, fin)" by fastforce
  have fin: "fin = length script" "e \<in> set elems"
    using e loop by (auto simp: BRScriptElements_def split: if_splits)
  then obtain l where el: "e < length script"
    and h: "fst (script_header script e l) + snd (script_header script e l) \<le> length script"
    using script_loop_spec[OF loop] by auto
  let ?h = "script_header script e l"
  have "BRScriptData script e = Inr (if 0 < snd ?h then Some (fst ?h) else None, snd ?h)"
  proof -
    consider "script ! e = OP_PUSHDATA1" | "script ! e = OP_PUSHDATA2" | "script ! e = OP_PUSHDATA4"
      | "script ! e \<noteq> OP_PUSHDATA1" "script ! e \<noteq> OP_PUSHDATA2" "script ! e \<noteq> OP_PUSHDATA4" by blast
    then show ?thesis
    proof cases
      case 1
      then have "e + 1 < length script" using h by (simp add: script_header_def)
      then show ?thesis
        using 1 by (simp add: BRScriptData_def script_header_def script_get_def)
    next
      case 2
      then have "e + 1 + 2 \<le> length script" using h by (simp add: script_header_def OP_PUSHDATA1_def OP_PUSHDATA2_def)
      then show ?thesis
        using 2 by (simp add: BRScriptData_def script_header_def script_get_def script_sub_def
            OP_PUSHDATA1_def OP_PUSHDATA2_def byte_simps)
    next
      case 3
      then have "e + 1 + 4 \<le> length script"
        using h by (simp add: script_header_def OP_PUSHDATA1_def OP_PUSHDATA2_def OP_PUSHDATA4_def)
      then show ?thesis
        using 3 by (simp add: BRScriptData_def script_header_def script_get_def script_sub_def
            OP_PUSHDATA1_def OP_PUSHDATA2_def OP_PUSHDATA4_def byte_simps)
    next
      case 4
      then show ?thesis using el by (simp add: BRScriptData_def script_header_def script_get_def)
    qed
  qed
  then show "elem_ok script e"
    using el h script_header_less[of e script l] unfolding elem_ok_def
    by (intro conjI exI[of _ "fst ?h"] exI[of _ "snd ?h"]) auto
qed

section \<open>The script functions return\<close>

lemma script_copy_ok:
  "BRScriptData script e = Inr (if 0 < l then Some p else None, l) \<Longrightarrow> p + l \<le> length script \<Longrightarrow>
   script_copy script (if 0 < l then Some p else None) l = Inr (take l (drop p script))"
  by (cases "l = 0") (auto simp: script_copy_def script_sub_def)

lemma elem_data:
  assumes "elem_ok script e"
  obtains d l bs where "BRScriptData script e = Inr (d, l)" "script_copy script d l = Inr bs" "length bs = l"
    and "\<And>p. d = Some p \<Longrightarrow> script_sub script p l = Inr bs"
proof -
  obtain p l where r: "BRScriptData script e = Inr (if 0 < l then Some p else None, l)"
    and le: "p + l \<le> length script"
    using assms by (auto simp: elem_ok_def)
  have "script_sub script q l = Inr (take l (drop p script))"
    if "(if 0 < l then Some p else None) = Some q" for q
    using that le by (simp add: script_sub_def split: if_splits)
  then show thesis using that[OF r script_copy_ok[OF r le]] le by simp
qed

lemma elem_data_op:
  assumes "elem_ok script e" "script ! e < OP_PUSHDATA1"
  shows "BRScriptData script e = Inr (if 0 < script ! e then Some (e + 1) else None, unat (script ! e))"
    and "e + 1 + unat (script ! e) \<le> length script"
proof -
  have op: "script ! e \<noteq> OP_PUSHDATA1" "script ! e \<noteq> OP_PUSHDATA2" "script ! e \<noteq> OP_PUSHDATA4"
    "\<not> OP_PUSHDATA4 < script ! e"
    using assms(2) by (auto simp: OP_PUSHDATA1_def OP_PUSHDATA2_def OP_PUSHDATA4_def word_less_nat_alt)
  have e: "e < length script" using assms(1) by (simp add: elem_ok_def)
  show r: "BRScriptData script e = Inr (if 0 < script ! e then Some (e + 1) else None, unat (script ! e))"
    using op e by (simp add: BRScriptData_def script_get_def word_gt_0 unat_gt_0)
  show "e + 1 + unat (script ! e) \<le> length script"
    using assms(1) r e unfolding elem_ok_def
    by (cases "script ! e = 0") (auto simp: word_gt_0 unat_gt_0)
qed

lemma elems_first:
  "script_loop script 0 0 [] = (elems, fin) \<Longrightarrow> 0 < length elems \<Longrightarrow> elems ! 0 = 0 \<and> script \<noteq> []"
proof -
  assume loop: "script_loop script 0 0 [] = (elems, fin)" and pos: "0 < length elems"
  have ne: "script \<noteq> []"
    using loop pos by (auto simp: script_loop.simps[of script 0])
  obtain o1 l1 where h: "script_header script 0 0 = (o1, l1)" by fastforce
  then have "script_loop script (o1 + l1) l1 [0] = (elems, fin)"
    using loop ne by (simp add: script_loop.simps[of script 0])
  from script_loop_spec[OF this] show ?thesis using ne by auto
qed

lemma elems_second:
  assumes loop: "script_loop script 0 0 [] = (elems, fin)" and two: "2 \<le> length elems"
    and op: "script ! 0 = OP_0 \<or> OP_PUSHDATA4 < script ! 0"
  shows "elems ! 1 = 1"
proof -
  have ne: "script \<noteq> []" using elems_first[OF loop] two by fastforce
  have "script_header script 0 0 = (1, 0)"
    using op by (auto simp: script_header_def OP_0_def OP_PUSHDATA1_def OP_PUSHDATA2_def OP_PUSHDATA4_def
        word_less_nat_alt Let_def)
  then have one: "script_loop script 1 0 [0] = (elems, fin)"
    using loop ne by (simp add: script_loop.simps[of script 0])
  have "1 < length script"
    using one two by (auto simp: script_loop.simps[of script "Suc 0"] split: if_splits)
  then obtain o2 l2 where "script_loop script (o2 + l2) l2 [0, 1] = (elems, fin)"
    using one by (auto simp: script_loop.simps[of script "Suc 0"] split: prod.splits)
  from script_loop_spec[OF this] show ?thesis by auto
qed

lemma BRScriptElements_None: "BRScriptElements (Some (length (BRScriptElements None script))) script =
  BRScriptElements None script"
  by (auto simp: BRScriptElements_def split: prod.splits)

lemma BRBech32Encode_returns:
  assumes "length hrp \<le> 18" "2 + unat (data ! 1) \<le> length data"
  shows "\<exists>r. BRBech32Encode hrp data = Inr r"
proof (cases "bech32_valid hrp data")
  case True
  then have "unat (data ! 1) \<le> 40" by (simp add: bech32_valid_def)
  then have "length (bech32_text hrp data) \<le> 90"
    unfolding length_bech32_text using assms(1) by linarith
  then show ?thesis using BRBech32Encode_to_nul[OF _ assms(2) True] assms(1) by (simp add: addr_put_def)
next
  case False
  then show ?thesis using BRBech32Encode_invalid[OF _ assms(2)] assms(1) by simp
qed

lemma if_returns:
  "(c \<Longrightarrow> \<exists>r. x = Inr r) \<Longrightarrow> (\<not> c \<Longrightarrow> \<exists>r. y = Inr r) \<Longrightarrow> \<exists>r. (if c then x else y) = Inr r"
  by simp

lemma BRAddressFromScriptPubKey_returns: "\<exists>r. BRAddressFromScriptPubKey addrLen script = Inr r"
proof (cases "length script = 0 \<or> MAX_SCRIPT_LENGTH < length script")
  case True
  then show ?thesis by (auto simp: BRAddressFromScriptPubKey_def)
next
  case False
  let ?elems = "BRScriptElements None script"
  let ?ops = "elem_ops script ?elems"
  have ok: "elem_ok script (?elems ! i)" if "i < length ?elems" for i
    using BRScriptElements_ok nth_mem[OF that] by blast
  have nofault: "\<not> (\<exists>e\<in>set ?elems. length script \<le> e)"
    using BRScriptElements_ok by (fastforce simp: elem_ok_def)
  have op: "?ops ! i = script ! (?elems ! i)" if "i < length ?elems" for i
    using that by (simp add: elem_ops_def)
  have twenty: "\<exists>bs. rbind (BRScriptData script (?elems ! i)) (\<lambda>(d, l). rbind (script_copy script d 20) f) = f bs"
    if "i < length ?elems" "?ops ! i = 20" for i f
  proof -
    have op20: "script ! (?elems ! i) = 20" using op that by simp
    note d = elem_data_op[OF ok[OF that(1)]]
    have "script_copy script (Some (?elems ! i + 1)) 20 = Inr (take 20 (drop (?elems ! i + 1) script))"
      using d(2) op20 by (simp add: script_copy_def script_sub_def OP_PUSHDATA1_def)
    then show ?thesis using d(1) op20 by (auto simp: OP_PUSHDATA1_def)
  qed
  have anylen: "\<exists>bs. rbind (BRScriptData script (?elems ! i)) (\<lambda>(d, l). rbind (script_copy script d l) f) = f bs"
    if "i < length ?elems" for i f
    by (rule elem_data[OF ok[OF that]]) auto
  have wit: "\<exists>r. BRBech32Encode ''bc'' script = Inr r"
    if "length ?elems = 2" "?ops ! 0 = OP_0 \<or> OP_1 \<le> ?ops ! 0" "?ops ! 1 \<le> 40"
  proof -
    obtain elems fin where loop: "script_loop script 0 0 [] = (elems, fin)" by fastforce
    have el: "elems = ?elems" using loop that(1) by (auto simp: BRScriptElements_def split: if_splits)
    have first: "?elems ! 0 = 0" using elems_first[OF loop] that(1) el by simp
    have "script ! 0 = OP_0 \<or> OP_PUSHDATA4 < script ! 0"
      using that op[of 0] first
      by (auto simp: OP_1_def OP_PUSHDATA4_def word_less_nat_alt word_le_nat_alt)
    then have second: "?elems ! 1 = 1" using elems_second[OF loop] that(1) el by simp
    have "script ! 1 < OP_PUSHDATA1"
      using that op[of 1] second by (auto simp: OP_PUSHDATA1_def word_less_nat_alt word_le_nat_alt)
    then have "2 + unat (script ! 1) \<le> length script"
      using elem_data_op(2)[of script 1] ok[of 1] second that(1) by simp
    then show ?thesis by (intro BRBech32Encode_returns) simp_all
  qed
  show ?thesis
    unfolding BRAddressFromScriptPubKey_def if_not_P[OF False] Let_def BRScriptElements_None
      if_not_P[OF nofault]
  proof (intro if_returns)
    assume "length ?elems = 5 \<and> ?ops ! 0 = OP_DUP \<and> ?ops ! 1 = OP_HASH160 \<and> ?ops ! 2 = 20 \<and>
        ?ops ! 3 = OP_EQUALVERIFY \<and> ?ops ! 4 = OP_CHECKSIG"
    then show "\<exists>r. rbind (BRScriptData script (?elems ! 2)) (\<lambda>(d, l). rbind (script_copy script d 20)
        (\<lambda>hash. Inr (BRBase58CheckEncode addrLen (BITCOIN_PUBKEY_ADDRESS # hash)))) = Inr r"
      using twenty[of 2 "\<lambda>hash. Inr (BRBase58CheckEncode addrLen (BITCOIN_PUBKEY_ADDRESS # hash))"] by auto
  next
    assume "length ?elems = 3 \<and> ?ops ! 0 = OP_HASH160 \<and> ?ops ! 1 = 20 \<and> ?ops ! 2 = OP_EQUAL"
    then show "\<exists>r. rbind (BRScriptData script (?elems ! 1)) (\<lambda>(d, l). rbind (script_copy script d 20)
        (\<lambda>hash. Inr (BRBase58CheckEncode addrLen (BITCOIN_SCRIPT_ADDRESS # hash)))) = Inr r"
      using twenty[of 1 "\<lambda>hash. Inr (BRBase58CheckEncode addrLen (BITCOIN_SCRIPT_ADDRESS # hash))"] by auto
  next
    assume "length ?elems = 2 \<and> (?ops ! 0 = 65 \<or> ?ops ! 0 = 33) \<and> ?ops ! 1 = OP_CHECKSIG"
    then show "\<exists>r. rbind (BRScriptData script (?elems ! 0)) (\<lambda>(d, l). rbind (script_copy script d l)
        (\<lambda>key. Inr (BRBase58CheckEncode addrLen (BITCOIN_PUBKEY_ADDRESS # BRHash160 key)))) = Inr r"
      using anylen[of 0 "\<lambda>key. Inr (BRBase58CheckEncode addrLen (BITCOIN_PUBKEY_ADDRESS # BRHash160 key))"]
      by auto
  next
    assume "length ?elems = 2 \<and> ((?ops ! 0 = OP_0 \<and> (?ops ! 1 = 20 \<or> ?ops ! 1 = 32)) \<or>
             (OP_1 \<le> ?ops ! 0 \<and> ?ops ! 0 \<le> OP_16 \<and> 2 \<le> ?ops ! 1 \<and> ?ops ! 1 \<le> 40))"
    then obtain r a where "BRBech32Encode ''bc'' script = Inr (r, a)" using wit by fastforce
    then show "\<exists>r. rbind (BRBech32Encode ''bc'' script) (\<lambda>(r, a). case addrLen of None \<Rightarrow> Inr (r, None)
        | Some n \<Rightarrow> if n < r then Inr (0, None) else Inr (r, a)) = Inr r"
      by (auto split: option.splits)
  qed simp
qed

lemma BRAddressFromScriptSig_returns: "\<exists>r. BRAddressFromScriptSig addrLen script = Inr r"
proof (cases "length script = 0 \<or> MAX_SCRIPT_LENGTH < length script")
  case True
  then show ?thesis by (auto simp: BRAddressFromScriptSig_def)
next
  case False
  let ?elems = "BRScriptElements None script"
  have nofault: "\<not> (\<exists>e\<in>set ?elems. length script \<le> e)"
    using BRScriptElements_ok by (fastforce simp: elem_ok_def)
  have "elem_ok script (?elems ! (length ?elems - 1))" if "2 \<le> length ?elems"
    by (intro BRScriptElements_ok[OF nth_mem]) (use that in linarith)
  then show ?thesis
    unfolding BRAddressFromScriptSig_def if_not_P[OF False] Let_def BRScriptElements_None
      if_not_P[OF nofault]
    by (auto split: option.splits elim!: elem_data)
qed

section \<open>Data pushes\<close>

lemmas opcode_defs = OP_0_def OP_1_def OP_16_def OP_PUSHDATA1_def OP_PUSHDATA2_def OP_PUSHDATA4_def
  OP_DUP_def OP_EQUAL_def OP_EQUALVERIFY_def OP_HASH160_def OP_CHECKSIG_def

lemma push_header_data:
  assumes "length data < 2 ^ 32"
  shows "BRScriptData (push_header (length data) @ data @ rest) 0 =
    Inr (if data = [] then None else Some (length (push_header (length data))), length data)"
proof -
  let ?n = "length data"
  consider "?n < 0x4c" | "\<not> ?n < 0x4c" "?n < 0xff" | "\<not> ?n < 0xff" "?n < 0xffff" | "\<not> ?n < 0xffff" by linarith
  then show ?thesis
  proof cases
    case 1
    have u: "unat (of_nat ?n :: u8) = ?n" using 1 by (simp add: unat_of_nat)
    have "unat (of_nat ?n :: u8) < 0x4c" unfolding u by (rule 1)
    then have "(of_nat ?n :: u8) < 0x4c" by (simp add: word_less_nat_alt)
    then have "(of_nat ?n :: u8) \<noteq> 0x4c" "(of_nat ?n :: u8) \<noteq> 0x4d" "(of_nat ?n :: u8) \<noteq> 0x4e"
      "\<not> 0x4e < (of_nat ?n :: u8)" by (auto simp: word_less_nat_alt)
    then show ?thesis
      using 1 u by (simp add: push_header_def BRScriptData_def script_get_def opcode_defs)
  next
    case 2
    then have "unat (of_nat ?n :: u8) = ?n" by (simp add: unat_of_nat)
    then show ?thesis
      using 2 by (simp add: push_header_def BRScriptData_def script_get_def opcode_defs)
  next
    case 3
    then have "unat (of_nat ?n :: u16) = ?n" by (simp add: unat_of_nat)
    then show ?thesis
      using 3 by (simp add: push_header_def BRScriptData_def script_get_def script_sub_def opcode_defs
          byte_simps le_word_le_bytes)
  next
    case 4
    then have "unat (of_nat ?n :: u32) = ?n" using assms by (simp add: unat_of_nat)
    then show ?thesis
      using 4 by (simp add: push_header_def BRScriptData_def script_get_def script_sub_def opcode_defs
          byte_simps le_word_le_bytes)
  qed
qed

section \<open>Standard scripts and their addresses\<close>

definition p2pkh :: "bytes \<Rightarrow> bytes" where
  "p2pkh h = [OP_DUP, OP_HASH160, 20] @ h @ [OP_EQUALVERIFY, OP_CHECKSIG]"

definition p2sh :: "bytes \<Rightarrow> bytes" where
  "p2sh h = [OP_HASH160, 20] @ h @ [OP_EQUAL]"

definition p2pk :: "bytes \<Rightarrow> bytes" where
  "p2pk key = of_nat (length key) # key @ [OP_CHECKSIG]"

lemma script_loop_op:
  assumes "off < length script" "script ! off = op"
    and "op \<noteq> OP_PUSHDATA1" "op \<noteq> OP_PUSHDATA2" "op \<noteq> OP_PUSHDATA4"
    and "n = (if OP_PUSHDATA4 < op then 0 else unat op)" "off' = off + 1 + n"
  shows "script_loop script off len elems = script_loop script off' n (elems @ [off])"
  using assms by (simp add: script_loop.simps[of script off] script_header_def)

lemma script_loop_end: "script_loop script (length script) len elems = (elems, length script)"
  by (simp add: script_loop.simps)

lemma p2pkh_elems: "length h = 20 \<Longrightarrow> BRScriptElements None (p2pkh h) = [0, 1, 2, 23, 24]"
proof -
  assume h: "length h = 20"
  have len: "length (p2pkh h) = 25" using h by (simp add: p2pkh_def)
  have nth: "p2pkh h ! 0 = OP_DUP" "p2pkh h ! 1 = OP_HASH160" "p2pkh h ! 2 = 20"
    "p2pkh h ! 23 = OP_EQUALVERIFY" "p2pkh h ! 24 = OP_CHECKSIG"
    using h by (simp_all add: p2pkh_def nth_append nth_Cons')
  have s0: "script_loop (p2pkh h) 0 0 [] = script_loop (p2pkh h) 1 0 [0]"
    by (rule trans[OF script_loop_op[OF _ nth(1), of 0 1 0 "[]"]])
      (simp_all add: len opcode_defs)
  have s1: "script_loop (p2pkh h) 1 0 [0] = script_loop (p2pkh h) 2 0 [0, 1]"
    by (rule trans[OF script_loop_op[OF _ nth(2), of 0 2 0 "[0]"]])
      (simp_all add: len opcode_defs)
  have s2: "script_loop (p2pkh h) 2 0 [0, 1] = script_loop (p2pkh h) 23 20 [0, 1, 2]"
    by (rule trans[OF script_loop_op[OF _ nth(3), of 20 23 0 "[0, 1]"]])
      (simp_all add: len opcode_defs)
  have s3: "script_loop (p2pkh h) 23 20 [0, 1, 2] = script_loop (p2pkh h) 24 0 [0, 1, 2, 23]"
    by (rule trans[OF script_loop_op[OF _ nth(4), of 0 24 20 "[0, 1, 2]"]])
      (simp_all add: len opcode_defs)
  have s4: "script_loop (p2pkh h) 24 0 [0, 1, 2, 23] = script_loop (p2pkh h) 25 0 [0, 1, 2, 23, 24]"
    by (rule trans[OF script_loop_op[OF _ nth(5), of 0 25 0 "[0, 1, 2, 23]"]])
      (simp_all add: len opcode_defs)
  have "script_loop (p2pkh h) 0 0 [] = ([0, 1, 2, 23, 24], 25)"
    unfolding s0 s1 s2 s3 s4 using script_loop_end[of "p2pkh h" 0] unfolding len .
  then show ?thesis using len by (simp add: BRScriptElements_def)
qed

lemma p2sh_elems: "length h = 20 \<Longrightarrow> BRScriptElements None (p2sh h) = [0, 1, 22]"
proof -
  assume h: "length h = 20"
  have len: "length (p2sh h) = 23" using h by (simp add: p2sh_def)
  have nth: "p2sh h ! 0 = OP_HASH160" "p2sh h ! 1 = 20" "p2sh h ! 22 = OP_EQUAL"
    using h by (simp_all add: p2sh_def nth_append nth_Cons')
  have s0: "script_loop (p2sh h) 0 0 [] = script_loop (p2sh h) 1 0 [0]"
    by (rule trans[OF script_loop_op[OF _ nth(1), of 0 1 0 "[]"]])
      (simp_all add: len opcode_defs)
  have s1: "script_loop (p2sh h) 1 0 [0] = script_loop (p2sh h) 22 20 [0, 1]"
    by (rule trans[OF script_loop_op[OF _ nth(2), of 20 22 0 "[0]"]])
      (simp_all add: len opcode_defs)
  have s2: "script_loop (p2sh h) 22 20 [0, 1] = script_loop (p2sh h) 23 0 [0, 1, 22]"
    by (rule trans[OF script_loop_op[OF _ nth(3), of 0 23 20 "[0, 1]"]])
      (simp_all add: len opcode_defs)
  have "script_loop (p2sh h) 0 0 [] = ([0, 1, 22], 23)"
    unfolding s0 s1 s2 using script_loop_end[of "p2sh h" 0] unfolding len .
  then show ?thesis using len by (simp add: BRScriptElements_def)
qed

text \<open>A base58check text of 21 bytes fits the 75 characters of a \<open>BRAddress\<close>.\<close>

lemma length_b58_text_le: "length (b58_text data) \<le> length data * 138 div 100 + 1 + length data"
proof -
  have "length (b58_digits data) \<le> length data * 138 div 100 + 1"
    using length_dropWhile_le[of "\<lambda>d. d = 0" "rev (b58_enc_buf (dropWhile (\<lambda>b. b = 0) data))"]
      enc_loop_num[of "replicate (length (dropWhile (\<lambda>b. b = 0) data) * 138 div 100 + 1) 0"]
      length_dropWhile_le[of "\<lambda>b. b = 0" data] div_le_mono[of "length (dropWhile (\<lambda>b. b = 0) data) * 138"
        "length data * 138" 100]
    by (simp add: b58_digits_def b58_enc_buf_def)
  moreover have "length (takeWhile (\<lambda>b. b = 0) data) \<le> length data" by (rule length_takeWhile_le)
  ultimately show ?thesis by (simp add: b58_text_def)
qed

definition check_text :: "bytes \<Rightarrow> string" where
  "check_text data = b58_text (data @ take 4 (BRSHA256_2 data))"

lemma check_text_21:
  assumes "length data = 21"
  shows "BRBase58CheckEncode (Some 75) data = (length (check_text data) + 1, Some (check_text data))"
    and "21 \<le> n \<Longrightarrow> BRBase58CheckDecode (Some n) (check_text data) = (21, Some data)"
proof -
  have "length (check_text data) < 75"
    using length_b58_text_le[of "data @ take 4 (BRSHA256_2 data)"] assms by (simp add: check_text_def)
  then show "BRBase58CheckEncode (Some 75) data = (length (check_text data) + 1, Some (check_text data))"
    using BRBase58Encode_text[of "data @ take 4 (BRSHA256_2 data)" 75]
    by (simp add: BRBase58CheckEncode_def check_text_def)
  show "21 \<le> n \<Longrightarrow> BRBase58CheckDecode (Some n) (check_text data) = (21, Some data)"
    using BRBase58CheckDecode_text[of data n] assms by (simp add: check_text_def)
qed

lemma address_of_p2pkh:
  assumes "length h = 20"
  shows "BRAddressFromScriptPubKey (Some 75) (p2pkh h) =
    Inr (length (check_text (BITCOIN_PUBKEY_ADDRESS # h)) + 1, Some (check_text (BITCOIN_PUBKEY_ADDRESS # h)))"
proof -
  have len: "length (p2pkh h) = 25" using assms by (simp add: p2pkh_def)
  have nth: "p2pkh h ! 0 = OP_DUP" "p2pkh h ! 1 = OP_HASH160" "p2pkh h ! 2 = 20"
    "p2pkh h ! 23 = OP_EQUALVERIFY" "p2pkh h ! 24 = OP_CHECKSIG"
    using assms by (simp_all add: p2pkh_def nth_append nth_Cons')
  have sub: "take 20 (drop 3 (p2pkh h)) = h" using assms by (simp add: p2pkh_def)
  have "BRScriptData (p2pkh h) 2 = Inr (Some 3, 20)"
    using nth(3) len by (simp add: BRScriptData_def script_get_def opcode_defs)
  then show ?thesis
    unfolding BRAddressFromScriptPubKey_def BRScriptElements_None
    unfolding p2pkh_elems[OF assms] Let_def
    using check_text_21[of "BITCOIN_PUBKEY_ADDRESS # h"] assms len nth sub
    by (simp add: elem_ops_def MAX_SCRIPT_LENGTH_def script_copy_def script_sub_def)
qed

lemma address_of_p2sh:
  assumes "length h = 20"
  shows "BRAddressFromScriptPubKey (Some 75) (p2sh h) =
    Inr (length (check_text (BITCOIN_SCRIPT_ADDRESS # h)) + 1, Some (check_text (BITCOIN_SCRIPT_ADDRESS # h)))"
proof -
  have len: "length (p2sh h) = 23" using assms by (simp add: p2sh_def)
  have nth: "p2sh h ! 0 = OP_HASH160" "p2sh h ! 1 = 20" "p2sh h ! 22 = OP_EQUAL"
    using assms by (simp_all add: p2sh_def nth_append nth_Cons')
  have sub: "take 20 (drop 2 (p2sh h)) = h" using assms by (simp add: p2sh_def)
  have "BRScriptData (p2sh h) 1 = Inr (Some 2, 20)"
    using nth(2) len by (simp add: BRScriptData_def script_get_def opcode_defs)
  then show ?thesis
    unfolding BRAddressFromScriptPubKey_def BRScriptElements_None
    unfolding p2sh_elems[OF assms] Let_def
    using check_text_21[of "BITCOIN_SCRIPT_ADDRESS # h"] assms len nth sub
    by (simp add: elem_ops_def MAX_SCRIPT_LENGTH_def script_copy_def script_sub_def)
qed

lemma script_of_check_text:
  assumes "length h = 20"
  shows "BRAddressScriptPubKey (Some n) (check_text (BITCOIN_PUBKEY_ADDRESS # h)) =
      Inr (put_script (Some n) (p2pkh h))"
    and "BRAddressScriptPubKey (Some n) (check_text (BITCOIN_SCRIPT_ADDRESS # h)) =
      Inr (put_script (Some n) (p2sh h))"
    and "BRAddressIsValid (check_text (BITCOIN_PUBKEY_ADDRESS # h)) = Inr True"
    and "BRAddressIsValid (check_text (BITCOIN_SCRIPT_ADDRESS # h)) = Inr True"
    and "BRAddressHash160 (check_text (v # h)) = Some h"
  using check_text_21(2)[of "v # h" 21] check_text_21(2)[of "BITCOIN_PUBKEY_ADDRESS # h" 42]
    check_text_21(2)[of "BITCOIN_SCRIPT_ADDRESS # h" 42] assms
  by (simp_all add: BRAddressScriptPubKey_def BRAddressIsValid_def BRAddressHash160_def p2pkh_def p2sh_def
      BITCOIN_PUBKEY_ADDRESS_def BITCOIN_SCRIPT_ADDRESS_def)

text \<open>Witness programs: version 0 with 20 or 32 bytes, or a later version with 2 to 40 bytes.\<close>

definition p2w :: "u8 \<Rightarrow> bytes \<Rightarrow> bytes" where
  "p2w v prog = v # of_nat (length prog) # prog"

definition p2w_ok :: "u8 \<Rightarrow> bytes \<Rightarrow> bool" where
  "p2w_ok v prog \<longleftrightarrow> v = OP_0 \<and> (length prog = 20 \<or> length prog = 32) \<or>
     OP_1 \<le> v \<and> v \<le> OP_16 \<and> 2 \<le> length prog \<and> length prog \<le> 40"

lemma p2w_ok_len: "p2w_ok v prog \<Longrightarrow> 2 \<le> length prog \<and> length prog \<le> 40"
  by (auto simp: p2w_ok_def)

lemma p2w_elems:
  assumes "p2w_ok v prog"
  shows "BRScriptElements None (p2w v prog) = [0, 1]"
proof -
  let ?n = "length prog"
  have n: "2 \<le> ?n" "?n \<le> 40" using p2w_ok_len[OF assms] by auto
  have u: "unat (of_nat ?n :: u8) = ?n" using n by (simp add: unat_of_nat)
  have len: "length (p2w v prog) = 2 + ?n" by (simp add: p2w_def)
  have nth: "p2w v prog ! 0 = v" "p2w v prog ! 1 = of_nat ?n" by (simp_all add: p2w_def)
  have "unat (of_nat ?n :: u8) < 0x4c" using n by (simp only: u)
  then have small: "(of_nat ?n :: u8) \<noteq> 0x4c" "(of_nat ?n :: u8) \<noteq> 0x4d" "(of_nat ?n :: u8) \<noteq> 0x4e"
    "\<not> 0x4e < (of_nat ?n :: u8)" by (auto simp: word_less_nat_alt)
  have v: "v = 0 \<or> 0x4e < v"
    using assms by (auto simp: p2w_ok_def OP_0_def OP_1_def word_less_nat_alt word_le_nat_alt)
  have s0: "script_loop (p2w v prog) 0 0 [] = script_loop (p2w v prog) 1 0 [0]"
    by (rule trans[OF script_loop_op[OF _ nth(1), of 0 1 0 "[]"]])
      (use v in \<open>auto simp: len opcode_defs\<close>)
  have s1: "script_loop (p2w v prog) 1 0 [0] = script_loop (p2w v prog) (2 + ?n) ?n [0, 1]"
    by (rule trans[OF script_loop_op[OF _ nth(2), of ?n "2 + ?n" 0 "[0]"]])
      (use small u in \<open>auto simp: len opcode_defs\<close>)
  have "script_loop (p2w v prog) 0 0 [] = ([0, 1], 2 + ?n)"
    unfolding s0 s1 using script_loop_end[of "p2w v prog" ?n] unfolding len .
  then show ?thesis using len by (simp add: BRScriptElements_def)
qed

lemma p2w_valid: "p2w_ok v prog \<Longrightarrow> bech32_valid ''bc'' (p2w v prog)"
proof -
  assume ok: "p2w_ok v prog"
  note n = p2w_ok_len[OF ok]
  have u: "unat (of_nat (length prog) :: u8) = length prog" using n by (simp add: unat_of_nat)
  have hrp: "\<forall>c\<in>set ''bc''. 33 \<le> (of_char c :: nat) \<and> (of_char c :: nat) \<le> 126 \<and> \<not> isupper c"
    by code_simp
  have "bech32_ver v \<le> 16 \<and> \<not> (OP_0 < v \<and> v < OP_1)"
  proof (cases "v = OP_0")
    case True
    then show ?thesis by (simp add: bech32_ver_def OP_0_def OP_1_def)
  next
    case False
    then have v: "OP_1 \<le> v" "v \<le> OP_16" using ok by (auto simp: p2w_ok_def)
    then have "unat (v + 1 - OP_1) = unat v - 80"
      by (simp add: OP_1_def OP_16_def word_le_nat_alt unat_sub)
    then show ?thesis
      using v by (auto simp: bech32_ver_def OP_1_def OP_16_def word_le_nat_alt word_less_nat_alt)
  qed
  then show ?thesis using hrp n u by (simp add: bech32_valid_def p2w_def)
qed

lemma address_of_p2w:
  assumes "p2w_ok v prog"
  shows "BRAddressFromScriptPubKey (Some 75) (p2w v prog) =
    Inr (length (bech32_text ''bc'' (p2w v prog)) + 1, Some (bech32_text ''bc'' (p2w v prog)))"
proof -
  note n = p2w_ok_len[OF assms]
  have u: "unat (of_nat (length prog) :: u8) = length prog" using n by (simp add: unat_of_nat)
  have len: "length (p2w v prog) = 2 + length prog" by (simp add: p2w_def)
  have nth: "p2w v prog ! 0 = v" "p2w v prog ! 1 = of_nat (length prog)" by (simp_all add: p2w_def)
  have tl: "length (bech32_text ''bc'' (p2w v prog)) < 75"
    unfolding length_bech32_text nth u using n by simp linarith
  have enc: "BRBech32Encode ''bc'' (p2w v prog) =
      Inr (length (bech32_text ''bc'' (p2w v prog)) + 1, Some (bech32_text ''bc'' (p2w v prog)))"
    using BRBech32Encode_to_nul[of "''bc''" "p2w v prog"] p2w_valid[OF assms] nth u len tl
    by (simp add: addr_put_def)
  have v: "v \<noteq> 65" "v \<noteq> 33"
    using assms by (auto simp: p2w_ok_def OP_0_def OP_1_def word_le_nat_alt)
  have cond: "v = OP_0 \<and> (of_nat (length prog) = (20::u8) \<or> of_nat (length prog) = (32::u8)) \<or>
      OP_1 \<le> v \<and> v \<le> OP_16 \<and> 2 \<le> (of_nat (length prog) :: u8) \<and> (of_nat (length prog) :: u8) \<le> 40"
    using assms u n by (auto simp: p2w_ok_def word_le_nat_alt)
  show ?thesis
    unfolding BRAddressFromScriptPubKey_def BRScriptElements_None
    unfolding p2w_elems[OF assms] Let_def
    using len n nth v cond enc tl by (simp add: elem_ops_def MAX_SCRIPT_LENGTH_def)
qed

lemma script_of_p2w:
  assumes "p2w_ok v prog" "fst (BRBase58CheckDecode (Some 42) (bech32_text ''bc'' (p2w v prog))) \<noteq> 21"
  shows "BRAddressScriptPubKey (Some n) (bech32_text ''bc'' (p2w v prog)) = Inr (put_script (Some n) (p2w v prog))"
    and "BRAddressIsValid (bech32_text ''bc'' (p2w v prog)) = Inr True"
proof -
  note pn = p2w_ok_len[OF assms(1)]
  have u: "unat (of_nat (length prog) :: u8) = length prog" using pn by (simp add: unat_of_nat)
  have nth: "p2w v prog ! 0 = v" "p2w v prog ! 1 = of_nat (length prog)" by (simp_all add: p2w_def)
  have len: "length (p2w v prog) = 2 + length prog" by (simp add: p2w_def)
  have dec: "BRBech32Decode (bech32_text ''bc'' (p2w v prog)) = Inr (2 + length prog, Some (''bc'', p2w v prog))"
    using BRBech32Decode_text[of "''bc''" "p2w v prog"] p2w_valid[OF assms(1)] nth u len by simp
  have "OP_0 \<noteq> v \<or> of_nat (length prog) = (20::u8) \<or> of_nat (length prog) = (32::u8)"
    using assms(1) by (auto simp: p2w_ok_def OP_0_def OP_1_def)
  then have ok: "witness_ok ''bc'' (p2w v prog)" by (auto simp: witness_ok_def p2w_def)
  show "BRAddressScriptPubKey (Some n) (bech32_text ''bc'' (p2w v prog)) = Inr (put_script (Some n) (p2w v prog))"
    "BRAddressIsValid (bech32_text ''bc'' (p2w v prog)) = Inr True"
    using dec ok assms(2) pn len
    by (auto simp: BRAddressScriptPubKey_def BRAddressIsValid_def split: prod.splits)
qed

section \<open>Sets of addresses\<close>

interpretation address_hash: hash_eq BRAddressHash BRAddressEq
  by unfold_locales (auto simp: BRAddressEq_def BRAddressHash_def)

section \<open>Properties\<close>

text \<open>
  C10: variable length integers: a buffer of the size \<open>BRVarIntSize\<close> asks for is written, with 1 to 9
  bytes, and \<open>BRVarInt\<close> reads back the value and the length, whatever follows; a smaller buffer is
  refused with 0.
\<close>

theorem BRVarInt_roundtrip:
  assumes "BRVarIntSize i \<le> n" "m < BRVarIntSize i"
  shows "\<exists>bs. BRVarIntSet (Some n) i = (length bs, Some bs) \<and> BRVarInt (bs @ rest) = (i, length bs) \<and>
    1 \<le> length bs \<and> length bs \<le> 9 \<and> BRVarIntSet (Some m) i = (0, None)"
  using assms BRVarInt_bytes[of i rest] length_varint_bytes[of i]
  by (auto simp: BRVarIntSize_def BRVarIntSet_def Let_def)

theorem BRVarInt_roundtrip_witness:
  "\<exists>bs. BRVarIntSet (Some 3) 70000 = (0, None) \<and> BRVarInt (bs @ [7]) = (70000, length bs)"
proof -
  have "BRVarIntSize 70000 \<le> 9" "3 < BRVarIntSize 70000" by code_simp+
  from BRVarInt_roundtrip[OF this, of "[7]"] show ?thesis by auto
qed

text \<open>
  C11: data pushes: \<open>BRScriptPushData\<close> writes a script element from which \<open>BRScriptData\<close> reads the data
  back, for every length below 2^32 and whatever follows in the script.
\<close>

theorem BRScriptPushData_roundtrip:
  assumes "length data < 2 ^ 32" "fst (BRScriptPushData None data) \<le> n"
  shows "\<exists>elem p. BRScriptPushData (Some n) data = (length elem, Some elem) \<and>
    BRScriptData (elem @ rest) 0 = Inr (if data = [] then None else Some p, length data) \<and>
    script_sub (elem @ rest) p (length data) = Inr data"
proof -
  let ?h = "push_header (length data)"
  have "BRScriptPushData (Some n) data = (length (?h @ data), Some (?h @ data))"
    using assms(2) by (simp add: BRScriptPushData_def Let_def)
  moreover have "script_sub ((?h @ data) @ rest) (length ?h) (length data) = Inr data"
    by (simp add: script_sub_def)
  ultimately show ?thesis
    using push_header_data[OF assms(1), of rest] by (intro exI[of _ "?h @ data"] exI[of _ "length ?h"]) simp
qed

theorem BRScriptPushData_roundtrip_witness:
  "\<exists>elem. BRScriptPushData (Some 5) [1, 2, 3] = (length elem, Some elem) \<and>
    (\<exists>p. BRScriptData (elem @ [0xac]) 0 = Inr (Some p, 3))"
proof -
  have "fst (BRScriptPushData None [1, 2, 3]) \<le> 5" by code_simp
  from BRScriptPushData_roundtrip[OF _ this, of "[0xac]"] show ?thesis by fastforce
qed


text \<open>
  C13: the address of a pay-to-pubkey-hash or pay-to-script-hash script fits a \<open>BRAddress\<close>, is valid, and
  gives back exactly the script and the hash.
\<close>

theorem BRAddress_script_roundtrip:
  assumes "length h = 20" "script = p2pkh h \<or> script = p2sh h"
  shows "\<exists>addr. BRAddressFromScriptPubKey (Some 75) script = Inr (length addr + 1, Some addr) \<and>
    length addr < 75 \<and> BRAddressIsValid addr = Inr True \<and> BRAddressHash160 addr = Some h \<and>
    BRAddressScriptPubKey (Some 25) addr = Inr (length script, Some script)"
proof -
  have len: "length (p2pkh h) = 25" "length (p2sh h) = 23" using assms(1) by (simp_all add: p2pkh_def p2sh_def)
  have "length (check_text (v # h)) < 75" for v
    using length_b58_text_le[of "(v # h) @ take 4 (BRSHA256_2 (v # h))"] assms(1) by (simp add: check_text_def)
  then show ?thesis
    using assms(2) address_of_p2pkh[OF assms(1)] address_of_p2sh[OF assms(1)]
      script_of_check_text[OF assms(1)] len
    by (auto simp: put_script_def)
qed

theorem BRAddress_script_roundtrip_witness:
  "\<exists>addr. BRAddressFromScriptPubKey (Some 75) (p2pkh (replicate 20 7)) = Inr (length addr + 1, Some addr) \<and>
     BRAddressScriptPubKey (Some 25) addr = Inr (25, Some (p2pkh (replicate 20 7)))"
  using BRAddress_script_roundtrip[of "replicate 20 7" "p2pkh (replicate 20 7)"]
  by (auto simp: p2pkh_def)

text \<open>
  C14: the same for witness programs, unless their bech32 address happens to pass as a base58check text
  of 21 bytes, which both functions try first.
\<close>

theorem BRAddress_witness_roundtrip:
  assumes "p2w_ok v prog" "fst (BRBase58CheckDecode (Some 42) (bech32_text ''bc'' (p2w v prog))) \<noteq> 21"
  shows "\<exists>addr. BRAddressFromScriptPubKey (Some 75) (p2w v prog) = Inr (length addr + 1, Some addr) \<and>
    BRAddressIsValid addr = Inr True \<and>
    BRAddressScriptPubKey (Some 42) addr = Inr (length (p2w v prog), Some (p2w v prog))"
  using address_of_p2w[OF assms(1)] script_of_p2w[OF assms] p2w_ok_len[OF assms(1)]
  by (intro exI[of _ "bech32_text ''bc'' (p2w v prog)"]) (simp add: put_script_def p2w_def)

text \<open>A bech32 text that begins with \<open>bc1p0\<close> is no base58check text: the digit 0 ends its decoding.\<close>

lemma b58_dec_loop_stop:
  "58 \<le> b58_value c \<Longrightarrow> b58_dec_loop (cs @ c # rest) buf = b58_dec_loop cs buf"
  by (induction cs arbitrary: buf) auto

lemma bc1p0_not_base58check: "fst (BRBase58CheckDecode (Some n) (''bc1p0'' @ rest)) = 0"
proof -
  let ?s = "''bc1p0'' @ rest"
  let ?k = "length ?s * 733 div 1000 + 1" and ?ds = "[34, 35, 0, 47] :: u8 list"
  have "58 \<le> b58_value CHR ''0''" by code_simp
  from b58_dec_loop_stop[OF this, of "''bc1p''"]
  have loop: "b58_dec_loop ?s (replicate ?k 0) = b58_dec_loop ''bc1p'' (replicate ?k 0)" by simp
  have "map (\<lambda>d. b58_chars ! unat d) ?ds = ''bc1p''" by code_simp
  moreover define buf where "buf = b58_dec_loop ''bc1p'' (replicate ?k 0)"
  ultimately have buf: "num_of 256 buf mod 256 ^ ?k = num_of 58 (rev ?ds) mod 256 ^ ?k" "length buf = ?k"
    using dec_loop_num[of ?ds "replicate ?k 0"] by simp_all
  have "num_of 256 buf < 256 ^ ?k" using num_of_less[of buf 256] unat_u8 buf(2) by simp
  then have "num_of 256 buf = num_of 58 (rev ?ds) mod 256 ^ ?k" using buf(1) by simp
  also have "\<dots> \<le> num_of 58 (rev ?ds)" by (rule mod_less_eq_dividend)
  also have "\<dots> < 256 ^ 3" by simp
  finally have small: "num_of 256 buf < 256 ^ 3" .
  let ?r = "dropWhile (\<lambda>d. d = 0) (rev buf)"
  note can = canonical_dropWhile[of buf 256]
  have "length ?r \<le> 3"
  proof (cases "?r = []")
    case False
    have "256 ^ (length (rev ?r) - 1) \<le> num_of 256 (rev ?r)"
      using canonical_ge[of 256 "rev ?r"] can unat_u8 False by simp
    then have "(256::nat) ^ (length ?r - 1) < 256 ^ 3" using can(2) unat_u8 small by simp
    then have "length ?r - 1 < 3" by (simp only: power_strict_increasing_iff)
    then show ?thesis by simp
  next
    case True
    show ?thesis unfolding True by simp
  qed
  moreover have "takeWhile (\<lambda>c. c = CHR ''1'') ?s = []" by simp
  ultimately have "fst (BRBase58Decode (Some (length ?s)) ?s) \<le> 3"
    using loop by (simp add: BRBase58Decode_def Let_def buf_def)
  then show ?thesis by (auto simp: BRBase58CheckDecode_def split: prod.splits)
qed

theorem BRAddress_witness_roundtrip_witness:
  "\<exists>addr. BRAddressFromScriptPubKey (Some 75) (p2w OP_1 [0x78, 0]) = Inr (length addr + 1, Some addr) \<and>
    BRAddressScriptPubKey (Some 42) addr = Inr (4, Some (p2w OP_1 [0x78, 0]))"
proof -
  have ver: "chr (bech32_ver OP_1) = CHR ''p''" and zero: "chr 15 = CHR ''0''" by code_simp+
  have "groups (2 + 1) 0 2 [0x78, 0] 0 = 15 # drop 1 (groups (2 + 1) 0 2 [0x78, 0] 0)" by code_simp
  then obtain t where g: "groups (2 + 1) 0 2 [0x78, 0] 0 = 15 # t" by metis
  have p: "unat (p2w OP_1 [0x78, 0] ! 1) = 2" "drop 2 (p2w OP_1 [0x78, 0]) = [0x78, 0]"
    "p2w OP_1 [0x78, 0] ! 0 = OP_1" by (simp_all add: p2w_def)
  have "\<exists>rest. bech32_text ''bc'' (p2w OP_1 [0x78, 0]) = ''bc1p0'' @ rest"
    unfolding bech32_text_def Let_def p g using ver zero by simp
  then have "fst (BRBase58CheckDecode (Some 42) (bech32_text ''bc'' (p2w OP_1 [0x78, 0]))) \<noteq> 21"
    using bc1p0_not_base58check by auto
  moreover have "p2w_ok OP_1 [0x78, 0]" by code_simp
  ultimately show ?thesis using BRAddress_witness_roundtrip[of OP_1 "[0x78, 0]"] by (auto simp: p2w_def)
qed

end
