(* ===== verification/BRKey.thy ===== *)
theory BRKey
  imports BRAddress
begin

text \<open>
  \<open>BRKey.c\<close>: private keys in wallet import format, mini format or hex, and public keys, their addresses
  and signatures. The library secp256k1 is third-party code that is vendored beside the program; the
  functions called of it are the fields of a record that every operation takes. A public key or a
  signature in the library's own form is an opaque byte string.
\<close>

section \<open>The interface of secp256k1\<close>

record secp256k1 =
  ec_seckey_verify :: "UInt256 \<Rightarrow> bool"
  ec_pubkey_create :: "UInt256 \<Rightarrow> bytes option"
  ec_pubkey_parse :: "bytes \<Rightarrow> bytes option"
  ec_pubkey_serialize :: "bool \<Rightarrow> bytes \<Rightarrow> bytes"
  ecdsa_sign :: "UInt256 \<Rightarrow> UInt256 \<Rightarrow> bytes option"
  ecdsa_serialize_der :: "bytes \<Rightarrow> bytes"
  ecdsa_parse_der :: "bytes \<Rightarrow> bytes option"
  ecdsa_verify :: "bytes \<Rightarrow> UInt256 \<Rightarrow> bytes \<Rightarrow> bool"
  ecdsa_sign_recoverable :: "UInt256 \<Rightarrow> UInt256 \<Rightarrow> bytes option"
  ecdsa_serialize_compact :: "bytes \<Rightarrow> bytes \<times> nat"
  ecdsa_parse_compact :: "bytes \<Rightarrow> nat \<Rightarrow> bytes option"
  ecdsa_recover :: "bytes \<Rightarrow> UInt256 \<Rightarrow> bytes option"
  ec_privkey_tweak_add :: "UInt256 \<Rightarrow> UInt256 \<Rightarrow> bool \<times> UInt256"
  ec_privkey_tweak_mul :: "UInt256 \<Rightarrow> UInt256 \<Rightarrow> bool \<times> UInt256"
  ec_pubkey_tweak_add :: "bytes \<Rightarrow> UInt256 \<Rightarrow> bytes option"
  ec_pubkey_tweak_mul :: "bytes \<Rightarrow> UInt256 \<Rightarrow> bytes option"

record BRKey =
  key_secret :: UInt256
  key_pubKey :: bytes
  key_compressed :: bool

definition BITCOIN_PRIVKEY :: u8 where "BITCOIN_PRIVKEY = 128"

definition BRKeyClean :: BRKey where
  "BRKeyClean = \<lparr>key_secret = 0, key_pubKey = replicate 65 0, key_compressed = False\<rparr>"

section \<open>Scalars and points\<close>

text \<open>
  The wrappers give the success and the new value; a point that could not be computed is left as it was,
  and \<open>None\<close> is one that was never set.
\<close>

definition BRSecp256k1ModAdd :: "secp256k1 \<Rightarrow> UInt256 \<Rightarrow> UInt256 \<Rightarrow> bool \<times> UInt256" where
  "BRSecp256k1ModAdd S a b = ec_privkey_tweak_add S a b"

definition BRSecp256k1ModMul :: "secp256k1 \<Rightarrow> UInt256 \<Rightarrow> UInt256 \<Rightarrow> bool \<times> UInt256" where
  "BRSecp256k1ModMul S a b = ec_privkey_tweak_mul S a b"

definition BRSecp256k1PointGen :: "secp256k1 \<Rightarrow> UInt256 \<Rightarrow> bytes option" where
  "BRSecp256k1PointGen S i = map_option (ec_pubkey_serialize S True) (ec_pubkey_create S i)"

definition BRSecp256k1PointAdd :: "secp256k1 \<Rightarrow> bytes \<Rightarrow> UInt256 \<Rightarrow> bool \<times> bytes" where
  "BRSecp256k1PointAdd S p i =
     (case ec_pubkey_parse S p of
        None \<Rightarrow> (False, p)
      | Some pk \<Rightarrow> (case ec_pubkey_tweak_add S pk i of
          None \<Rightarrow> (False, p)
        | Some pk \<Rightarrow> (True, ec_pubkey_serialize S True pk)))"

definition BRSecp256k1PointMul :: "secp256k1 \<Rightarrow> bytes \<Rightarrow> UInt256 \<Rightarrow> bool \<times> bytes" where
  "BRSecp256k1PointMul S p i =
     (case ec_pubkey_parse S p of
        None \<Rightarrow> (False, p)
      | Some pk \<Rightarrow> (case ec_pubkey_tweak_mul S pk i of
          None \<Rightarrow> (False, p)
        | Some pk \<Rightarrow> (True, ec_pubkey_serialize S True pk)))"

section \<open>Private keys\<close>

definition isxdigit :: "char \<Rightarrow> bool" where
  "isxdigit c \<longleftrightarrow> c \<in> set ''0123456789ABCDEFabcdef''"

definition xdigit_value :: "char \<Rightarrow> u8" where
  "xdigit_value c =
     (if c \<in> set ''0123456789'' then of_char c - of_char CHR ''0''
      else if c \<in> set ''ABCDEF'' then of_char c - of_char CHR ''A'' + 10
      else of_char c - of_char CHR ''a'' + 10)"

text \<open>
  \<open>sscanf\<close> with the conversion \<open>%2hhx\<close>: white space is skipped, then at most two characters are an optional
  sign and hexadecimal digits; a lone prefix \<open>0x\<close> does not match.
\<close>

definition scan_hex :: "bool \<Rightarrow> string \<Rightarrow> u8 option" where
  "scan_hex neg s =
     (let v = foldl (\<lambda>a c. a * 16 + xdigit_value c) 0 (takeWhile isxdigit s)
      in if takeWhile isxdigit s = [] then None else Some (if neg then - v else v))"

definition sscanf_2hhx :: "string \<Rightarrow> u8 option" where
  "sscanf_2hhx s =
     (let item = take 2 (dropWhile (\<lambda>c. c \<in> set [CHR '' '', CHR 0x09, CHR 0x0A, CHR 0x0B, CHR 0x0C, CHR 0x0D]) s)
      in if item \<noteq> [] \<and> item ! 0 = CHR ''-'' then scan_hex True (drop 1 item)
         else if item \<noteq> [] \<and> item ! 0 = CHR ''+'' then scan_hex False (drop 1 item)
         else if item = ''0x'' \<or> item = ''0X'' then None
         else scan_hex False item)"

text \<open>The loop over pairs of characters; the string and the 34 bytes of \<open>data\<close> both bound it.\<close>

fun hex_loop :: "nat \<Rightarrow> string \<Rightarrow> bytes" where
  "hex_loop 0 s = []"
| "hex_loop (Suc n) s =
     (if length s < 2 then []
      else case sscanf_2hhx s of None \<Rightarrow> [] | Some b \<Rightarrow> b # hex_loop n (drop 2 s))"

definition is_mini :: "string \<Rightarrow> bool" where
  "is_mini privKey \<longleftrightarrow> (length privKey = 30 \<or> length privKey = 22) \<and> privKey ! 0 = CHR ''S''"

definition BRPrivKeyIsValid :: "string \<Rightarrow> bool" where
  "BRPrivKeyIsValid privKey =
     (case BRBase58CheckDecode (Some 34) privKey of (dataLen, out) \<Rightarrow>
        (if dataLen = 33 \<or> dataLen = 34 then
           (case out of None \<Rightarrow> False | Some data \<Rightarrow> data ! 0 = BITCOIN_PRIVKEY)
         else if is_mini privKey then
           BRSHA256 (map of_char (privKey @ ''?'')) ! 0 = 0
         else length (takeWhile isxdigit privKey) = 64))"

definition BRKeySetSecret :: "secp256k1 \<Rightarrow> UInt256 \<Rightarrow> bool \<Rightarrow> bool \<times> BRKey" where
  "BRKeySetSecret S secret compressed =
     (ec_seckey_verify S secret, BRKeyClean\<lparr>key_secret := secret, key_compressed := compressed\<rparr>)"

text \<open>The bytes of \<open>data\<close> that were written; the length that the last decoder returned counts them.\<close>

definition priv_data :: "string \<Rightarrow> bytes" where
  "priv_data privKey =
     (let (len, out) = BRBase58CheckDecode (Some 34) privKey;
          (len, out) = (if len = 0 \<or> len = 28 then BRBase58Decode (Some 34) privKey else (len, out))
      in if len < 32 \<or> 34 < len then hex_loop 34 privKey
         else take len (case out of None \<Rightarrow> [] | Some data \<Rightarrow> data))"

definition BRKeySetPrivKey :: "secp256k1 \<Rightarrow> string \<Rightarrow> BRKey \<Rightarrow> bool \<times> BRKey" where
  "BRKeySetPrivKey S privKey key =
     (if is_mini privKey then
        (if \<not> BRPrivKeyIsValid privKey then (False, key)
         else BRKeySetSecret S (UInt256Get (BRSHA256 (map of_char privKey))) False)
      else
        (let data = priv_data privKey; len = length data in
         if (len = 33 \<or> len = 34) \<and> data ! 0 = BITCOIN_PRIVKEY then
           BRKeySetSecret S (UInt256Get (drop 1 data)) (len = 34)
         else if len = 32 then BRKeySetSecret S (UInt256Get data) False
         else (False, key)))"

definition BRKeyPrivKey :: "secp256k1 \<Rightarrow> nat option \<Rightarrow> BRKey \<Rightarrow> nat \<times> string option" where
  "BRKeyPrivKey S pkLen key =
     (if ec_seckey_verify S (key_secret key)
      then BRBase58CheckEncode pkLen
             (BITCOIN_PRIVKEY # UInt256Set (key_secret key) @ (if key_compressed key then [0x01] else []))
      else (0, None))"

section \<open>Public keys and addresses\<close>

definition BRKeySetPubKey :: "secp256k1 \<Rightarrow> bytes \<Rightarrow> (bool \<times> BRKey) res" where
  "BRKeySetPubKey S pubKey =
     (if length pubKey \<noteq> 33 \<and> length pubKey \<noteq> 65 then Inl AssertFailed
      else let key = BRKeyClean\<lparr>key_pubKey := pubKey @ replicate (65 - length pubKey) 0,
                                key_compressed := length pubKey \<le> 33\<rparr>
           in Inr (ec_pubkey_parse S pubKey \<noteq> None, key))"

text \<open>The public key is computed when it is first asked for, and kept in the key.\<close>

definition BRKeyPubKey :: "secp256k1 \<Rightarrow> nat option \<Rightarrow> BRKey \<Rightarrow> (nat \<times> bytes option) \<times> BRKey" where
  "BRKeyPubKey S pkLen key =
     (let size = (if key_compressed key then 33 else 65);
          (size, key) =
            (if take size (key_pubKey key) = replicate size 0
             then (case ec_pubkey_create S (key_secret key) of
                     None \<Rightarrow> (0, key)
                   | Some pk \<Rightarrow>
                       let ser = ec_pubkey_serialize S (key_compressed key) pk
                       in (length ser, key\<lparr>key_pubKey := ser @ drop (length ser) (key_pubKey key)\<rparr>))
             else (size, key))
      in (case pkLen of
            None \<Rightarrow> (size, None)
          | Some n \<Rightarrow> if size \<le> n then (size, Some (take size (key_pubKey key))) else (0, None), key))"

definition BRKeyHash160 :: "secp256k1 \<Rightarrow> BRKey \<Rightarrow> bytes \<times> BRKey" where
  "BRKeyHash160 S key =
     (let ((len, _), key) = BRKeyPubKey S None key; pub = take len (key_pubKey key)
      in (if 0 < len \<and> ec_pubkey_parse S pub \<noteq> None then BRHash160 pub else replicate 20 0, key))"

definition BRKeyAddress :: "secp256k1 \<Rightarrow> nat option \<Rightarrow> BRKey \<Rightarrow> (nat \<times> string option) \<times> BRKey" where
  "BRKeyAddress S addrLen key =
     (let (hash, key) = BRKeyHash160 S key
      in (if hash \<noteq> replicate 20 0 then BRBase58CheckEncode addrLen (BITCOIN_PUBKEY_ADDRESS # hash)
          else (0, None), key))"

section \<open>Signatures\<close>

definition BRKeySign :: "secp256k1 \<Rightarrow> nat \<Rightarrow> UInt256 \<Rightarrow> BRKey \<Rightarrow> bytes" where
  "BRKeySign S sigLen md key =
     (case ecdsa_sign S md (key_secret key) of
        None \<Rightarrow> []
      | Some s \<Rightarrow> let der = ecdsa_serialize_der S s in if length der \<le> sigLen then der else [])"

definition BRKeyVerify :: "secp256k1 \<Rightarrow> UInt256 \<Rightarrow> bytes \<Rightarrow> BRKey \<Rightarrow> (bool \<times> BRKey) res" where
  "BRKeyVerify S md sig key =
     (if sig = [] then Inl AssertFailed
      else let ((len, _), key) = BRKeyPubKey S None key
           in Inr (0 < len \<and>
                (case (ec_pubkey_parse S (take len (key_pubKey key)), ecdsa_parse_der S sig) of
                   (Some pk, Some s) \<Rightarrow> ecdsa_verify S s md pk
                 | _ \<Rightarrow> False), key))"

definition BRKeyCompactSign :: "secp256k1 \<Rightarrow> nat option \<Rightarrow> UInt256 \<Rightarrow> BRKey \<Rightarrow> (nat \<times> bytes option) res" where
  "BRKeyCompactSign S sigLen md key =
     (case sigLen of
        None \<Rightarrow> Inr (if key_secret key \<noteq> 0 then 65 else 0, None)
      | Some n \<Rightarrow>
          if n < 65 then Inl AssertFailed
          else if key_secret key = 0 then Inr (0, None)
          else case ecdsa_sign_recoverable S md (key_secret key) of
                 None \<Rightarrow> Inr (0, None)
               | Some s \<Rightarrow> (case ecdsa_serialize_compact S s of (sig, recid) \<Rightarrow>
                   Inr (65, Some (of_nat (27 + recid + (if key_compressed key then 4 else 0)) # sig))))"

text \<open>
  The first byte minus 27 is an \<open>int\<close>, so \<open>%\<close> may give a negative \<open>recid\<close>, which the library asserts not to be.
\<close>

definition BRKeyRecoverPubKey :: "secp256k1 \<Rightarrow> UInt256 \<Rightarrow> bytes \<Rightarrow> BRKey \<Rightarrow> (bool \<times> BRKey) res" where
  "BRKeyRecoverPubKey S md compactSig key =
     (if length compactSig \<noteq> 65 then Inl AssertFailed
      else let h = uint (compactSig ! 0) - 27; compressed = (4 \<le> h); recid = (if h < 0 then - ((- h) mod 4) else h mod 4)
           in if recid < 0 then Inl AssertFailed
              else case ecdsa_parse_compact S (drop 1 compactSig) (nat recid) of
                     None \<Rightarrow> Inr (False, key)
                   | Some s \<Rightarrow> (case ecdsa_recover S s md of
                       None \<Rightarrow> Inr (False, key)
                     | Some pk \<Rightarrow> BRKeySetPubKey S (ec_pubkey_serialize S compressed pk)))"

end
