(* ===== verification/Serializer.thy ===== *)
theory Serializer
  imports Prelude
begin

text \<open>
  The convention of the serialisers of the library: a function is given a buffer or a null pointer, and
  keeps an offset. Each field is stored when there is a buffer and the field fits; the offset moves on in
  any case. At the end the function returns the offset, or 0 when it lies beyond the buffer. A buffer is
  the list of the bytes it holds, and its length is the length of the list.
\<close>

type_synonym out = "bytes option \<times> nat"
type_synonym writer = "bytes option \<Rightarrow> nat \<times> bytes option"

definition store :: "bytes \<Rightarrow> nat \<Rightarrow> bytes \<Rightarrow> bytes" where
  "store d off bs = take off d @ bs @ drop (off + length bs) d"

text \<open>\<open>if (data && off + len <= dataLen) memcpy(&data[off], ...); off += len;\<close>\<close>

definition put :: "bytes \<Rightarrow> out \<Rightarrow> out" where
  "put bs out = (case out of (data, off) \<Rightarrow>
     (case data of
        None \<Rightarrow> None
      | Some d \<Rightarrow> Some (if off + length bs \<le> length d then store d off bs else d), off + length bs))"

text \<open>\<open>off += f((data ? &data[off] : NULL), (off <= dataLen ? dataLen - off : 0));\<close>\<close>

definition sub :: "writer \<Rightarrow> out \<Rightarrow> out" where
  "sub f out = (case out of (data, off) \<Rightarrow>
     (case data of
        None \<Rightarrow> (None, off + fst (f None))
      | Some d \<Rightarrow> (case f (Some (drop off d)) of
          (n, r) \<Rightarrow> (Some (take off d @ (case r of None \<Rightarrow> drop off d | Some d' \<Rightarrow> d')), off + n))))"

text \<open>\<open>return (! data || off <= dataLen) ? off : 0;\<close>\<close>

definition finish :: "out \<Rightarrow> nat \<times> bytes option" where
  "finish out = (case out of (data, off) \<Rightarrow>
     (if (case data of None \<Rightarrow> True | Some d \<Rightarrow> off \<le> length d) then off else 0, data))"

text \<open>What a writer promises: the length for a null pointer, and the bytes for a buffer that holds them.\<close>

definition emits :: "writer \<Rightarrow> bytes \<Rightarrow> bool" where
  "emits f bs \<longleftrightarrow> f None = (length bs, None) \<and>
     (\<forall>d. length bs \<le> length d \<longrightarrow> f (Some d) = (length bs, Some (bs @ drop (length bs) d)))"

definition appends :: "(out \<Rightarrow> out) \<Rightarrow> bytes \<Rightarrow> bool" where
  "appends g bs \<longleftrightarrow> (\<forall>off. g (None, off) = (None, off + length bs)) \<and>
     (\<forall>d off. off + length bs \<le> length d \<longrightarrow> g (Some d, off) = (Some (store d off bs), off + length bs))"

lemma length_store [simp]: "off + length bs \<le> length d \<Longrightarrow> length (store d off bs) = length d"
  by (simp add: store_def)

lemma store_store:
  "off + length bs + length cs \<le> length d \<Longrightarrow>
   store (store d off bs) (off + length bs) cs = store d off (bs @ cs)"
  by (simp add: store_def drop_drop ac_simps)

lemma store_Nil [simp]: "store d off [] = d"
  by (simp add: store_def)

lemma appends_id [intro]: "appends (\<lambda>x. x) []"
  by (simp add: appends_def)

lemma appends_put [intro]: "appends (put bs) bs"
  by (simp add: appends_def put_def)

lemma appends_comp:
  assumes "appends g bs" and "appends h cs"
  shows "appends (\<lambda>x. h (g x)) (bs @ cs)"
  using assms by (auto simp: appends_def store_store add.assoc)

lemma appends_foldl:
  assumes "\<And>x. x \<in> set xs \<Longrightarrow> appends (g x) (e x)"
  shows "appends (\<lambda>out. foldl (\<lambda>out x. g x out) out xs) (concat (map e xs))"
  using assms
proof (induction xs)
  case (Cons x xs)
  from appends_comp[OF Cons.prems[of x] Cons.IH[OF Cons.prems]]
  show ?case by simp
qed auto

lemma appends_cong: "appends g bs \<Longrightarrow> bs = cs \<Longrightarrow> appends g cs"
  by simp

lemma appends_sub [intro]:
  assumes "emits f bs"
  shows "appends (sub f) bs"
  using assms by (auto simp: appends_def sub_def emits_def store_def add.commute)

lemma emits_finish [intro]:
  assumes "appends g bs"
  shows "emits (\<lambda>data. finish (g (data, 0))) bs"
  using assms by (auto simp: appends_def emits_def finish_def store_def)

text \<open>One field after what was written before; a chain of fields is taken apart from its end.\<close>

lemma appends_then_put: "appends g cs \<Longrightarrow> appends (\<lambda>x. put bs (g x)) (cs @ bs)"
  by (rule appends_comp[OF _ appends_put])

lemma appends_then_sub: "appends g cs \<Longrightarrow> emits f bs \<Longrightarrow> appends (\<lambda>x. sub f (g x)) (cs @ bs)"
  by (rule appends_comp[OF _ appends_sub])

lemma appends_then_foldl:
  assumes "appends f cs" and "\<And>x. x \<in> set xs \<Longrightarrow> appends (g x) (e x)"
  shows "appends (\<lambda>out. foldl (\<lambda>out x. g x out) (f out) xs) (cs @ concat (map e xs))"
  by (rule appends_comp[OF assms(1) appends_foldl[OF assms(2)]])

lemma appends_if:
  "(c \<Longrightarrow> appends g bs) \<Longrightarrow> (\<not> c \<Longrightarrow> appends h cs) \<Longrightarrow>
   appends (\<lambda>out. if c then g out else h out) (if c then bs else cs)"
  by simp

lemmas appends_steps = appends_then_put appends_then_sub appends_id

text \<open>
  The interface: a serialiser and the byte string it stands for. The callers ask for the length with a
  null pointer, provide a buffer of that length and call again.
\<close>

definition serialized :: "writer \<Rightarrow> bytes" where
  "serialized f = (let (n, _) = f None in
     case f (Some (replicate n 0)) of (m, r) \<Rightarrow> (case r of None \<Rightarrow> [] | Some d \<Rightarrow> take m d))"

locale serializer =
  fixes wr :: "'a \<Rightarrow> writer" and enc :: "'a \<Rightarrow> bytes" and ok :: "'a \<Rightarrow> bool"
  assumes emits_enc: "ok x \<Longrightarrow> emits (wr x) (enc x)"
begin

lemma size_needed: "ok x \<Longrightarrow> wr x None = (length (enc x), None)"
  using emits_enc[of x] by (simp add: emits_def)

lemma written: "ok x \<Longrightarrow> length (enc x) \<le> length d \<Longrightarrow>
    wr x (Some d) = (length (enc x), Some (enc x @ drop (length (enc x)) d))"
  using emits_enc[of x] by (simp add: emits_def)

lemma written_exact: "ok x \<Longrightarrow> length d = length (enc x) \<Longrightarrow>
    wr x (Some d) = (length (enc x), Some (enc x))"
  by (simp add: written)

lemma serialized_enc: "ok x \<Longrightarrow> serialized (wr x) = enc x"
  by (simp add: serialized_def size_needed written_exact)

lemma appends_enc: "ok x \<Longrightarrow> appends (sub (wr x)) (enc x)"
  by (simp add: appends_sub emits_enc)

end

section \<open>Writes without a check\<close>

text \<open>
  Some serialisers check the whole length first and then store field after field. A store that leaves the
  buffer is a fault.
\<close>

definition poke :: "bytes \<Rightarrow> bytes \<times> nat \<Rightarrow> (bytes \<times> nat) res" where
  "poke bs st = (case st of (d, off) \<Rightarrow>
     if off + length bs \<le> length d then Inr (store d off bs, off + length bs) else Inl OutOfBounds)"

text \<open>A step that appends bytes to what was written before.\<close>

definition writes :: "(bytes \<times> nat \<Rightarrow> (bytes \<times> nat) res) \<Rightarrow> bytes \<Rightarrow> bool" where
  "writes g bs \<longleftrightarrow> (\<forall>pre rest. length bs \<le> length rest \<longrightarrow>
     g (pre @ rest, length pre) = Inr ((pre @ bs) @ drop (length bs) rest, length (pre @ bs)))"

lemma writes_poke: "writes (poke bs) bs"
  by (simp add: writes_def poke_def store_def)

lemma writes_then:
  assumes "writes g bs" "writes h cs"
  shows "writes (\<lambda>st. rbind (g st) h) (bs @ cs)"
  unfolding writes_def
proof (intro allI impI)
  fix pre rest :: bytes
  assume l: "length (bs @ cs) \<le> length rest"
  then have "g (pre @ rest, length pre) = Inr ((pre @ bs) @ drop (length bs) rest, length (pre @ bs))"
    using assms(1) by (simp add: writes_def)
  moreover have "h ((pre @ bs) @ drop (length bs) rest, length (pre @ bs)) =
      Inr (((pre @ bs) @ cs) @ drop (length cs) (drop (length bs) rest), length ((pre @ bs) @ cs))"
    using assms(2)[unfolded writes_def, rule_format, of "drop (length bs) rest" "pre @ bs"] l by simp
  ultimately show "rbind (g (pre @ rest, length pre)) h =
      Inr ((pre @ bs @ cs) @ drop (length (bs @ cs)) rest, length (pre @ bs @ cs))"
    by (simp add: add.commute)
qed

end
