(* ===== verification/BRTransaction.thy ===== *)
theory BRTransaction
  imports BRKey Serializer
begin

text \<open>
  \<open>BRTransaction.c\<close>: transactions, the serialisation of them and of the data that is signed, the parser,
  and signing. A buffer with its length (script, signature) is an optional list: a null pointer is \<open>None\<close>,
  and the length is the length of the list. The arrays of inputs and outputs are lists, so \<open>inCount\<close> and
  \<open>outCount\<close> are their lengths. Freeing memory is not modelled.
\<close>

section \<open>Data\<close>

record BRTxInput =
  ti_txHash :: UInt256
  ti_index :: u32
  ti_address :: string
  ti_amount :: u64
  ti_script :: "bytes option"
  ti_signature :: "bytes option"
  ti_sequence :: u32

record BRTxOutput =
  to_address :: string
  to_amount :: u64
  to_script :: "bytes option"

record BRTransaction =
  tx_txHash :: UInt256
  tx_version :: u32
  tx_inputs :: "BRTxInput list"
  tx_outputs :: "BRTxOutput list"
  tx_lockTime :: u32
  tx_blockHeight :: u32
  tx_timestamp :: u32

definition TX_FEE_PER_KB :: u64 where "TX_FEE_PER_KB = 1000"
definition TX_OUTPUT_SIZE :: nat where "TX_OUTPUT_SIZE = 34"
definition TX_INPUT_SIZE :: nat where "TX_INPUT_SIZE = 148"
definition TX_UNCONFIRMED :: u32 where "TX_UNCONFIRMED = 0x7fffffff"
definition TXIN_SEQUENCE :: u32 where "TXIN_SEQUENCE = 0xffffffff"
definition TX_VERSION :: u32 where "TX_VERSION = 0x00000001"
definition TX_LOCKTIME :: u32 where "TX_LOCKTIME = 0x00000000"
definition SIGHASH_ALL :: u32 where "SIGHASH_ALL = 0x01"
definition SIGHASH_NONE :: u32 where "SIGHASH_NONE = 0x02"
definition SIGHASH_SINGLE :: u32 where "SIGHASH_SINGLE = 0x03"
definition SIGHASH_ANYONECANPAY :: u32 where "SIGHASH_ANYONECANPAY = 0x80"
definition SIGHASH_FORKID :: u32 where "SIGHASH_FORKID = 0x40"
definition BR_RAND_MAX :: u32 where "BR_RAND_MAX = 0x7fffffff"

abbreviation buf_of :: "bytes option \<Rightarrow> bytes" where
  "buf_of b \<equiv> (case b of None \<Rightarrow> [] | Some s \<Rightarrow> s)"

section \<open>Random numbers\<close>

text \<open>
  The values that \<open>rand\<close> will return are a list, which a run consumes; \<open>None\<close> is a list that is used up
  before a value is accepted.
\<close>

definition rand_bound :: "u32 \<Rightarrow> u32" where
  "rand_bound upperBound = (if upperBound = 0 \<or> BR_RAND_MAX < upperBound then BR_RAND_MAX else upperBound)"

fun rand_loop :: "u32 \<Rightarrow> u32 list \<Rightarrow> (u32 \<times> u32 list) option" where
  "rand_loop bound [] = None"
| "rand_loop bound (r # rs) =
     (if r < (0xffffffff - bound * 2 + 1) mod bound then rand_loop bound rs else Some (r mod bound, rs))"

definition BRRand :: "u32 \<Rightarrow> u32 list \<Rightarrow> (u32 \<times> u32 list) option" where
  "BRRand upperBound rs = rand_loop (rand_bound upperBound) rs"

section \<open>Inputs and outputs\<close>

definition script_for_address :: "string \<Rightarrow> bytes res" where
  "script_for_address address =
     rbind (BRAddressScriptPubKey None address) (\<lambda>(scriptLen, _).
     rbind (BRAddressScriptPubKey (Some scriptLen) address) (\<lambda>(_, out).
     Inr (case out of None \<Rightarrow> replicate scriptLen 0 | Some s \<Rightarrow> s)))"

definition valid_or_null :: "string option \<Rightarrow> bool res" where
  "valid_or_null address = (case address of None \<Rightarrow> Inr True | Some a \<Rightarrow> BRAddressIsValid a)"

definition BRTxInputSetAddress :: "BRTxInput \<Rightarrow> string option \<Rightarrow> BRTxInput res" where
  "BRTxInputSetAddress input address =
     rbind (valid_or_null address) (\<lambda>valid.
     if \<not> valid then Inl AssertFailed
     else (let input = input\<lparr>ti_script := None, ti_address := ''''\<rparr> in
       case address of
         None \<Rightarrow> Inr input
       | Some a \<Rightarrow> rbind (script_for_address a) (\<lambda>s.
           Inr (input\<lparr>ti_address := take 74 a, ti_script := Some s\<rparr>))))"

definition script_address :: "bytes \<Rightarrow> string res" where
  "script_address script =
     rbind (BRAddressFromScriptPubKey (Some 75) script) (\<lambda>(_, a).
     Inr (case a of None \<Rightarrow> '''' | Some s \<Rightarrow> s))"

definition BRTxInputSetScript :: "BRTxInput \<Rightarrow> bytes option \<Rightarrow> BRTxInput res" where
  "BRTxInputSetScript input script =
     (let input = input\<lparr>ti_script := None, ti_address := ''''\<rparr> in
      case script of
        None \<Rightarrow> Inr input
      | Some s \<Rightarrow> rbind (script_address s) (\<lambda>a. Inr (input\<lparr>ti_script := Some s, ti_address := a\<rparr>)))"

definition BRTxInputSetSignature :: "BRTxInput \<Rightarrow> bytes option \<Rightarrow> BRTxInput res" where
  "BRTxInputSetSignature input signature =
     (case signature of
        None \<Rightarrow> Inr (input\<lparr>ti_signature := None\<rparr>)
      | Some s \<Rightarrow>
          let input = input\<lparr>ti_signature := Some s\<rparr> in
          if ti_address input = [] then
            rbind (BRAddressFromScriptSig (Some 75) s) (\<lambda>(_, a).
            Inr (input\<lparr>ti_address := (case a of None \<Rightarrow> '''' | Some t \<Rightarrow> t)\<rparr>))
          else Inr input)"

definition BRTxOutputSetAddress :: "BRTxOutput \<Rightarrow> string option \<Rightarrow> BRTxOutput res" where
  "BRTxOutputSetAddress output address =
     rbind (valid_or_null address) (\<lambda>valid.
     if \<not> valid then Inl AssertFailed
     else (let output = output\<lparr>to_script := None, to_address := ''''\<rparr> in
       case address of
         None \<Rightarrow> Inr output
       | Some a \<Rightarrow> rbind (script_for_address a) (\<lambda>s.
           Inr (output\<lparr>to_address := take 74 a, to_script := Some s\<rparr>))))"

definition BRTxOutputSetScript :: "BRTxOutput \<Rightarrow> bytes option \<Rightarrow> BRTxOutput res" where
  "BRTxOutputSetScript output script =
     (let output = output\<lparr>to_script := None, to_address := ''''\<rparr> in
      case script of
        None \<Rightarrow> Inr output
      | Some s \<Rightarrow> rbind (script_address s) (\<lambda>a. Inr (output\<lparr>to_script := Some s, to_address := a\<rparr>)))"

section \<open>Serialisation\<close>

definition put_varint :: "u64 \<Rightarrow> writer" where
  "put_varint i data =
     (case data of
        None \<Rightarrow> (fst (BRVarIntSet None i), None)
      | Some d \<Rightarrow> (case BRVarIntSet (Some (length d)) i of
          (n, w) \<Rightarrow> (n, Some (case w of None \<Rightarrow> d | Some bs \<Rightarrow> store d 0 bs))))"

definition poke_varint :: "nat \<Rightarrow> bytes \<times> nat \<Rightarrow> (bytes \<times> nat) res" where
  "poke_varint n st = (case st of (d, off) \<Rightarrow>
     (case snd (BRVarIntSet (Some (length d - off)) (of_nat n)) of
        None \<Rightarrow> Inr (d, off)
      | Some bs \<Rightarrow> poke bs (d, off)))"

definition BRTxInputData :: "BRTxInput \<Rightarrow> writer" where
  "BRTxInputData input data =
     (let out = put (UInt256Set (ti_txHash input)) (data, 0);
          out = put (UInt32SetLE (ti_index input)) out;
          out = sub (put_varint (of_nat (length (buf_of (ti_signature input))))) out;
          out = put (buf_of (ti_signature input)) out;
          out = (if ti_amount input \<noteq> 0 then put (UInt64SetLE (ti_amount input)) out else out);
          out = put (UInt32SetLE (ti_sequence input)) out
      in finish out)"

definition put_output :: "BRTxOutput \<Rightarrow> out \<Rightarrow> out" where
  "put_output output out =
     (let out = put (UInt64SetLE (to_amount output)) out;
          out = sub (put_varint (of_nat (length (buf_of (to_script output))))) out
      in put (buf_of (to_script output)) out)"

text \<open>An index of \<open>SIZE_MAX\<close> is \<open>None\<close>. The loop goes over all the outputs, or over the one at the index.\<close>

definition outputs_at :: "BRTransaction \<Rightarrow> nat option \<Rightarrow> BRTxOutput list" where
  "outputs_at tx index =
     (case index of
        None \<Rightarrow> tx_outputs tx
      | Some i \<Rightarrow> if i < length (tx_outputs tx) then [tx_outputs tx ! i] else [])"

definition BRTransactionOutputData :: "BRTransaction \<Rightarrow> nat option \<Rightarrow> writer" where
  "BRTransactionOutputData tx index data =
     finish (foldl (\<lambda>out output. put_output output out) (data, 0) (outputs_at tx index))"

definition index_in :: "nat option \<Rightarrow> 'a list \<Rightarrow> bool" where
  "index_in index xs = (case index of None \<Rightarrow> False | Some i \<Rightarrow> i < length xs)"

definition prevout_buf :: "BRTransaction \<Rightarrow> bytes" where
  "prevout_buf tx = concat (map (\<lambda>input. UInt256Set (ti_txHash input) @ UInt32SetLE (ti_index input)) (tx_inputs tx))"

definition sequence_buf :: "BRTransaction \<Rightarrow> bytes" where
  "sequence_buf tx = concat (map (\<lambda>input. UInt32SetLE (ti_sequence input)) (tx_inputs tx))"

definition BRTransactionWitnessData :: "BRTransaction \<Rightarrow> nat option \<Rightarrow> u32 \<Rightarrow> writer" where
  "BRTransactionWitnessData tx index hashType data =
     (let anyoneCanPay = (hashType AND SIGHASH_ANYONECANPAY \<noteq> 0); sigHash = hashType AND 0x1f in
      if \<not> index_in index (tx_inputs tx) then (0, data)
      else
        let out = put (UInt32SetLE (tx_version tx)) (data, 0);
            out = put (if \<not> anyoneCanPay then BRSHA256_2 (prevout_buf tx) else UInt256Set 0) out;
            out = put (if \<not> anyoneCanPay \<and> sigHash \<noteq> SIGHASH_SINGLE \<and> sigHash \<noteq> SIGHASH_NONE
                       then BRSHA256_2 (sequence_buf tx) else UInt256Set 0) out;
            input = tx_inputs tx ! the index;
            input = input\<lparr>ti_signature := ti_script input\<rparr>;
            out = sub (BRTxInputData input) out;
            out = put (if sigHash \<noteq> SIGHASH_SINGLE \<and> sigHash \<noteq> SIGHASH_NONE
                       then BRSHA256_2 (serialized (BRTransactionOutputData tx None))
                       else if sigHash = SIGHASH_SINGLE \<and> index_in index (tx_outputs tx)
                       then BRSHA256_2 (serialized (BRTransactionOutputData tx index))
                       else UInt256Set 0) out;
            out = put (UInt32SetLE (tx_lockTime tx)) out;
            out = put (UInt32SetLE hashType) out
        in finish out)"

text \<open>The input as it is written when the input at \<open>index\<close> is signed, or the whole transaction serialised.\<close>

definition signing_input :: "nat option \<Rightarrow> u32 \<Rightarrow> nat \<Rightarrow> BRTxInput \<Rightarrow> BRTxInput" where
  "signing_input index sigHash i input =
     (if index = Some i \<or> (index = None \<and> ti_signature input = None) then
        input\<lparr>ti_signature := ti_script input,
              ti_amount := if index = Some i then 0 else ti_amount input\<rparr>
      else if index \<noteq> None then
        input\<lparr>ti_signature := map_option (\<lambda>_. []) (ti_signature input),
              ti_sequence := if sigHash = SIGHASH_NONE \<or> sigHash = SIGHASH_SINGLE then 0 else ti_sequence input,
              ti_amount := 0\<rparr>
      else input\<lparr>ti_amount := 0\<rparr>)"

definition put_empty_output :: "out \<Rightarrow> out" where
  "put_empty_output out = sub (put_varint 0) (put (UInt64SetLE (- 1)) out)"

definition BRTransactionData :: "BRTransaction \<Rightarrow> nat option \<Rightarrow> u32 \<Rightarrow> writer" where
  "BRTransactionData tx index hashType data =
     (let anyoneCanPay = (hashType AND SIGHASH_ANYONECANPAY \<noteq> 0); sigHash = hashType AND 0x1f in
      if hashType AND SIGHASH_FORKID \<noteq> 0 then BRTransactionWitnessData tx index hashType data
      else if anyoneCanPay \<and> \<not> index_in index (tx_inputs tx) then (0, data)
      else
        let out = put (UInt32SetLE (tx_version tx)) (data, 0);
            out = (if \<not> anyoneCanPay then
                     foldl (\<lambda>out (i, input). sub (BRTxInputData (signing_input index sigHash i input)) out)
                       (sub (put_varint (of_nat (length (tx_inputs tx)))) out)
                       (enumerate 0 (tx_inputs tx))
                   else
                     let input = tx_inputs tx ! the index
                     in sub (BRTxInputData (input\<lparr>ti_signature := ti_script input, ti_amount := 0\<rparr>))
                          (sub (put_varint 1) out));
            out = (if sigHash \<noteq> SIGHASH_SINGLE \<and> sigHash \<noteq> SIGHASH_NONE then
                     sub (BRTransactionOutputData tx None)
                       (sub (put_varint (of_nat (length (tx_outputs tx)))) out)
                   else if sigHash = SIGHASH_SINGLE \<and> index_in index (tx_outputs tx) then
                     sub (BRTransactionOutputData tx index)
                       (foldl (\<lambda>out _. put_empty_output out)
                          (sub (put_varint (of_nat (the index + 1))) out) [0..<the index])
                   else sub (put_varint 0) out);
            out = put (UInt32SetLE (tx_lockTime tx)) out;
            out = (if index \<noteq> None then put (UInt32SetLE hashType) out else out)
        in finish out)"

definition BRTransactionSerialize :: "BRTransaction \<Rightarrow> writer" where
  "BRTransactionSerialize tx data = BRTransactionData tx None SIGHASH_ALL data"

section \<open>Building transactions\<close>

definition BRTransactionNew :: BRTransaction where
  "BRTransactionNew = \<lparr>tx_txHash = 0, tx_version = TX_VERSION, tx_inputs = [], tx_outputs = [],
     tx_lockTime = TX_LOCKTIME, tx_blockHeight = TX_UNCONFIRMED, tx_timestamp = 0\<rparr>"

definition BRTransactionAddInput ::
    "BRTransaction \<Rightarrow> UInt256 \<Rightarrow> u32 \<Rightarrow> u64 \<Rightarrow> bytes option \<Rightarrow> bytes option \<Rightarrow> u32 \<Rightarrow> BRTransaction res" where
  "BRTransactionAddInput tx txHash index amount script signature sequence =
     (let input = \<lparr>ti_txHash = txHash, ti_index = index, ti_address = '''', ti_amount = amount,
                   ti_script = None, ti_signature = None, ti_sequence = sequence\<rparr> in
      if UInt256IsZero txHash then Inl AssertFailed
      else
        rbind (if script \<noteq> None then BRTxInputSetScript input script else Inr input) (\<lambda>input.
        rbind (if signature \<noteq> None then BRTxInputSetSignature input signature else Inr input) (\<lambda>input.
        Inr (tx\<lparr>tx_inputs := tx_inputs tx @ [input]\<rparr>))))"

definition BRTransactionAddOutput :: "BRTransaction \<Rightarrow> u64 \<Rightarrow> bytes option \<Rightarrow> BRTransaction res" where
  "BRTransactionAddOutput tx amount script =
     rbind (BRTxOutputSetScript \<lparr>to_address = '''', to_amount = amount, to_script = None\<rparr> script) (\<lambda>output.
     Inr (tx\<lparr>tx_outputs := tx_outputs tx @ [output]\<rparr>))"

fun copy_inputs :: "BRTxInput list \<Rightarrow> BRTransaction \<Rightarrow> BRTransaction res" where
  "copy_inputs [] cpy = Inr cpy"
| "copy_inputs (i # is) cpy =
     rbind (BRTransactionAddInput cpy (ti_txHash i) (ti_index i) (ti_amount i) (ti_script i)
              (ti_signature i) (ti_sequence i)) (copy_inputs is)"

fun copy_outputs :: "BRTxOutput list \<Rightarrow> BRTransaction \<Rightarrow> BRTransaction res" where
  "copy_outputs [] cpy = Inr cpy"
| "copy_outputs (o' # os) cpy =
     rbind (BRTransactionAddOutput cpy (to_amount o') (to_script o')) (copy_outputs os)"

definition BRTransactionCopy :: "BRTransaction \<Rightarrow> BRTransaction res" where
  "BRTransactionCopy tx =
     rbind (copy_inputs (tx_inputs tx) (tx\<lparr>tx_inputs := [], tx_outputs := []\<rparr>)) (copy_outputs (tx_outputs tx))"

text \<open>
  The Fisher-Yates shuffle. The counter is a \<open>uint32_t\<close>, which no transaction in memory exceeds.
\<close>

definition swap_at :: "nat \<Rightarrow> nat \<Rightarrow> 'a list \<Rightarrow> 'a list" where
  "swap_at i j xs = xs[i := xs ! j, j := xs ! i]"

function shuffle_loop :: "nat \<Rightarrow> BRTxOutput list \<Rightarrow> u32 list \<Rightarrow> (BRTxOutput list \<times> u32 list) option" where
  "shuffle_loop i os rs =
     (if i + 1 < length os then
        (case BRRand (of_nat (length os) - of_nat i) rs of
           None \<Rightarrow> None
         | Some (r, rs) \<Rightarrow>
             let j = unat (of_nat i + r)
             in shuffle_loop (i + 1) (if j \<noteq> i then swap_at i j os else os) rs)
      else Some (os, rs))"
  by pat_completeness auto
termination
  by (relation "measure (\<lambda>(i, os, _). length os - i)") (auto simp: swap_at_def)

declare shuffle_loop.simps [simp del]

definition BRTransactionShuffleOutputs :: "BRTransaction \<Rightarrow> u32 list \<Rightarrow> (BRTransaction \<times> u32 list) option" where
  "BRTransactionShuffleOutputs tx rs =
     (case shuffle_loop 0 (tx_outputs tx) rs of
        None \<Rightarrow> None
      | Some (os, rs) \<Rightarrow> Some (tx\<lparr>tx_outputs := os\<rparr>, rs))"

section \<open>Size and fee\<close>

definition varint_size :: "nat \<Rightarrow> nat" where
  "varint_size n = BRVarIntSize (of_nat n)"

definition input_size :: "BRTxInput \<Rightarrow> nat" where
  "input_size input =
     (case ti_signature input of
        None \<Rightarrow> TX_INPUT_SIZE
      | Some s \<Rightarrow> 32 + 4 + varint_size (length s) + length s + 4)"

definition output_size :: "BRTxOutput \<Rightarrow> nat" where
  "output_size output = 8 + varint_size (length (buf_of (to_script output))) + length (buf_of (to_script output))"

definition BRTransactionSize :: "BRTransaction \<Rightarrow> nat" where
  "BRTransactionSize tx =
     (let size = 8 + varint_size (length (tx_inputs tx)) + varint_size (length (tx_outputs tx));
          size = foldl (\<lambda>size input. size + input_size input) size (tx_inputs tx)
      in foldl (\<lambda>size output. size + output_size output) size (tx_outputs tx))"

definition BRTransactionStandardFee :: "BRTransaction \<Rightarrow> u64" where
  "BRTransactionStandardFee tx = of_nat (BRTransactionSize tx) * TX_FEE_PER_KB div 1000"

definition BRTransactionIsSigned :: "BRTransaction \<Rightarrow> bool" where
  "BRTransactionIsSigned tx \<longleftrightarrow> list_all (\<lambda>input. ti_signature input \<noteq> None) (tx_inputs tx)"

definition BRTransactionIsStandard :: "BRTransaction \<Rightarrow> bool" where
  "BRTransactionIsStandard tx = True"

section \<open>Hashing and equality\<close>

definition BRTransactionHash :: "BRTransaction \<Rightarrow> nat" where
  "BRTransactionHash tx = unat (ucast (tx_txHash tx) :: u32)"

definition BRTransactionEq :: "BRTransaction \<Rightarrow> BRTransaction \<Rightarrow> bool" where
  "BRTransactionEq tx otherTx \<longleftrightarrow> tx = otherTx \<or> tx_txHash tx = tx_txHash otherTx"

section \<open>Parsing\<close>

text \<open>
  Offsets are of type \<open>size_t\<close> and wrap around. A length in the buffer may be any 64 bit value, so
  \<open>off + sLen\<close> can wrap; the access to the buffer that follows is checked against what the buffer holds.
\<close>

definition size_add :: "nat \<Rightarrow> nat \<Rightarrow> nat" where
  "size_add a b = (a + b) mod 2 ^ 64"

definition get_at :: "(bytes \<Rightarrow> 'a::zero) \<Rightarrow> nat \<Rightarrow> bytes \<Rightarrow> nat \<Rightarrow> 'a" where
  "get_at get n buf off = (if size_add off n \<le> length buf then get (drop off buf) else 0)"

definition varint_at :: "bytes \<Rightarrow> nat \<Rightarrow> nat \<times> nat" where
  "varint_at buf off = (case BRVarInt (drop off buf) of (i, len) \<Rightarrow> (unat i, size_add off len))"

text \<open>
  \<open>array_set_count\<close> of \<open>BRArray.h\<close> on an empty array: \<open>mem\<close> is the largest block that \<open>realloc\<close> returns. The
  product of the count and the item size wraps around, so the block may hold fewer items than the count.
  The result is the number of items that it does hold.
\<close>

definition array_set_count :: "nat \<Rightarrow> nat \<Rightarrow> nat \<Rightarrow> nat \<Rightarrow> nat res" where
  "array_set_count mem itemSize capacity count =
     (if count \<le> capacity then Inr capacity
      else
        let block = (count * itemSize + 16) mod 2 ^ 64; cleared = (count - capacity) * itemSize mod 2 ^ 64 in
        if mem < block then Inl NullDeref
        else if block < 16 + capacity * itemSize + cleared then Inl OutOfBounds
        else Inr ((block - 16) div itemSize))"

definition TXINPUT_SIZEOF :: nat where "TXINPUT_SIZEOF = 160"
definition TXOUTPUT_SIZEOF :: nat where "TXOUTPUT_SIZEOF = 104"

definition zero_input :: BRTxInput where
  "zero_input = \<lparr>ti_txHash = 0, ti_index = 0, ti_address = '''', ti_amount = 0, ti_script = None,
     ti_signature = None, ti_sequence = 0\<rparr>"

definition zero_output :: BRTxOutput where
  "zero_output = \<lparr>to_address = '''', to_amount = 0, to_script = None\<rparr>"

text \<open>The script or signature of an input, with the offset after it and whether the input is signed.\<close>

definition parse_input_script :: "bytes \<Rightarrow> nat \<Rightarrow> nat \<Rightarrow> BRTxInput \<Rightarrow> (BRTxInput \<times> nat \<times> bool) res" where
  "parse_input_script buf off sLen input =
     (if size_add off sLen \<le> length buf then
        rbind (script_sub buf off sLen) (\<lambda>s.
        rbind (BRAddressFromScriptPubKey None s) (\<lambda>(n, _).
        if 0 < n then
          rbind (BRTxInputSetScript input (Some s)) (\<lambda>input.
          let amount = (if size_add (size_add off sLen) 8 \<le> length buf
                        then UInt64GetLE (drop (size_add off sLen) buf) else 0)
          in Inr (input\<lparr>ti_amount := amount\<rparr>, size_add (size_add off 8) sLen, False))
        else
          rbind (BRTxInputSetSignature input (Some s)) (\<lambda>input.
          Inr (input, size_add off sLen, True))))
      else Inr (input, size_add off sLen, True))"

definition parse_input :: "bytes \<Rightarrow> nat \<Rightarrow> (BRTxInput \<times> nat \<times> bool) res" where
  "parse_input buf off =
     (let input = zero_input\<lparr>ti_txHash := get_at UInt256Get 32 buf off\<rparr>;
          off = size_add off 32;
          input = input\<lparr>ti_index := get_at UInt32GetLE 4 buf off\<rparr>;
          off = size_add off 4;
          (sLen, off) = varint_at buf off
      in rbind (parse_input_script buf off sLen input) (\<lambda>(input, off, isSigned).
         Inr (input\<lparr>ti_sequence := get_at UInt32GetLE 4 buf off\<rparr>, size_add off 4, isSigned)))"

definition parse_output :: "bytes \<Rightarrow> nat \<Rightarrow> (BRTxOutput \<times> nat) res" where
  "parse_output buf off =
     (let output = zero_output\<lparr>to_amount := get_at UInt64GetLE 8 buf off\<rparr>;
          off = size_add off 8;
          (sLen, off) = varint_at buf off
      in if size_add off sLen \<le> length buf then
           rbind (script_sub buf off sLen) (\<lambda>s.
           rbind (BRTxOutputSetScript output (Some s)) (\<lambda>output.
           Inr (output, size_add off sLen)))
         else Inr (output, size_add off sLen))"

text \<open>
  The loops, on the number of items left and the number that the array still holds. Items that the loop does
  not reach are zero.
\<close>

function parse_inputs :: "bytes \<Rightarrow> nat \<Rightarrow> nat \<Rightarrow> nat \<Rightarrow> bool \<Rightarrow> (BRTxInput list \<times> nat \<times> bool) res" where
  "parse_inputs buf room n off isSigned =
     (if off \<le> length buf \<and> 0 < n then
        if room = 0 then Inl OutOfBounds
        else rbind (parse_input buf off) (\<lambda>(input, off, s).
             rbind (parse_inputs buf (room - 1) (n - 1) off (isSigned \<and> s)) (\<lambda>(inputs, off, isSigned).
             Inr (input # inputs, off, isSigned)))
      else Inr (replicate n zero_input, off, isSigned))"
  by pat_completeness auto
termination
  by (relation "measure (\<lambda>(_, _, n, _). n)") auto

declare parse_inputs.simps [simp del]

function parse_outputs :: "bytes \<Rightarrow> nat \<Rightarrow> nat \<Rightarrow> nat \<Rightarrow> (BRTxOutput list \<times> nat) res" where
  "parse_outputs buf room n off =
     (if off \<le> length buf \<and> 0 < n then
        if room = 0 then Inl OutOfBounds
        else rbind (parse_output buf off) (\<lambda>(output, off).
             rbind (parse_outputs buf (room - 1) (n - 1) off) (\<lambda>(outputs, off).
             Inr (output # outputs, off)))
      else Inr (replicate n zero_output, off))"
  by pat_completeness auto
termination
  by (relation "measure (\<lambda>(_, _, n, _). n)") auto

declare parse_outputs.simps [simp del]

text \<open>
  A failed parse frees the transaction, which reads every item of both arrays.
\<close>

definition BRTransactionParse :: "nat \<Rightarrow> bytes \<Rightarrow> BRTransaction option res" where
  "BRTransactionParse mem buf =
     (let version = get_at UInt32GetLE 4 buf 0;
          off = 4;
          (inCount, off) = varint_at buf off
      in rbind (array_set_count mem TXINPUT_SIZEOF 1 inCount) (\<lambda>inRoom.
         rbind (parse_inputs buf inRoom inCount off True) (\<lambda>(inputs, off, isSigned).
         let (outCount, off) = varint_at buf off
         in rbind (array_set_count mem TXOUTPUT_SIZEOF 2 outCount) (\<lambda>outRoom.
            rbind (parse_outputs buf outRoom outCount off) (\<lambda>(outputs, off).
            let lockTime = get_at UInt32GetLE 4 buf off;
                off = size_add off 4
            in if inCount = 0 \<or> length buf < off then
                 (if inRoom < inCount \<or> outRoom < outCount then Inl OutOfBounds else Inr None)
               else Inr (Some (BRTransactionNew
                      \<lparr>tx_version := version, tx_inputs := inputs, tx_outputs := outputs, tx_lockTime := lockTime,
                       tx_txHash := if isSigned then UInt256Get (BRSHA256_2 (take off buf)) else 0\<rparr>)))))))"

section \<open>Signing\<close>

definition key_addresses :: "secp256k1 \<Rightarrow> BRKey list \<Rightarrow> string list \<times> BRKey list" where
  "key_addresses S keys =
     foldl (\<lambda>(addrs, ks) key.
       case BRKeyAddress S (Some 75) key of
         ((n, a), key) \<Rightarrow> (addrs @ [case a of None \<Rightarrow> '''' | Some s \<Rightarrow> if n = 0 then '''' else s], ks @ [key]))
       ([], []) keys"

text \<open>The index of the first address that is equal, or the number of addresses.\<close>

fun first_addr :: "string list \<Rightarrow> string \<Rightarrow> nat" where
  "first_addr [] address = 0"
| "first_addr (a # as) address = (if BRAddressEq a address then 0 else Suc (first_addr as address))"

text \<open>
  The signature script of the input at \<open>i\<close>: the signature with the hash type after it, and for
  pay-to-pubkey-hash the public key.
\<close>

definition sign_script ::
    "secp256k1 \<Rightarrow> BRTransaction \<Rightarrow> u32 \<Rightarrow> nat \<Rightarrow> bool \<Rightarrow> bytes \<Rightarrow> BRKey \<Rightarrow> bytes" where
  "sign_script S tx forkId i toHash pubKey key =
     (let data = serialized (BRTransactionData tx (Some i) (forkId OR SIGHASH_ALL));
          md = UInt256Get (BRSHA256_2 data);
          sig = BRKeySign S (73 - 1) md key @ [ucast (forkId OR SIGHASH_ALL)];
          size = 1 + 73 + 1 + length pubKey;
          (scriptLen, script) = BRScriptPushData (Some size) sig
      in if toHash then
           (case BRScriptPushData (Some (size - scriptLen)) pubKey of
              (n, script') \<Rightarrow> buf_of script @ buf_of script')
         else buf_of script)"

definition sign_input ::
    "secp256k1 \<Rightarrow> u32 \<Rightarrow> string list \<Rightarrow> nat \<Rightarrow> BRTransaction \<times> BRKey list \<Rightarrow> (BRTransaction \<times> BRKey list) res" where
  "sign_input S forkId addrs i st =
     (case st of (tx, keys) \<Rightarrow>
        let input = tx_inputs tx ! i; script = buf_of (ti_script input) in
        rbind (BRAddressFromScriptPubKey (Some 75) script) (\<lambda>(n, a).
        if n = 0 then Inr (tx, keys)
        else
          let j = first_addr addrs (case a of None \<Rightarrow> '''' | Some s \<Rightarrow> s) in
          if length keys \<le> j then Inr (tx, keys)
          else
            let elems = BRScriptElements (Some (length (BRScriptElements None script))) script;
                ((pkSize, _), key) = BRKeyPubKey S None (keys ! j);
                ((pkLen, pub), key) = BRKeyPubKey S (Some pkSize) key;
                toHash = (2 \<le> length elems \<and> script ! (elems ! (length elems - 2)) = OP_EQUALVERIFY)
            in rbind (BRTxInputSetSignature input
                       (Some (sign_script S tx forkId i toHash (buf_of pub) key))) (\<lambda>input.
               Inr (tx\<lparr>tx_inputs := (tx_inputs tx)[i := input]\<rparr>, keys[j := key]))))"

fun sign_loop ::
    "secp256k1 \<Rightarrow> u32 \<Rightarrow> string list \<Rightarrow> nat list \<Rightarrow> BRTransaction \<times> BRKey list \<Rightarrow> (BRTransaction \<times> BRKey list) res" where
  "sign_loop S forkId addrs [] st = Inr st"
| "sign_loop S forkId addrs (i # is) st = rbind (sign_input S forkId addrs i st) (sign_loop S forkId addrs is)"

definition BRTransactionSign ::
    "secp256k1 \<Rightarrow> BRTransaction \<Rightarrow> u32 \<Rightarrow> BRKey list \<Rightarrow> (bool \<times> BRTransaction \<times> BRKey list) res" where
  "BRTransactionSign S tx forkId keys =
     (let (addrs, keys) = key_addresses S keys in
      rbind (sign_loop S forkId addrs [0..<length (tx_inputs tx)] (tx, keys)) (\<lambda>(tx, keys).
      if BRTransactionIsSigned tx
      then Inr (True, tx\<lparr>tx_txHash := UInt256Get (BRSHA256_2 (serialized (BRTransactionData tx None 0)))\<rparr>, keys)
      else Inr (False, tx, keys)))"

end
