(* ===== verification/BRTransactionCorrect.thy ===== *)
theory BRTransactionCorrect
  imports BRTransaction BRKeyCorrect "HOL-Library.Multiset"
begin

text \<open>
  Correctness of \<open>BRTransaction.c\<close>: the serialisers write the format of the protocol, the parser reads it
  back, sizes and signing.
\<close>

section \<open>The serialised form\<close>

definition input_bytes :: "BRTxInput \<Rightarrow> bytes" where
  "input_bytes input =
     UInt256Set (ti_txHash input) @ UInt32SetLE (ti_index input) @
     varint_bytes (of_nat (length (buf_of (ti_signature input)))) @ buf_of (ti_signature input) @
     (if ti_amount input \<noteq> 0 then UInt64SetLE (ti_amount input) else []) @ UInt32SetLE (ti_sequence input)"

definition output_bytes :: "BRTxOutput \<Rightarrow> bytes" where
  "output_bytes output =
     UInt64SetLE (to_amount output) @ varint_bytes (of_nat (length (buf_of (to_script output)))) @
     buf_of (to_script output)"

text \<open>The data of \<open>_BRTransactionData\<close> without the digest of BIP143.\<close>

definition data_inputs :: "BRTransaction \<Rightarrow> nat option \<Rightarrow> u32 \<Rightarrow> bytes" where
  "data_inputs tx index hashType =
     (if hashType AND SIGHASH_ANYONECANPAY = 0 then
        varint_bytes (of_nat (length (tx_inputs tx))) @
        concat (map (\<lambda>(i, input). input_bytes (signing_input index (hashType AND 0x1f) i input))
          (enumerate 0 (tx_inputs tx)))
      else varint_bytes 1 @
        input_bytes ((tx_inputs tx ! the index)\<lparr>ti_signature := ti_script (tx_inputs tx ! the index), ti_amount := 0\<rparr>))"

definition data_outputs :: "BRTransaction \<Rightarrow> nat option \<Rightarrow> u32 \<Rightarrow> bytes" where
  "data_outputs tx index sigHash =
     (if sigHash \<noteq> SIGHASH_SINGLE \<and> sigHash \<noteq> SIGHASH_NONE then
        varint_bytes (of_nat (length (tx_outputs tx))) @ concat (map output_bytes (tx_outputs tx))
      else if sigHash = SIGHASH_SINGLE \<and> index_in index (tx_outputs tx) then
        varint_bytes (of_nat (the index + 1)) @
        concat (replicate (the index) (UInt64SetLE (- 1) @ varint_bytes 0)) @
        output_bytes (tx_outputs tx ! the index)
      else varint_bytes 0)"

definition data_bytes :: "BRTransaction \<times> nat option \<times> u32 \<Rightarrow> bytes" where
  "data_bytes = (\<lambda>(tx, index, hashType).
     UInt32SetLE (tx_version tx) @ data_inputs tx index hashType @
     data_outputs tx index (hashType AND 0x1f) @ UInt32SetLE (tx_lockTime tx) @
     (if index \<noteq> None then UInt32SetLE hashType else []))"

text \<open>The preimage of BIP143.\<close>

definition witness_bytes :: "BRTransaction \<times> nat option \<times> u32 \<Rightarrow> bytes" where
  "witness_bytes = (\<lambda>(tx, index, hashType).
     let anyoneCanPay = (hashType AND SIGHASH_ANYONECANPAY \<noteq> 0); sigHash = hashType AND 0x1f;
         input = tx_inputs tx ! the index
     in UInt32SetLE (tx_version tx) @
        (if anyoneCanPay then UInt256Set 0 else BRSHA256_2 (prevout_buf tx)) @
        (if \<not> anyoneCanPay \<and> sigHash \<noteq> SIGHASH_SINGLE \<and> sigHash \<noteq> SIGHASH_NONE
         then BRSHA256_2 (sequence_buf tx) else UInt256Set 0) @
        input_bytes (input\<lparr>ti_signature := ti_script input\<rparr>) @
        (if sigHash \<noteq> SIGHASH_SINGLE \<and> sigHash \<noteq> SIGHASH_NONE
         then BRSHA256_2 (concat (map output_bytes (tx_outputs tx)))
         else if sigHash = SIGHASH_SINGLE \<and> index_in index (tx_outputs tx)
         then BRSHA256_2 (output_bytes (tx_outputs tx ! the index))
         else UInt256Set 0) @
        UInt32SetLE (tx_lockTime tx) @ UInt32SetLE hashType)"

interpretation varint: serializer put_varint varint_bytes "\<lambda>_. True"
  by unfold_locales (auto simp: emits_def put_varint_def BRVarIntSet_def Let_def store_def)

interpretation input: serializer BRTxInputData input_bytes "\<lambda>_. True"
proof
  fix input :: BRTxInput
  show "emits (BRTxInputData input) (input_bytes input)"
    unfolding BRTxInputData_def[abs_def] Let_def input_bytes_def
    by (rule emits_finish, rule appends_cong, rule appends_then_put, rule appends_if,
        (rule appends_steps varint.emits_enc TrueI)+) simp
qed

lemma appends_output: "appends (put_output output) (output_bytes output)"
  unfolding put_output_def[abs_def] Let_def output_bytes_def
  by (rule appends_cong, (rule appends_steps varint.emits_enc TrueI)+) simp

interpretation outputs: serializer "\<lambda>(tx, index). BRTransactionOutputData tx index"
    "\<lambda>(tx, index). concat (map output_bytes (outputs_at tx index))" "\<lambda>_. True"
  by unfold_locales
    (auto simp: BRTransactionOutputData_def[abs_def] intro!: emits_finish appends_foldl appends_output)

lemma serialized_outputs:
  "serialized (BRTransactionOutputData tx index) = concat (map output_bytes (outputs_at tx index))"
  using outputs.serialized_enc[of "(tx, index)"] by simp

interpretation witness: serializer "\<lambda>(tx, index, hashType). BRTransactionWitnessData tx index hashType"
    witness_bytes "\<lambda>(tx, index, hashType). index_in index (tx_inputs tx)"
proof (unfold_locales, clarify)
  fix tx :: BRTransaction and index hashType
  assume "index_in index (tx_inputs tx)"
  then have c: "(\<not> index_in index (tx_inputs tx)) = False" by simp
  show "emits (BRTransactionWitnessData tx index hashType) (witness_bytes (tx, index, hashType))"
    unfolding BRTransactionWitnessData_def[abs_def] Let_def c if_False
    by (rule emits_finish, rule appends_cong, (rule appends_steps input.emits_enc TrueI)+)
      (auto simp: witness_bytes_def Let_def serialized_outputs outputs_at_def index_in_def
        split: option.splits)
qed

lemma appends_empty_output: "appends put_empty_output (UInt64SetLE (- 1) @ varint_bytes 0)"
  unfolding put_empty_output_def[abs_def]
  by (rule appends_cong, (rule appends_steps varint.emits_enc TrueI)+) simp

text \<open>The part of \<open>_BRTransactionData\<close> that writes the inputs, and the part that writes the outputs.\<close>

lemma appends_inputs:
  assumes "appends f bs"
  shows "appends (\<lambda>x. if hashType AND SIGHASH_ANYONECANPAY = 0 then
       foldl (\<lambda>out (i, input). sub (BRTxInputData (signing_input index (hashType AND 0x1f) i input)) out)
         (sub (put_varint (of_nat (length (tx_inputs tx)))) (f x)) (enumerate 0 (tx_inputs tx))
     else sub (BRTxInputData ((tx_inputs tx ! the index)
            \<lparr>ti_signature := ti_script (tx_inputs tx ! the index), ti_amount := 0\<rparr>))
          (sub (put_varint 1) (f x))) (bs @ data_inputs tx index hashType)"
proof (cases "hashType AND SIGHASH_ANYONECANPAY = 0")
  case True
  let ?s = "\<lambda>(i, input). signing_input index (hashType AND 0x1f) i input"
  have "appends (\<lambda>x. foldl (\<lambda>out p. sub (BRTxInputData (?s p)) out)
      (sub (put_varint (of_nat (length (tx_inputs tx)))) (f x)) (enumerate 0 (tx_inputs tx)))
      ((bs @ varint_bytes (of_nat (length (tx_inputs tx)))) @
       concat (map (\<lambda>p. input_bytes (?s p)) (enumerate 0 (tx_inputs tx))))"
    by (rule appends_then_foldl) (rule appends_steps assms varint.emits_enc input.appends_enc TrueI)+
  with True show ?thesis by (simp add: data_inputs_def split_def)
next
  case False
  then show ?thesis
    by (simp add: data_inputs_def)
      (rule appends_cong, (rule appends_then_sub assms varint.emits_enc input.emits_enc TrueI)+, simp)
qed

lemma appends_outputs:
  assumes "appends f bs"
  shows "appends (\<lambda>x. if sigHash \<noteq> SIGHASH_SINGLE \<and> sigHash \<noteq> SIGHASH_NONE then
       sub (BRTransactionOutputData tx None) (sub (put_varint (of_nat (length (tx_outputs tx)))) (f x))
     else if sigHash = SIGHASH_SINGLE \<and> index_in index (tx_outputs tx) then
       sub (BRTransactionOutputData tx index)
         (foldl (\<lambda>out _. put_empty_output out) (sub (put_varint (of_nat (the index + 1))) (f x)) [0..<the index])
     else sub (put_varint 0) (f x)) (bs @ data_outputs tx index sigHash)"
proof -
  have out: "emits (BRTransactionOutputData tx index) (concat (map output_bytes (outputs_at tx index)))" for index
    using outputs.emits_enc[of "(tx, index)"] by simp
  note steps = appends_then_sub assms varint.emits_enc out TrueI
  consider (all) "sigHash \<noteq> SIGHASH_SINGLE" "sigHash \<noteq> SIGHASH_NONE"
    | (single) i where "sigHash = SIGHASH_SINGLE" "index = Some i" "i < length (tx_outputs tx)"
    | (none) "\<not> (sigHash \<noteq> SIGHASH_SINGLE \<and> sigHash \<noteq> SIGHASH_NONE)"
        "\<not> (sigHash = SIGHASH_SINGLE \<and> index_in index (tx_outputs tx))"
    by (cases index) (auto simp: index_in_def)
  then show ?thesis
  proof cases
    case all
    then show ?thesis
      by (simp add: data_outputs_def) (rule appends_cong, (rule steps)+, simp add: outputs_at_def)
  next
    case single
    have "appends (\<lambda>x. foldl (\<lambda>out _. put_empty_output out) (sub (put_varint (of_nat (i + 1))) (f x)) [0..<i])
        ((bs @ varint_bytes (of_nat (i + 1))) @ concat (map (\<lambda>_. UInt64SetLE (- 1) @ varint_bytes 0) [0..<i]))"
      by (rule appends_then_foldl) (rule steps appends_empty_output)+
    from appends_then_sub[OF this out[of "Some i"]] single show ?thesis
      by (simp add: data_outputs_def index_in_def outputs_at_def map_replicate_const SIGHASH_SINGLE_def SIGHASH_NONE_def)
  next
    case none
    then show ?thesis
      by (simp only: data_outputs_def if_False) (rule appends_cong, (rule steps)+, simp)
  qed
qed

interpretation data: serializer "\<lambda>(tx, index, hashType). BRTransactionData tx index hashType" data_bytes
    "\<lambda>(tx, index, hashType). hashType AND SIGHASH_FORKID = 0 \<and>
       (hashType AND SIGHASH_ANYONECANPAY = 0 \<or> index_in index (tx_inputs tx))"
proof (unfold_locales, clarify)
  fix tx :: BRTransaction and index hashType
  assume *: "hashType AND SIGHASH_FORKID = 0"
    "hashType AND SIGHASH_ANYONECANPAY = 0 \<or> index_in index (tx_inputs tx)"
  then have c: "(hashType AND SIGHASH_FORKID \<noteq> 0) = False"
    "(hashType AND SIGHASH_ANYONECANPAY \<noteq> 0 \<and> \<not> index_in index (tx_inputs tx)) = False"
    "(\<not> hashType AND SIGHASH_ANYONECANPAY \<noteq> 0) = (hashType AND SIGHASH_ANYONECANPAY = 0)" by auto
  note parts = appends_then_put[OF appends_outputs[OF appends_inputs[OF appends_put]]]
  show "emits (BRTransactionData tx index hashType) (data_bytes (tx, index, hashType))"
    unfolding BRTransactionData_def[abs_def] Let_def c if_False
    by (rule emits_finish, rule appends_cong, rule appends_if, rule appends_then_put, rule parts, rule parts)
      (simp add: data_bytes_def)
qed

section \<open>Parsing what was written\<close>

definition wire_input :: "BRTxInput \<Rightarrow> BRTxInput" where
  "wire_input input =
     (case ti_signature input of
        None \<Rightarrow> input\<lparr>ti_signature := ti_script input\<rparr>
      | Some s \<Rightarrow> input\<lparr>ti_amount := 0\<rparr>)"

definition tx_bytes :: "BRTransaction \<Rightarrow> bytes" where
  "tx_bytes tx =
     UInt32SetLE (tx_version tx) @
     varint_bytes (of_nat (length (tx_inputs tx))) @ concat (map (\<lambda>i. input_bytes (wire_input i)) (tx_inputs tx)) @
     varint_bytes (of_nat (length (tx_outputs tx))) @ concat (map output_bytes (tx_outputs tx)) @
     UInt32SetLE (tx_lockTime tx)"

lemma map_enumerate: "map (\<lambda>(i, x). f x) (enumerate n xs) = map f xs"
  by (induction xs arbitrary: n) auto

lemma sighash_facts:
  "SIGHASH_ALL AND SIGHASH_FORKID = 0" "SIGHASH_ALL AND SIGHASH_ANYONECANPAY = 0"
  "SIGHASH_ALL AND 0x1f = SIGHASH_ALL" "SIGHASH_ALL \<noteq> SIGHASH_SINGLE" "SIGHASH_ALL \<noteq> SIGHASH_NONE"
  "(0 :: u32) \<noteq> SIGHASH_SINGLE" "(0 :: u32) \<noteq> SIGHASH_NONE"
  by (simp_all add: SIGHASH_ALL_def SIGHASH_FORKID_def SIGHASH_ANYONECANPAY_def SIGHASH_SINGLE_def SIGHASH_NONE_def)

lemma data_bytes_all: "data_bytes (tx, None, SIGHASH_ALL) = tx_bytes tx" "data_bytes (tx, None, 0) = tx_bytes tx"
proof -
  have "signing_input None h i input = wire_input input" for h i input
    by (simp add: signing_input_def wire_input_def split: option.splits)
  then show "data_bytes (tx, None, SIGHASH_ALL) = tx_bytes tx" "data_bytes (tx, None, 0) = tx_bytes tx"
    by (simp_all add: data_bytes_def data_inputs_def data_outputs_def tx_bytes_def sighash_facts map_enumerate)
qed

interpretation tx: serializer BRTransactionSerialize tx_bytes "\<lambda>_. True"
  using data.emits_enc[of "(_, None, SIGHASH_ALL)"]
  by unfold_locales (simp add: BRTransactionSerialize_def[abs_def] data_bytes_all sighash_facts)

definition is_address_script :: "bytes \<Rightarrow> bool" where
  "is_address_script s = (case BRAddressFromScriptPubKey None s of Inr (n, _) \<Rightarrow> 0 < n | Inl _ \<Rightarrow> False)"

text \<open>
  The inputs that are read back: a signature that does not look like the script of an address, or a script
  that does, with an amount, which is written only when it is not zero.
\<close>

definition wire_ok :: "BRTxInput \<Rightarrow> bool" where
  "wire_ok input =
     (case ti_signature input of
        Some s \<Rightarrow> \<not> is_address_script s
      | None \<Rightarrow> (case ti_script input of
          None \<Rightarrow> False
        | Some s \<Rightarrow> is_address_script s \<and> ti_amount input \<noteq> 0))"

definition address_or_none :: "(nat \<times> string option) res \<Rightarrow> string" where
  "address_or_none r = (case r of Inr (_, Some a) \<Rightarrow> a | _ \<Rightarrow> '''')"

text \<open>What the parser makes of an input and of an output.\<close>

definition parsed_input :: "BRTxInput \<Rightarrow> BRTxInput" where
  "parsed_input input =
     (case ti_signature input of
        Some s \<Rightarrow> input\<lparr>ti_address := address_or_none (BRAddressFromScriptSig (Some 75) s),
                        ti_amount := 0, ti_script := None\<rparr>
      | None \<Rightarrow> input\<lparr>ti_address := address_or_none (BRAddressFromScriptPubKey (Some 75) (buf_of (ti_script input)))\<rparr>)"

definition parsed_output :: "BRTxOutput \<Rightarrow> BRTxOutput" where
  "parsed_output output =
     (let s = buf_of (to_script output) in
      \<lparr>to_address = address_or_none (BRAddressFromScriptPubKey (Some 75) s), to_amount = to_amount output,
       to_script = Some s\<rparr>)"

lemma script_address_ok: "script_address s = Inr (address_or_none (BRAddressFromScriptPubKey (Some 75) s))"
  using BRAddressFromScriptPubKey_returns[of "Some 75" s]
  by (auto simp: script_address_def address_or_none_def split: option.splits)

lemma size_add_small: "off + n < 2 ^ 64 \<Longrightarrow> size_add off n = off + n"
  by (simp add: size_add_def)

text \<open>A field at an offset: its value, the offset after it, and what follows.\<close>

lemma drop_append_eq:
  assumes "drop off buf = bs @ r"
  shows "drop (off + length bs) buf = r" "bs \<noteq> [] \<Longrightarrow> off + length bs \<le> length buf"
proof -
  have "drop (off + length bs) buf = drop (length bs) (drop off buf)"
    by (simp add: drop_drop add.commute)
  then show "drop (off + length bs) buf = r" using assms by simp
  show "off + length bs \<le> length buf" if "bs \<noteq> []"
    using arg_cong[OF assms, of length] that by (cases bs) auto
qed

lemma field_at:
  assumes "drop off buf = bs @ r" "length bs = n" "0 < n" "length buf < 2 ^ 63"
  shows "size_add off n = off + n" "size_add off n \<le> length buf" "drop (off + n) buf = r"
proof -
  have "off + n \<le> length buf" "drop (off + n) buf = r"
    using drop_append_eq[OF assms(1)] assms by auto
  then show "size_add off n = off + n" "size_add off n \<le> length buf" "drop (off + n) buf = r"
    using assms(4) by (simp_all add: size_add_small)
qed

lemma get_at_field:
  assumes "drop off buf = enc v @ r" "length (enc v) = n" "0 < n" "length buf < 2 ^ 63" "get (enc v @ r) = v"
  shows "get_at get n buf off = v"
  using field_at(2)[OF assms(1-4)] assms by (simp add: get_at_def)

lemmas get_u32 = get_at_field[where enc = UInt32SetLE and get = UInt32GetLE and n = 4, simplified length_setLE get_set_LE zero_less_numeral simp_thms True_implies_equals]
lemmas get_u64 = get_at_field[where enc = UInt64SetLE and get = UInt64GetLE and n = 8, simplified length_setLE get_set_LE zero_less_numeral simp_thms True_implies_equals]
lemmas get_u256 = get_at_field[where enc = UInt256Set and get = UInt256Get and n = 32, simplified length_setLE get_set_LE zero_less_numeral simp_thms True_implies_equals]
lemmas at_u32 = field_at[where bs = "UInt32SetLE v" and n = 4 for v, simplified length_setLE get_set_LE zero_less_numeral simp_thms True_implies_equals]
lemmas at_u64 = field_at[where bs = "UInt64SetLE v" and n = 8 for v, simplified length_setLE get_set_LE zero_less_numeral simp_thms True_implies_equals]
lemmas at_u256 = field_at[where bs = "UInt256Set v" and n = 32 for v, simplified length_setLE get_set_LE zero_less_numeral simp_thms True_implies_equals]

lemma writes_varint: "writes (poke_varint n) (varint_bytes (of_nat n))"
  unfolding writes_def
proof (intro allI impI)
  fix pre rest :: bytes
  assume l: "length (varint_bytes (of_nat n)) \<le> length rest"
  then have "poke_varint n (pre @ rest, length pre) = poke (varint_bytes (of_nat n)) (pre @ rest, length pre)"
    by (simp add: poke_varint_def BRVarIntSet_def)
  then show "poke_varint n (pre @ rest, length pre) = Inr ((pre @ varint_bytes (of_nat n)) @
      drop (length (varint_bytes (of_nat n))) rest, length (pre @ varint_bytes (of_nat n)))"
    using writes_poke[unfolded writes_def, rule_format, OF l] by simp
qed

lemma varint_bytes_neq [simp]: "varint_bytes i \<noteq> []"
  using length_varint_bytes(1)[of i] by auto

lemma varint_at_field:
  assumes "drop off buf = varint_bytes (of_nat n) @ r" "n < 2 ^ 64" "length buf < 2 ^ 63"
  shows "varint_at buf off = (n, off + length (varint_bytes (of_nat n)))"
    "drop (off + length (varint_bytes (of_nat n))) buf = r"
  using field_at[OF assms(1) refl _ assms(3)] assms(2)
  by (simp_all add: varint_at_def assms(1) BRVarInt_bytes unat_of_nat)

lemma sub_at:
  assumes "drop off buf = bs @ r" "off \<le> length buf"
  shows "script_sub buf off (length bs) = Inr bs"
  using drop_append_eq[OF assms(1)] assms by (cases bs) (auto simp: script_sub_def)

lemma size_add_at:
  assumes "drop off buf = bs @ r" "off \<le> length buf" "length buf < 2 ^ 63"
  shows "size_add off (length bs) = off + length bs" "off + length bs \<le> length buf"
proof -
  show "off + length bs \<le> length buf"
    using drop_append_eq(2)[OF assms(1)] assms(2) by (cases bs) auto
  then show "size_add off (length bs) = off + length bs"
    using assms(3) by (simp add: size_add_small)
qed

lemma drop_le: "drop off buf = x # r \<Longrightarrow> off \<le> length buf"
  by (metis drop_all linorder_le_cases list.distinct(1))

lemma parse_script_signed:
  assumes "drop off buf = s @ r" "off \<le> length buf" "length buf < 2 ^ 63" "\<not> is_address_script s"
    "ti_address input = []"
  shows "parse_input_script buf off (length s) input =
    Inr (input\<lparr>ti_signature := Some s, ti_address := address_or_none (BRAddressFromScriptSig (Some 75) s)\<rparr>,
         off + length s, True)"
proof -
  obtain n a where "BRAddressFromScriptPubKey None s = Inr (n, a)"
    using BRAddressFromScriptPubKey_returns[of None s] by fast
  moreover obtain m t where "BRAddressFromScriptSig (Some 75) s = Inr (m, t)"
    using BRAddressFromScriptSig_returns[of "Some 75" s] by fast
  ultimately show ?thesis
    using assms(4,5) size_add_at[OF assms(1-3)]
    by (cases t) (simp_all add: parse_input_script_def sub_at[OF assms(1,2)] is_address_script_def
        BRTxInputSetSignature_def address_or_none_def Let_def)
qed

lemma parse_script_unsigned:
  assumes "drop off buf = s @ UInt64SetLE amount @ r" "off \<le> length buf" "length buf < 2 ^ 63"
    "is_address_script s" "ti_address input = []"
  shows "parse_input_script buf off (length s) input =
    Inr (input\<lparr>ti_script := Some s, ti_address := address_or_none (BRAddressFromScriptPubKey (Some 75) s),
                ti_amount := amount\<rparr>, off + length s + 8, False)"
proof -
  obtain n a where 1: "BRAddressFromScriptPubKey None s = Inr (n, a)"
    using BRAddressFromScriptPubKey_returns[of None s] by fast
  have 2: "drop (off + length s) buf = UInt64SetLE amount @ r"
    using drop_append_eq(1)[OF assms(1)] .
  have 3: "size_add off (length s) = off + length s" "off + length s \<le> length buf"
    using size_add_at[OF assms(1-3)] by simp_all
  have 4: "size_add (off + length s) 8 = off + length s + 8" "off + length s + 8 \<le> length buf"
    using at_u64[OF 2 assms(3)] by simp_all
  have "size_add (size_add off 8) (length s) = off + length s + 8"
    using 4(2) assms(3) by (simp add: size_add_small)
  with 1 2 3 4 assms(4) show ?thesis
    by (simp add: parse_input_script_def sub_at[OF assms(1,2)] is_address_script_def
        BRTxInputSetScript_def script_address_ok Let_def)
qed

lemma parse_input_ok:
  assumes buf: "drop off buf = input_bytes (wire_input input) @ r" and len: "length buf < 2 ^ 63"
    and ok: "wire_ok input"
  shows "parse_input buf off = Inr (parsed_input input, off + length (input_bytes (wire_input input)),
           ti_signature input \<noteq> None)" (is ?res)
    and "drop (off + length (input_bytes (wire_input input))) buf = r"
proof -
  show "drop (off + length (input_bytes (wire_input input))) buf = r"
    using drop_append_eq(1)[OF buf] .
  let ?w = "wire_input input"
  define s where "s = buf_of (ti_signature ?w)"
  have w: "ti_txHash ?w = ti_txHash input" "ti_index ?w = ti_index input" "ti_sequence ?w = ti_sequence input"
    by (simp_all add: wire_input_def split: option.splits)
  define am where "am = (if ti_amount ?w \<noteq> 0 then UInt64SetLE (ti_amount ?w) else [])"
  have b0: "drop off buf = UInt256Set (ti_txHash input) @ UInt32SetLE (ti_index input) @
      varint_bytes (of_nat (length s)) @ s @ am @ UInt32SetLE (ti_sequence input) @ r"
    using buf by (simp add: input_bytes_def w s_def am_def)
  note f0 = at_u256[OF b0 len] get_u256[OF b0 len]
  note f1 = at_u32[OF f0(3) len] get_u32[OF f0(3) len]
  have "length s \<le> length buf" using arg_cong[OF b0, of length] by simp
  then have sl: "length s < 2 ^ 64" using len by simp
  note f2 = varint_at_field[OF f1(3) sl len]
  let ?off = "off + 32 + 4 + length (varint_bytes (of_nat (length s)))"
  have le: "?off \<le> length buf"
    using drop_append_eq(2)[OF f1(3)] by simp
  let ?i = "zero_input\<lparr>ti_txHash := ti_txHash input, ti_index := ti_index input\<rparr>"
  have start: "parse_input buf off =
      rbind (parse_input_script buf ?off (length s) ?i) (\<lambda>(input, off, isSigned).
        Inr (input\<lparr>ti_sequence := get_at UInt32GetLE 4 buf off\<rparr>, size_add off 4, isSigned))"
    by (simp only: parse_input_def f0 f1 f2 Let_def prod.case)
  show ?res
  proof (cases "ti_signature input")
    case (Some sig)
    then have c: "am = []" "s = sig" "\<not> is_address_script s"
      using ok by (simp_all add: wire_input_def am_def s_def wire_ok_def)
    have b3: "drop ?off buf = s @ UInt32SetLE (ti_sequence input) @ r"
      using f2(2) c(1) by simp
    note p = parse_script_signed[OF b3 le len c(3), of ?i]
    note b4 = drop_append_eq(1)[OF b3]
    show ?thesis
      using p at_u32[OF b4 len] get_u32[OF b4 len] Some c(1,2) buf
      by (simp add: start parsed_input_def zero_input_def input_bytes_def w wire_input_def)
  next
    case None
    then obtain scr where scr: "ti_script input = Some scr" "is_address_script scr" "ti_amount input \<noteq> 0"
      using ok by (auto simp: wire_ok_def split: option.splits)
    then have c: "am = UInt64SetLE (ti_amount input)" "s = scr"
      using None by (simp_all add: wire_input_def am_def s_def)
    have b3: "drop ?off buf = s @ UInt64SetLE (ti_amount input) @ UInt32SetLE (ti_sequence input) @ r"
      using f2(2) c(1) by simp
    have "is_address_script s" using scr c by simp
    note p = parse_script_unsigned[OF b3 le len this, of ?i]
    have b4: "drop (?off + length s + 8) buf = UInt32SetLE (ti_sequence input) @ r"
      using at_u64(3)[OF drop_append_eq(1)[OF b3] len] .
    show ?thesis
      using p at_u32[OF b4 len] get_u32[OF b4 len] None scr c
      by (simp add: start parsed_input_def zero_input_def input_bytes_def w wire_input_def)
  qed
qed

lemma parse_inputs_ok:
  assumes "drop off buf = concat (map (\<lambda>i. input_bytes (wire_input i)) inputs) @ r"
    and "length buf < 2 ^ 63" and "\<forall>i\<in>set inputs. wire_ok i" and "length inputs \<le> room"
  shows "parse_inputs buf room (length inputs) off b = Inr (map parsed_input inputs,
      off + length (concat (map (\<lambda>i. input_bytes (wire_input i)) inputs)),
      b \<and> list_all (\<lambda>i. ti_signature i \<noteq> None) inputs)"
  using assms
proof (induction inputs arbitrary: off room b)
  case Nil
  then show ?case by (simp add: parse_inputs.simps)
next
  case (Cons i xs)
  have buf: "drop off buf = input_bytes (wire_input i) @ concat (map (\<lambda>i. input_bytes (wire_input i)) xs) @ r"
    using Cons.prems(1) by simp
  have ok: "wire_ok i" using Cons.prems(3) by simp
  note p = parse_input_ok[OF buf Cons.prems(2) ok]
  have "off \<le> length buf" using drop_append_eq(2)[OF buf] by (simp add: input_bytes_def)
  moreover have "0 < room" "length xs \<le> room - 1" using Cons.prems(4) by auto
  moreover note Cons.IH[OF p(2) Cons.prems(2) _ this(2), of "b \<and> ti_signature i \<noteq> None"]
  ultimately show ?case
    using Cons.prems(3) by (subst parse_inputs.simps) (simp add: p(1) add.assoc)
qed

lemma parse_output_ok:
  assumes buf: "drop off buf = output_bytes output @ r" and len: "length buf < 2 ^ 63"
  shows "parse_output buf off = Inr (parsed_output output, off + length (output_bytes output))"
proof -
  let ?s = "buf_of (to_script output)"
  have b0: "drop off buf = UInt64SetLE (to_amount output) @ varint_bytes (of_nat (length ?s)) @ ?s @ r"
    using buf by (simp add: output_bytes_def)
  note f0 = at_u64[OF b0 len] get_u64[OF b0 len]
  have "length ?s < 2 ^ 64" using arg_cong[OF b0, of length] len by simp
  note f1 = varint_at_field[OF f0(3) this len]
  have le: "off + 8 + length (varint_bytes (of_nat (length ?s))) \<le> length buf"
    using drop_append_eq(2)[OF f0(3)] by simp
  note s = sub_at[OF f1(2) le] size_add_at[OF f1(2) le len]
  show ?thesis
    by (simp add: parse_output_def Let_def f0(4) f0(1) f1(1) s BRTxOutputSetScript_def script_address_ok
        parsed_output_def zero_output_def output_bytes_def del: add.assoc)
qed

lemma parse_outputs_ok:
  assumes "drop off buf = concat (map output_bytes outputs) @ r" "off \<le> length buf"
    and "length buf < 2 ^ 63" and "length outputs \<le> room"
  shows "parse_outputs buf room (length outputs) off =
    Inr (map parsed_output outputs, off + length (concat (map output_bytes outputs)))"
  using assms
proof (induction outputs arbitrary: off room)
  case Nil
  then show ?case by (simp add: parse_outputs.simps)
next
  case (Cons o' os)
  have buf: "drop off buf = output_bytes o' @ concat (map output_bytes os) @ r"
    using Cons.prems(1) by simp
  note p = parse_output_ok[OF buf Cons.prems(3)] drop_append_eq[OF buf]
  have "output_bytes o' \<noteq> []" by (simp add: output_bytes_def)
  with Cons.IH[OF p(2) p(3) Cons.prems(3), of "room - 1"] Cons.prems(2,4) show ?case
    by (subst parse_outputs.simps) (auto simp add: p(1))
qed

lemma array_set_count_ok:
  assumes "n * s + 16 \<le> mem" "mem < 2 ^ 64" "0 < s"
  shows "\<exists>room. array_set_count mem s c n = Inr room \<and> n \<le> room"
proof (cases "n \<le> c")
  case False
  have "(n - c) * s \<le> n * s" by simp
  moreover have "c * s + (n - c) * s = n * s" using False by (simp add: diff_mult_distrib)
  ultimately show ?thesis
    using False assms by (simp add: array_set_count_def Let_def)
qed (simp add: array_set_count_def)

text \<open>The whole transaction.\<close>

lemma parse_tx_bytes:
  assumes ok: "\<forall>i\<in>set (tx_inputs tx). wire_ok i" "tx_inputs tx \<noteq> []"
    and len: "length (tx_bytes tx) < 2 ^ 63"
    and mem: "length (tx_inputs tx) * TXINPUT_SIZEOF + 16 \<le> mem"
      "length (tx_outputs tx) * TXOUTPUT_SIZEOF + 16 \<le> mem" "mem < 2 ^ 64"
  shows "BRTransactionParse mem (tx_bytes tx) = Inr (Some
    (tx\<lparr>tx_inputs := map parsed_input (tx_inputs tx), tx_outputs := map parsed_output (tx_outputs tx),
        tx_blockHeight := TX_UNCONFIRMED, tx_timestamp := 0,
        tx_txHash := if BRTransactionIsSigned tx then UInt256Get (BRSHA256_2 (tx_bytes tx)) else 0\<rparr>))"
proof -
  let ?buf = "tx_bytes tx"
  let ?ins = "concat (map (\<lambda>i. input_bytes (wire_input i)) (tx_inputs tx))"
  let ?outs = "concat (map output_bytes (tx_outputs tx))"
  let ?n = "length (tx_inputs tx)" and ?m = "length (tx_outputs tx)"
  obtain inRoom where room: "array_set_count mem TXINPUT_SIZEOF 1 ?n = Inr inRoom" "?n \<le> inRoom"
    using array_set_count_ok[OF mem(1,3), of 1] by (auto simp: TXINPUT_SIZEOF_def)
  obtain outRoom where room': "array_set_count mem TXOUTPUT_SIZEOF 2 ?m = Inr outRoom" "?m \<le> outRoom"
    using array_set_count_ok[OF mem(2,3), of 2] by (auto simp: TXOUTPUT_SIZEOF_def)
  have small: "?n < 2 ^ 64" "?m < 2 ^ 64"
    using mem by (simp_all add: TXINPUT_SIZEOF_def TXOUTPUT_SIZEOF_def)
  have b0: "drop 0 ?buf = UInt32SetLE (tx_version tx) @ varint_bytes (of_nat ?n) @ ?ins @
      varint_bytes (of_nat ?m) @ ?outs @ UInt32SetLE (tx_lockTime tx) @ []"
    by (simp add: tx_bytes_def)
  note f0 = at_u32[OF b0 len] get_u32[OF b0 len]
  have "drop 4 ?buf = varint_bytes (of_nat ?n) @ ?ins @ varint_bytes (of_nat ?m) @ ?outs @ UInt32SetLE (tx_lockTime tx) @ []"
    using f0(3) by simp
  note f1 = varint_at_field[OF this small(1) len]
  note f2 = parse_inputs_ok[OF f1(2) len ok(1) room(2), of True] drop_append_eq(1)[OF f1(2)]
  note f3 = varint_at_field[OF f2(2) small(2) len]
  have le: "4 + length (varint_bytes (of_nat ?n)) + length ?ins + length (varint_bytes (of_nat ?m)) \<le> length ?buf"
    using drop_append_eq(2)[OF f2(2)] by simp
  note f4 = parse_outputs_ok[OF f3(2) le len room'(2)] drop_append_eq(1)[OF f3(2)]
  note f5 = at_u32[OF f4(2) len] get_u32[OF f4(2) len]
  have all: "4 + length (varint_bytes (of_nat ?n)) + length ?ins + length (varint_bytes (of_nat ?m)) +
      length ?outs + 4 = length ?buf"
    by (simp add: tx_bytes_def)
  have sz: "BRTransactionIsSigned tx \<longleftrightarrow> list_all (\<lambda>i. ti_signature i \<noteq> None) (tx_inputs tx)"
    by (simp add: BRTransactionIsSigned_def)
  show ?thesis
    unfolding BRTransactionParse_def Let_def f1(1) prod.case room(1) rbind_Inr f2(1) f3(1) room'(1) f4(1)
      f5(1) all f0(4) f5(4) sz
    using ok(2) by (simp add: BRTransactionNew_def)
qed

text \<open>What the parser returns is written as the same bytes.\<close>

lemma wire_parsed: "wire_ok i \<Longrightarrow> input_bytes (wire_input (parsed_input i)) = input_bytes (wire_input i)"
  by (auto simp: wire_ok_def wire_input_def parsed_input_def input_bytes_def split: option.splits)

lemma output_parsed: "output_bytes (parsed_output o') = output_bytes o'"
  by (simp add: output_bytes_def parsed_output_def Let_def)

lemma tx_bytes_parsed:
  assumes "\<forall>i\<in>set (tx_inputs tx). wire_ok i"
  shows "tx_bytes (tx\<lparr>tx_inputs := map parsed_input (tx_inputs tx), tx_outputs := map parsed_output (tx_outputs tx),
        tx_blockHeight := h, tx_timestamp := t, tx_txHash := x\<rparr>) = tx_bytes tx"
  using assms by (simp add: tx_bytes_def output_parsed comp_def wire_parsed cong: map_cong)

section \<open>What is signed\<close>

text \<open>The data of a transaction that a signature covers: all but the signatures, and what is derived from them.\<close>

definition strip_input :: "BRTxInput \<Rightarrow> BRTxInput" where
  "strip_input input = input\<lparr>ti_signature := None, ti_address := ''''\<rparr>"

definition strip :: "BRTransaction \<Rightarrow> BRTransaction" where
  "strip tx = tx\<lparr>tx_txHash := 0, tx_inputs := map strip_input (tx_inputs tx)\<rparr>"

definition sighash_bytes :: "BRTransaction \<Rightarrow> nat \<Rightarrow> u32 \<Rightarrow> bytes" where
  "sighash_bytes tx i hashType =
     (if hashType AND SIGHASH_FORKID = 0 then data_bytes (tx, Some i, hashType)
      else witness_bytes (tx, Some i, hashType))"

lemma emits_sighash:
  assumes "i < length (tx_inputs tx)"
  shows "emits (BRTransactionData tx (Some i) hashType) (sighash_bytes tx i hashType)"
proof (cases "hashType AND SIGHASH_FORKID = 0")
  case True
  then show ?thesis
    using data.emits_enc[of "(tx, Some i, hashType)"] assms by (simp add: sighash_bytes_def index_in_def)
next
  case False
  then have "BRTransactionData tx (Some i) hashType = BRTransactionWitnessData tx (Some i) hashType"
    by (simp add: BRTransactionData_def[abs_def] Let_def)
  then show ?thesis
    using witness.emits_enc[of "(tx, Some i, hashType)"] assms False
    by (simp add: sighash_bytes_def index_in_def)
qed

lemma serialized_sighash:
  "i < length (tx_inputs tx) \<Longrightarrow> serialized (BRTransactionData tx (Some i) hashType) = sighash_bytes tx i hashType"
  using emits_sighash[of i tx hashType] by (simp add: serialized_def emits_def)

lemma signing_strip:
  "input_bytes (signing_input (Some i) s j (strip_input x)) = input_bytes (signing_input (Some i) s j x)"
  by (simp add: signing_input_def input_bytes_def strip_input_def split: option.splits)

lemma enumerate_map: "enumerate n (map f xs) = map (\<lambda>(i, x). (i, f x)) (enumerate n xs)"
  by (induction xs arbitrary: n) auto

lemma sighash_strip:
  assumes "i < length (tx_inputs tx)"
  shows "sighash_bytes (strip tx) i hashType = sighash_bytes tx i hashType"
proof -
  have "map (\<lambda>(j, x). input_bytes (signing_input (Some i) s j x)) (enumerate 0 (map strip_input (tx_inputs tx)))
      = map (\<lambda>(j, x). input_bytes (signing_input (Some i) s j x)) (enumerate 0 (tx_inputs tx))" for s
    by (simp add: enumerate_map comp_def split_def signing_strip)
  moreover have "input_bytes (strip_input x\<lparr>ti_signature := t, ti_amount := a\<rparr>) =
      input_bytes (x\<lparr>ti_signature := t, ti_amount := a\<rparr>)"
    "input_bytes (strip_input x\<lparr>ti_signature := t\<rparr>) = input_bytes (x\<lparr>ti_signature := t\<rparr>)"
    "ti_script (strip_input x) = ti_script x" "ti_txHash (strip_input x) = ti_txHash x"
    "ti_index (strip_input x) = ti_index x" "ti_sequence (strip_input x) = ti_sequence x" for x t a
    by (simp_all add: strip_input_def input_bytes_def)
  ultimately show ?thesis
    using assms
    by (simp add: sighash_bytes_def data_bytes_def data_inputs_def data_outputs_def witness_bytes_def
        strip_def Let_def prevout_buf_def sequence_buf_def comp_def)
qed

lemma sighash_cong:
  "strip tx = strip tx' \<Longrightarrow> i < length (tx_inputs tx) \<Longrightarrow> sighash_bytes tx i h = sighash_bytes tx' i h"
proof -
  assume eq: "strip tx = strip tx'" and i: "i < length (tx_inputs tx)"
  then have "length (tx_inputs tx) = length (tx_inputs tx')"
    by (metis length_map strip_def BRTransaction.select_convs(3) BRTransaction.surjective
        BRTransaction.update_convs(1,3))
  with i have "i < length (tx_inputs tx')" by simp
  with sighash_strip[OF i] sighash_strip[OF this] eq show ?thesis by metis
qed

section \<open>Signing\<close>

text \<open>The key that signs an input: the first whose address is the address of the script.\<close>

definition signer :: "string list \<Rightarrow> BRTxInput \<Rightarrow> nat option" where
  "signer addrs input =
     (case BRAddressFromScriptPubKey (Some 75) (buf_of (ti_script input)) of
        Inl _ \<Rightarrow> None
      | Inr (n, a) \<Rightarrow>
          let j = first_addr addrs (case a of None \<Rightarrow> '''' | Some s \<Rightarrow> s)
          in if n = 0 \<or> length addrs \<le> j then None else Some j)"

text \<open>\<open>input'\<close> is \<open>input\<close> after signing, where the digest is that of \<open>tx\<close>.\<close>

definition signed_input ::
    "secp256k1 \<Rightarrow> BRKey list \<Rightarrow> string list \<Rightarrow> u32 \<Rightarrow> BRTransaction \<Rightarrow> nat \<Rightarrow> BRTxInput \<Rightarrow> BRTxInput \<Rightarrow> bool" where
  "signed_input S keys addrs forkId tx i input input' \<longleftrightarrow>
     (case signer addrs input of
        None \<Rightarrow> input' = input
      | Some j \<Rightarrow> \<exists>toHash pub key. key_secret key = key_secret (keys ! j) \<and>
          ti_signature input' = Some (sign_script S tx forkId i toHash pub key))"

lemma sign_script_cong:
  "strip tx = strip tx' \<Longrightarrow> i < length (tx_inputs tx) \<Longrightarrow> i < length (tx_inputs tx') \<Longrightarrow>
   sign_script S tx f i toHash pub key = sign_script S tx' f i toHash pub key"
  by (simp add: sign_script_def serialized_sighash sighash_cong[of tx tx'])

lemma signed_input_cong:
  "strip tx = strip tx' \<Longrightarrow> i < length (tx_inputs tx) \<Longrightarrow> i < length (tx_inputs tx') \<Longrightarrow>
   signed_input S keys addrs f tx i x y = signed_input S keys addrs f tx' i x y"
proof -
  assume "strip tx = strip tx'" "i < length (tx_inputs tx)" "i < length (tx_inputs tx')"
  then have eq: "sign_script S tx f i = sign_script S tx' f i"
    by (intro ext) (rule sign_script_cong)
  show ?thesis unfolding signed_input_def eq ..
qed

lemma BRKeyPubKey_secret: "key_secret (snd (BRKeyPubKey S n key)) = key_secret key"
  by (simp add: BRKeyPubKey_def Let_def split: option.splits)

lemma SetSignature_ok:
  "\<exists>a. BRTxInputSetSignature input (Some s) = Inr (input\<lparr>ti_signature := Some s, ti_address := a\<rparr>)"
proof -
  obtain r where "BRAddressFromScriptSig (Some 75) s = Inr r"
    using BRAddressFromScriptSig_returns[of "Some 75" s] by fast
  then show ?thesis
    by (cases r) (auto simp: BRTxInputSetSignature_def Let_def intro: exI[of _ "ti_address input"])
qed

lemma strip_length: "strip tx = strip tx' \<Longrightarrow> length (tx_inputs tx) = length (tx_inputs tx')"
  by (metis length_map strip_def BRTransaction.select_convs(3) BRTransaction.surjective
      BRTransaction.update_convs(1,3))

lemma sign_input_ok:
  assumes i: "i < length (tx_inputs tx)" and len: "length keys = length addrs"
  shows "\<exists>tx' keys'. sign_input S f addrs i (tx, keys) = Inr (tx', keys') \<and> strip tx' = strip tx \<and>
    map key_secret keys' = map key_secret keys \<and>
    (\<forall>j. j \<noteq> i \<longrightarrow> tx_inputs tx' ! j = tx_inputs tx ! j) \<and>
    signed_input S keys addrs f tx i (tx_inputs tx ! i) (tx_inputs tx' ! i)"
proof -
  let ?input = "tx_inputs tx ! i"
  obtain n a where fs: "BRAddressFromScriptPubKey (Some 75) (buf_of (ti_script ?input)) = Inr (n, a)"
    using BRAddressFromScriptPubKey_returns by fast
  define j where "j = first_addr addrs (case a of None \<Rightarrow> '''' | Some s \<Rightarrow> s)"
  show ?thesis
  proof (cases "n = 0 \<or> length addrs \<le> j")
    case True
    then have "sign_input S f addrs i (tx, keys) = Inr (tx, keys)"
      using len by (auto simp: sign_input_def Let_def fs j_def[symmetric])
    moreover have "signer addrs ?input = None" using True by (simp add: signer_def fs j_def)
    ultimately show ?thesis by (auto simp: signed_input_def)
  next
    case False
    then have sg: "signer addrs ?input = Some j" and j: "j < length keys"
      using len by (auto simp: signer_def fs j_def Let_def)
    obtain pkSize p1 k1 where k1: "BRKeyPubKey S None (keys ! j) = ((pkSize, p1), k1)"
      by (metis prod.exhaust)
    obtain pkLen pub k2 where k2: "BRKeyPubKey S (Some pkSize) k1 = ((pkLen, pub), k2)"
      by (metis prod.exhaust)
    have secret: "key_secret k2 = key_secret (keys ! j)"
      using BRKeyPubKey_secret[of S None "keys ! j"] BRKeyPubKey_secret[of S "Some pkSize" k1] k1 k2 by simp
    define script where "script = buf_of (ti_script ?input)"
    define elems where "elems = BRScriptElements (Some (length (BRScriptElements None script))) script"
    define toHash where "toHash = (2 \<le> length elems \<and> script ! (elems ! (length elems - 2)) = OP_EQUALVERIFY)"
    let ?sig = "sign_script S tx f i toHash (buf_of pub) k2"
    obtain b where b: "BRTxInputSetSignature ?input (Some ?sig) = Inr (?input\<lparr>ti_signature := Some ?sig, ti_address := b\<rparr>)"
      using SetSignature_ok by fast
    let ?new = "?input\<lparr>ti_signature := Some ?sig, ti_address := b\<rparr>"
    let ?tx' = "tx\<lparr>tx_inputs := (tx_inputs tx)[i := ?new]\<rparr>"
    have "sign_input S f addrs i (tx, keys) = Inr (?tx', keys[j := k2])"
      using False len b
      by (simp add: sign_input_def Let_def fs j_def[symmetric] k1 k2 toHash_def elems_def script_def)
    moreover have "strip ?tx' = strip tx"
      using i by (simp add: strip_def map_update strip_input_def list_update_same_conv)
    moreover have "map key_secret (keys[j := k2]) = map key_secret keys"
      using j secret by (simp add: map_update list_update_same_conv)
    moreover have "signed_input S keys addrs f tx i ?input (tx_inputs ?tx' ! i)"
      using i sg secret by (auto simp: signed_input_def)
    ultimately show ?thesis by auto
  qed
qed

lemma signed_input_keys:
  "map key_secret keys = map key_secret keys' \<Longrightarrow> length keys = length addrs \<Longrightarrow>
   signed_input S keys addrs f tx i x y \<Longrightarrow> signed_input S keys' addrs f tx i x y"
proof -
  assume eq: "map key_secret keys = map key_secret keys'" and len: "length keys = length addrs"
    and s: "signed_input S keys addrs f tx i x y"
  show ?thesis
  proof (cases "signer addrs x")
    case (Some j)
    then have "j < length keys"
      using len by (auto simp: signer_def Let_def split: sum.splits option.splits if_splits)
    then have "key_secret (keys ! j) = key_secret (keys' ! j)"
      using eq by (metis length_map nth_map)
    with s Some show ?thesis by (simp add: signed_input_def)
  qed (use s in \<open>simp add: signed_input_def\<close>)
qed

lemma sign_loop_ok:
  assumes "length keys = length addrs" "k \<le> length (tx_inputs tx)"
  shows "\<exists>tx' keys'. sign_loop S f addrs [k..<length (tx_inputs tx)] (tx, keys) = Inr (tx', keys') \<and>
    strip tx' = strip tx \<and> (\<forall>i<k. tx_inputs tx' ! i = tx_inputs tx ! i) \<and>
    (\<forall>i. k \<le> i \<and> i < length (tx_inputs tx) \<longrightarrow>
      signed_input S keys addrs f tx i (tx_inputs tx ! i) (tx_inputs tx' ! i))"
  using assms
proof (induction "length (tx_inputs tx) - k" arbitrary: k tx keys)
  case 0
  then show ?case by auto
next
  case (Suc m)
  let ?n = "length (tx_inputs tx)"
  have k: "k < ?n" using Suc.hyps(2) by simp
  obtain tx1 keys1 where 1: "sign_input S f addrs k (tx, keys) = Inr (tx1, keys1)" "strip tx1 = strip tx"
      "map key_secret keys1 = map key_secret keys" "\<forall>j. j \<noteq> k \<longrightarrow> tx_inputs tx1 ! j = tx_inputs tx ! j"
      "signed_input S keys addrs f tx k (tx_inputs tx ! k) (tx_inputs tx1 ! k)"
    using sign_input_ok[OF k Suc.prems(1)] by blast
  have n1: "length (tx_inputs tx1) = ?n" by (rule strip_length[OF 1(2)])
  have len1: "length keys1 = length addrs" using arg_cong[OF 1(3), of length] Suc.prems(1) by simp
  have "m = length (tx_inputs tx1) - Suc k" "Suc k \<le> length (tx_inputs tx1)"
    using Suc.hyps(2) k n1 by simp_all
  from Suc.hyps(1)[OF this(1) len1 this(2)] obtain tx' keys' where
    2: "sign_loop S f addrs [Suc k..<?n] (tx1, keys1) = Inr (tx', keys')" "strip tx' = strip tx1"
      "\<forall>i<Suc k. tx_inputs tx' ! i = tx_inputs tx1 ! i"
      "\<forall>i. Suc k \<le> i \<and> i < ?n \<longrightarrow> signed_input S keys1 addrs f tx1 i (tx_inputs tx1 ! i) (tx_inputs tx' ! i)"
    unfolding n1 by blast
  have "sign_loop S f addrs [k..<?n] (tx, keys) = Inr (tx', keys')"
    using 1(1) 2(1) k by (simp add: upt_conv_Cons)
  moreover have "signed_input S keys addrs f tx i (tx_inputs tx ! i) (tx_inputs tx' ! i)" if "k \<le> i" "i < ?n" for i
  proof (cases "i = k")
    case True
    then show ?thesis using 1(5) 2(3) by simp
  next
    case False
    then have "signed_input S keys1 addrs f tx1 i (tx_inputs tx ! i) (tx_inputs tx' ! i)"
      using 2(4) 1(4) that by (metis Suc_leI le_neq_implies_less)
    from signed_input_keys[OF 1(3) len1 this] show ?thesis
      using signed_input_cong[OF 1(2)] that n1 by simp
  qed
  ultimately show ?case using 1(2,4) 2(2,3) by (intro exI[of _ tx'] exI[of _ keys']) auto
qed

lemma key_addresses_spec:
  "length (fst (key_addresses S keys)) = length keys"
  "map key_secret (snd (key_addresses S keys)) = map key_secret keys"
proof -
  have secret: "key_secret (snd (BRKeyAddress S n key)) = key_secret key" for n key
    using BRKeyPubKey_secret[of S None key]
    by (auto simp: BRKeyAddress_def BRKeyHash160_def Let_def split: prod.splits)
  let ?f = "\<lambda>(addrs, ks) key. case BRKeyAddress S (Some 75) key of
      ((n, a), key) \<Rightarrow> (addrs @ [case a of None \<Rightarrow> '''' | Some s \<Rightarrow> if n = 0 then '''' else s], ks @ [key])"
  have "length (fst (foldl ?f st keys)) = length (fst st) + length keys \<and>
    map key_secret (snd (foldl ?f st keys)) = map key_secret (snd st) @ map key_secret keys" for st
  proof (induction keys arbitrary: st)
    case (Cons key keys)
    show ?case
      using secret[of "Some 75" key] Cons.IH[of "?f st key"]
      by (auto split: prod.splits)
  qed simp
  from this[of "([], [])"] show "length (fst (key_addresses S keys)) = length keys"
    "map key_secret (snd (key_addresses S keys)) = map key_secret keys"
    by (simp_all add: key_addresses_def)
qed

section \<open>Sizes, copies and shuffles\<close>

lemma length_input_bytes: "ti_signature i \<noteq> None \<Longrightarrow> length (input_bytes (wire_input i)) = input_size i"
  by (auto simp: input_bytes_def wire_input_def input_size_def varint_size_def BRVarIntSize_def
      BRVarIntSet_def Let_def)

lemma length_output_bytes: "length (output_bytes o') = output_size o'"
  by (simp add: output_bytes_def output_size_def varint_size_def BRVarIntSize_def BRVarIntSet_def Let_def)

lemma foldl_sum: "foldl (\<lambda>s x. s + f x) s xs = s + sum_list (map f xs)" for f :: "'a \<Rightarrow> nat"
  by (induction xs arbitrary: s) auto

lemma BRTransactionSize_sum:
  "BRTransactionSize tx = 8 + varint_size (length (tx_inputs tx)) + varint_size (length (tx_outputs tx)) +
     sum_list (map input_size (tx_inputs tx)) + sum_list (map output_size (tx_outputs tx))"
  by (simp add: BRTransactionSize_def Let_def foldl_sum)

lemma length_tx_bytes:
  "length (tx_bytes tx) = 8 + varint_size (length (tx_inputs tx)) + varint_size (length (tx_outputs tx)) +
     sum_list (map (\<lambda>i. length (input_bytes (wire_input i))) (tx_inputs tx)) +
     sum_list (map output_size (tx_outputs tx))"
  by (simp add: tx_bytes_def length_concat comp_def length_output_bytes varint_size_def BRVarIntSize_def
      BRVarIntSet_def Let_def)

lemma swap_at_mset:
  assumes "i < length xs" "j < length xs"
  shows "mset (swap_at i j xs) = mset xs"
proof -
  have "mset (xs[i := xs ! j, j := xs ! i]) = mset xs"
    using assms by (intro mset_swap)
  then show ?thesis by (simp add: swap_at_def)
qed

lemma rand_loop_less: "0 < bound \<Longrightarrow> rand_loop bound rs = Some (r, rs') \<Longrightarrow> r < bound"
  by (induction rs) (auto simp: word_mod_less_divisor split: if_splits)

lemma BRRand_less:
  assumes "BRRand n rs = Some (r, rs')" "0 < n" "n \<le> BR_RAND_MAX"
  shows "r < n"
proof -
  have "rand_bound n = n" using assms(2,3) by (auto simp: rand_bound_def)
  then show ?thesis using assms rand_loop_less[of n rs r rs'] by (simp add: BRRand_def)
qed

lemma shuffle_loop_mset:
  assumes "length xs < 2 ^ 31"
  shows "shuffle_loop i xs rs = Some (ys, rs') \<Longrightarrow> mset ys = mset xs"
  using assms
proof (induction i xs rs rule: shuffle_loop.induct)
  case (1 i os rs)
  show ?case
  proof (cases "i + 1 < length os")
    case True
    let ?n = "of_nat (length os) - of_nat i :: u32"
    obtain r rs1 where r: "BRRand ?n rs = Some (r, rs1)"
      using 1(2) True by (subst (asm) shuffle_loop.simps) (auto split: option.splits)
    have n: "?n = of_nat (length os - i)" using True by (simp add: of_nat_diff)
    have un: "unat ?n = length os - i" unfolding n using 1(3) by (simp add: unat_of_nat)
    then have "0 < ?n" "?n \<le> BR_RAND_MAX"
      using True 1(3) by (simp_all add: word_less_nat_alt word_le_nat_alt BR_RAND_MAX_def)
    from BRRand_less[OF r this] have "unat r < length os - i" using un by (simp add: word_less_nat_alt)
    then have j: "unat (of_nat i + r :: u32) < length os"
      using 1(3) by (simp add: unat_word_ariths unat_of_nat)
    let ?os = "if unat (of_nat i + r) \<noteq> i then swap_at i (unat (of_nat i + r)) os else os"
    have "shuffle_loop (i + 1) ?os rs1 = Some (ys, rs')"
      using 1(2) True r by (subst (asm) shuffle_loop.simps) (simp add: Let_def)
    from 1(1)[OF True r refl refl this] have "mset ys = mset ?os"
      using 1(3) by (simp add: swap_at_def)
    then show ?thesis using swap_at_mset[of i os] j True by simp
  next
    case False
    then show ?thesis using 1(2) by (subst (asm) shuffle_loop.simps) simp
  qed
qed

lemma if_same_res: "(if c then f a else f b) = f (if c then a else b)"
  by simp

definition copied_address :: "BRTxInput \<Rightarrow> string" where
  "copied_address input =
     (let a = (case ti_script input of None \<Rightarrow> '''' | Some s \<Rightarrow> address_or_none (BRAddressFromScriptPubKey (Some 75) s))
      in if a = [] then
           (case ti_signature input of None \<Rightarrow> '''' | Some s \<Rightarrow> address_or_none (BRAddressFromScriptSig (Some 75) s))
         else a)"

text \<open>Inputs and outputs whose address was set along with the script or the signature.\<close>

definition built :: "BRTransaction \<Rightarrow> bool" where
  "built tx \<longleftrightarrow> (\<forall>i\<in>set (tx_inputs tx). ti_txHash i \<noteq> 0 \<and> ti_address i = copied_address i) \<and>
     (\<forall>o'\<in>set (tx_outputs tx). to_address o' =
        (case to_script o' of None \<Rightarrow> '''' | Some s \<Rightarrow> address_or_none (BRAddressFromScriptPubKey (Some 75) s)))"

lemma SetSignature_address:
  "BRTxInputSetSignature input (Some s) = Inr (input\<lparr>ti_signature := Some s,
     ti_address := if ti_address input = [] then address_or_none (BRAddressFromScriptSig (Some 75) s)
                   else ti_address input\<rparr>)"
proof -
  obtain m t where "BRAddressFromScriptSig (Some 75) s = Inr (m, t)"
    using BRAddressFromScriptSig_returns[of "Some 75" s] by fast
  then show ?thesis
    by (cases t) (auto simp: BRTxInputSetSignature_def address_or_none_def Let_def)
qed

lemma copy_input:
  assumes "ti_txHash i \<noteq> 0" "ti_address i = copied_address i"
  shows "BRTransactionAddInput cpy (ti_txHash i) (ti_index i) (ti_amount i) (ti_script i) (ti_signature i)
    (ti_sequence i) = Inr (cpy\<lparr>tx_inputs := tx_inputs cpy @ [i]\<rparr>)"
proof (cases "ti_script i")
  case None
  with assms show ?thesis
    by (cases "ti_signature i")
      (auto simp: BRTransactionAddInput_def UInt256IsZero_def SetSignature_address copied_address_def Let_def)
next
  case (Some s)
  with assms show ?thesis
    by (cases "ti_signature i")
      (auto simp: BRTransactionAddInput_def UInt256IsZero_def BRTxInputSetScript_def script_address_ok
        SetSignature_address copied_address_def Let_def split: if_splits)
qed

lemma copy_inputs_ok:
  assumes "\<forall>i\<in>set is'. ti_txHash i \<noteq> 0 \<and> ti_address i = copied_address i"
  shows "copy_inputs is' cpy = Inr (cpy\<lparr>tx_inputs := tx_inputs cpy @ is'\<rparr>)"
  using assms by (induction is' arbitrary: cpy) (simp_all add: copy_input)

lemma copy_outputs_ok:
  assumes "\<forall>o'\<in>set os. to_address o' =
    (case to_script o' of None \<Rightarrow> '''' | Some s \<Rightarrow> address_or_none (BRAddressFromScriptPubKey (Some 75) s))"
  shows "copy_outputs os cpy = Inr (cpy\<lparr>tx_outputs := tx_outputs cpy @ os\<rparr>)"
  using assms
proof (induction os arbitrary: cpy)
  case (Cons o' os)
  have "BRTransactionAddOutput cpy (to_amount o') (to_script o') = Inr (cpy\<lparr>tx_outputs := tx_outputs cpy @ [o']\<rparr>)"
    using Cons.prems
    by (cases "to_script o'") (auto simp: BRTransactionAddOutput_def BRTxOutputSetScript_def script_address_ok)
  with Cons show ?case by simp
qed simp

text \<open>A writer keeps the length of the buffer, also when the buffer is too short.\<close>

lemma put_Some: "\<exists>d'. put bs (Some d, off) = (Some d', off + length bs) \<and> length d' = length d"
  by (simp add: put_def)

lemma put_varint_Some:
  "\<exists>d'. put_varint i (Some d) = (if length (varint_bytes i) \<le> length d then length (varint_bytes i) else 0, Some d') \<and>
     length d' = length d"
  by (simp add: put_varint_def BRVarIntSet_def Let_def)

lemma sub_Some:
  assumes "f (Some (drop off d)) = (n, Some e)" "length e = length d - off"
  shows "\<exists>d'. sub f (Some d, off) = (Some d', off + n) \<and> length d' = length d"
  using assms by (simp add: sub_def)

lemma sub_varint_Some:
  "\<exists>d'. sub (put_varint i) (Some d, off) =
     (Some d', off + (if off + length (varint_bytes i) \<le> length d then length (varint_bytes i) else 0)) \<and>
     length d' = length d"
proof -
  obtain e where e: "put_varint i (Some (drop off d)) =
      (if length (varint_bytes i) \<le> length (drop off d) then length (varint_bytes i) else 0, Some e)"
      "length e = length (drop off d)"
    using put_varint_Some by blast
  have "length (varint_bytes i) \<le> length (drop off d) \<longleftrightarrow> off + length (varint_bytes i) \<le> length d"
    using length_varint_bytes(1)[of i] by auto
  with sub_Some[of "put_varint i" off d, OF e(1)] e(2) show ?thesis by simp
qed

lemma BRTxInputData_short:
  assumes "length d < 40"
  shows "\<exists>d'. BRTxInputData input (Some d) = (0, Some d') \<and> length d' = length d"
proof -
  let ?am = "ti_amount input \<noteq> 0"
  obtain d1 where 1: "put (UInt256Set (ti_txHash input)) (Some d, 0) = (Some d1, 32)" "length d1 = length d"
    using put_Some[of "UInt256Set (ti_txHash input)" d 0] by auto
  obtain d2 where 2: "put (UInt32SetLE (ti_index input)) (Some d1, 32) = (Some d2, 36)" "length d2 = length d"
    using put_Some[of "UInt32SetLE (ti_index input)" d1 32] 1 by auto
  obtain d3 n where 3: "sub (put_varint (of_nat (length (buf_of (ti_signature input))))) (Some d2, 36) = (Some d3, 36 + n)"
      "length d3 = length d"
    using sub_varint_Some[of "of_nat (length (buf_of (ti_signature input)))" d2 36] 2 by metis
  obtain d4 where 4: "put (buf_of (ti_signature input)) (Some d3, 36 + n) =
      (Some d4, 36 + n + length (buf_of (ti_signature input)))" "length d4 = length d"
    using put_Some[of "buf_of (ti_signature input)" d3 "36 + n"] 3 by auto
  let ?off = "36 + n + length (buf_of (ti_signature input))"
  obtain d5 m where 5: "(if ?am then put (UInt64SetLE (ti_amount input)) (Some d4, ?off) else (Some d4, ?off)) =
      (Some d5, ?off + m)" "length d5 = length d"
    using put_Some[of "UInt64SetLE (ti_amount input)" d4 ?off] 4 by (cases ?am) (auto intro: that[of _ 8] that[of _ 0])
  obtain d6 where 6: "put (UInt32SetLE (ti_sequence input)) (Some d5, ?off + m) = (Some d6, ?off + m + 4)"
      "length d6 = length d"
    using put_Some[of "UInt32SetLE (ti_sequence input)" d5 "?off + m"] 5 by auto
  show ?thesis
    unfolding BRTxInputData_def Let_def 1 2 3 4 5 6 using assms 6(2) by (simp add: finish_def)
qed

section \<open>Properties\<close>

text \<open>
  C15: serialisation: asked with a null pointer \<open>BRTransactionSerialize\<close> answers the length of the bytes of
  the protocol's format, and into a buffer that is long enough it writes exactly those bytes and nothing
  after them.
\<close>

theorem BRTransactionSerialize_correct:
  assumes "length (tx_bytes tx) \<le> length d"
  shows "BRTransactionSerialize tx None = (length (tx_bytes tx), None) \<and>
    BRTransactionSerialize tx (Some d) =
      (length (tx_bytes tx), Some (tx_bytes tx @ drop (length (tx_bytes tx)) d))"
  using tx.size_needed tx.written[OF TrueI assms] by simp

theorem BRTransactionSerialize_correct_witness:
  "\<exists>bs. length bs = 10 \<and> BRTransactionSerialize BRTransactionNew None = (10, None) \<and>
     BRTransactionSerialize BRTransactionNew (Some (replicate 12 7)) = (10, Some (bs @ [7, 7]))"
proof -
  have len: "length (tx_bytes BRTransactionNew) = 10"
    by (simp add: tx_bytes_def BRTransactionNew_def varint_bytes_def VAR_INT16_HEADER_def)
  then have "drop (length (tx_bytes BRTransactionNew)) (replicate 12 7) = ([7, 7] :: bytes)"
    by (simp add: numeral_2_eq_2)
  then show ?thesis
    using BRTransactionSerialize_correct[of BRTransactionNew "replicate 12 7"] len
    by (intro exI[of _ "tx_bytes BRTransactionNew"]) simp
qed

text \<open>
  C21: a buffer that is too short need not give 0: with a transaction of one input and no outputs and a
  buffer of 10 to 44 bytes the input does not fit and is left out, and the function returns 10.
\<close>

theorem BRTransactionSerialize_short:
  assumes "tx_inputs tx = [input]" "tx_outputs tx = []" "10 \<le> length d" "length d < 45"
  shows "fst (BRTransactionSerialize tx (Some d)) = 10 \<and> 45 < length (tx_bytes tx)"
proof
  have one: "length (varint_bytes 1) = 1" "length (varint_bytes 0) = 1"
    by (simp_all add: varint_bytes_def VAR_INT16_HEADER_def)
  obtain d1 where 1: "put (UInt32SetLE (tx_version tx)) (Some d, 0) = (Some d1, 4)" "length d1 = length d"
    using put_Some[of "UInt32SetLE (tx_version tx)" d 0] by auto
  obtain d2 where 2: "sub (put_varint 1) (Some d1, 4) = (Some d2, 5)" "length d2 = length d"
    using sub_varint_Some[of 1 d1 4] 1 one assms(3) by auto
  let ?i = "signing_input None SIGHASH_ALL 0 input"
  have "length (drop 5 d2) < 40" using 2(2) assms(3,4) by simp
  then obtain e where "BRTxInputData ?i (Some (drop 5 d2)) = (0, Some e)" "length e = length (drop 5 d2)"
    using BRTxInputData_short by blast
  then obtain d3 where 3: "sub (BRTxInputData ?i) (Some d2, 5) = (Some d3, 5)" "length d3 = length d"
    using sub_Some[of "BRTxInputData ?i" 5 d2 0 e] 2 by auto
  obtain d4 where 4: "sub (put_varint 0) (Some d3, 5) = (Some d4, 6)" "length d4 = length d"
    using sub_varint_Some[of 0 d3 5] 3 one assms(3) by auto
  have "BRTransactionOutputData tx None (Some (drop 6 d4)) = (0, Some (drop 6 d4))"
    using assms(2) by (simp add: BRTransactionOutputData_def outputs_at_def finish_def)
  then obtain d5 where 5: "sub (BRTransactionOutputData tx None) (Some d4, 6) = (Some d5, 6)" "length d5 = length d"
    using sub_Some[of "BRTransactionOutputData tx None" 6 d4] 4 by auto
  obtain d6 where 6: "put (UInt32SetLE (tx_lockTime tx)) (Some d5, 6) = (Some d6, 10)" "length d6 = length d"
    using put_Some[of "UInt32SetLE (tx_lockTime tx)" d5 6] 5 by auto
  have "fst (finish (Some d6, 10)) = 10" using 6(2) assms(3) by (simp add: finish_def)
  then show "fst (BRTransactionSerialize tx (Some d)) = 10"
    by (simp add: BRTransactionSerialize_def BRTransactionData_def Let_def sighash_facts assms(1,2) 1(1) 2(1)
        3(1) 4(1) 5(1) 6(1))
  have "40 < length (input_bytes (wire_input input))"
    using length_varint_bytes(1) by (auto simp: input_bytes_def intro!: add_less_le_mono)
  then show "45 < length (tx_bytes tx)"
    using assms(1,2) one by (simp add: tx_bytes_def)
qed

theorem BRTransactionSerialize_short_witness:
  "fst (BRTransactionSerialize (BRTransactionNew\<lparr>tx_inputs := [zero_input]\<rparr>) (Some (replicate 10 0))) = 10 \<and>
   45 < length (tx_bytes (BRTransactionNew\<lparr>tx_inputs := [zero_input]\<rparr>))"
  by (rule BRTransactionSerialize_short[of _ zero_input]) (simp_all add: BRTransactionNew_def)

text \<open>
  C16: parsing what was serialised gives the transaction back, with the addresses recomputed, no amounts on
  signed inputs, and the hash of the bytes if every input is signed; and it is serialised to the same bytes.
  The condition \<open>wire_ok\<close> leaves out signatures that look like the script of an address, and unsigned inputs
  without an amount, which the format does not tell apart.
\<close>

theorem BRTransaction_roundtrip:
  assumes "\<forall>i\<in>set (tx_inputs tx). wire_ok i" "tx_inputs tx \<noteq> []"
    and "length (tx_bytes tx) < 2 ^ 63" "mem < 2 ^ 64"
    and "length (tx_inputs tx) * TXINPUT_SIZEOF + 16 \<le> mem" "length (tx_outputs tx) * TXOUTPUT_SIZEOF + 16 \<le> mem"
  shows "\<exists>tx'. BRTransactionParse mem (serialized (BRTransactionSerialize tx)) = Inr (Some tx') \<and>
    tx' = tx\<lparr>tx_inputs := map parsed_input (tx_inputs tx), tx_outputs := map parsed_output (tx_outputs tx),
        tx_blockHeight := TX_UNCONFIRMED, tx_timestamp := 0,
        tx_txHash := if BRTransactionIsSigned tx then UInt256Get (BRSHA256_2 (tx_bytes tx)) else 0\<rparr> \<and>
    serialized (BRTransactionSerialize tx') = serialized (BRTransactionSerialize tx)"
  using parse_tx_bytes[OF assms(1,2,3,5,6,4)] assms(1)
  by (simp add: tx.serialized_enc tx_bytes_parsed)

theorem BRTransaction_roundtrip_witness:
  "\<exists>tx'. BRTransactionParse 1000 (serialized (BRTransactionSerialize
      (BRTransactionNew\<lparr>tx_inputs := [zero_input\<lparr>ti_signature := Some []\<rparr>]\<rparr>))) = Inr (Some tx') \<and> tx_outputs tx' = []"
proof -
  let ?i = "zero_input\<lparr>ti_signature := Some []\<rparr>"
  let ?tx = "BRTransactionNew\<lparr>tx_inputs := [?i]\<rparr>"
  have ok: "wire_ok ?i" by (simp add: wire_ok_def is_address_script_def BRAddressFromScriptPubKey_def)
  have "length (tx_bytes ?tx) = 51"
    by (simp add: tx_bytes_def BRTransactionNew_def varint_bytes_def VAR_INT16_HEADER_def input_bytes_def
        wire_input_def zero_input_def)
  then have "length (tx_bytes ?tx) < 2 ^ 63" by simp
  from BRTransaction_roundtrip[OF _ _ this, of 1000] ok show ?thesis
    by (auto simp: BRTransactionNew_def TXINPUT_SIZEOF_def TXOUTPUT_SIZEOF_def)
qed







text \<open>
  C19: for a signed transaction \<open>BRTransactionSize\<close> is the length of the serialised transaction.
\<close>

theorem BRTransactionSize_correct:
  assumes "BRTransactionIsSigned tx"
  shows "BRTransactionSize tx = fst (BRTransactionSerialize tx None)"
proof -
  have "map input_size (tx_inputs tx) = map (\<lambda>i. length (input_bytes (wire_input i))) (tx_inputs tx)"
    using assms by (auto simp: BRTransactionIsSigned_def list_all_iff length_input_bytes)
  then have "sum_list (map input_size (tx_inputs tx)) =
      sum_list (map (\<lambda>i. length (input_bytes (wire_input i))) (tx_inputs tx))"
    by (rule arg_cong)
  then show ?thesis
    using tx.size_needed[of tx] by (simp only: BRTransactionSize_sum length_tx_bytes) simp
qed

theorem BRTransactionSize_correct_witness:
  "BRTransactionSize (BRTransactionNew\<lparr>tx_inputs := [zero_input\<lparr>ti_signature := Some [1, 2]\<rparr>]\<rparr>) =
   fst (BRTransactionSerialize (BRTransactionNew\<lparr>tx_inputs := [zero_input\<lparr>ti_signature := Some [1, 2]\<rparr>]\<rparr>) None)"
  by (rule BRTransactionSize_correct) (simp add: BRTransactionIsSigned_def BRTransactionNew_def)

text \<open>
  Copying a transaction that was built with the library's own operations gives an equal transaction,
  and shuffling the outputs permutes them and changes nothing else.
\<close>

lemma BRTransaction_copy_shuffle:
  assumes "built tx" "length (tx_outputs tx) < 2 ^ 31" "BRTransactionShuffleOutputs tx rs = Some (tx', rs')"
  shows "BRTransactionCopy tx = Inr tx \<and> mset (tx_outputs tx') = mset (tx_outputs tx) \<and>
    tx' = tx\<lparr>tx_outputs := tx_outputs tx'\<rparr>"
proof -
  have "copy_inputs (tx_inputs tx) (tx\<lparr>tx_inputs := [], tx_outputs := []\<rparr>) = Inr (tx\<lparr>tx_outputs := []\<rparr>)"
    using assms(1) by (simp add: copy_inputs_ok built_def)
  moreover have "copy_outputs (tx_outputs tx) (tx\<lparr>tx_outputs := []\<rparr>) = Inr tx"
    using assms(1) by (simp add: copy_outputs_ok built_def)
  ultimately have "BRTransactionCopy tx = Inr tx" by (simp add: BRTransactionCopy_def)
  moreover obtain ys where "shuffle_loop 0 (tx_outputs tx) rs = Some (ys, rs')" "tx' = tx\<lparr>tx_outputs := ys\<rparr>"
    using assms(3) by (auto simp: BRTransactionShuffleOutputs_def split: option.splits)
  ultimately show ?thesis using shuffle_loop_mset[OF assms(2)] by simp
qed

lemma BRTransaction_copy_shuffle_witness:
  "BRTransactionCopy (BRTransactionNew\<lparr>tx_outputs := [zero_output, zero_output\<lparr>to_amount := 1\<rparr>]\<rparr>) =
     Inr (BRTransactionNew\<lparr>tx_outputs := [zero_output, zero_output\<lparr>to_amount := 1\<rparr>]\<rparr>) \<and>
   BRTransactionShuffleOutputs (BRTransactionNew\<lparr>tx_outputs := [zero_output, zero_output\<lparr>to_amount := 1\<rparr>]\<rparr>) [5] =
     Some (BRTransactionNew\<lparr>tx_outputs := [zero_output\<lparr>to_amount := 1\<rparr>, zero_output]\<rparr>, [])"
proof -
  let ?tx = "BRTransactionNew\<lparr>tx_outputs := [zero_output, zero_output\<lparr>to_amount := 1\<rparr>]\<rparr>"
  have s: "BRTransactionShuffleOutputs ?tx [5] =
     Some (BRTransactionNew\<lparr>tx_outputs := [zero_output\<lparr>to_amount := 1\<rparr>, zero_output]\<rparr>, [])"
    by (simp add: BRTransactionShuffleOutputs_def shuffle_loop.simps BRRand_def rand_bound_def BR_RAND_MAX_def
        BRTransactionNew_def swap_at_def Let_def)
  have b: "built ?tx" by (simp add: built_def BRTransactionNew_def zero_output_def)
  have "length (tx_outputs ?tx) < 2 ^ 31" by simp
  from BRTransaction_copy_shuffle[OF b this s] s show ?thesis by simp
qed

end
