(* ===== verification/BRBIP32.thy ===== *)
theory BRBIP32
  imports BRKeyCorrect
begin

text \<open>
  \<open>BRBIP32Sequence.c\<close>: the derivation of chains of keys from a seed, and that the public keys derived from
  the master public key are those of the private keys derived from the seed. The functions that the sources
  leave unimplemented return nothing.
\<close>

section \<open>Derivation\<close>

definition BIP32_HARD :: u32 where "BIP32_HARD = 0x80000000"
definition BIP32_SEED_KEY :: string where "BIP32_SEED_KEY = ''Bitcoin seed''"
definition SEQUENCE_EXTERNAL_CHAIN :: u32 where "SEQUENCE_EXTERNAL_CHAIN = 0"
definition SEQUENCE_INTERNAL_CHAIN :: u32 where "SEQUENCE_INTERNAL_CHAIN = 1"

record BRMasterPubKey =
  mpk_fingerPrint :: u32
  mpk_chainCode :: UInt256
  mpk_pubKey :: bytes

definition BR_MASTER_PUBKEY_NONE :: BRMasterPubKey where
  "BR_MASTER_PUBKEY_NONE = \<lparr>mpk_fingerPrint = 0, mpk_chainCode = 0, mpk_pubKey = replicate 33 0\<rparr>"

text \<open>\<open>I = HMAC-SHA512(key, data)\<close>, as its two halves.\<close>

definition hmac_halves :: "bytes \<Rightarrow> bytes \<Rightarrow> UInt256 \<times> UInt256" where
  "hmac_halves key data =
     (let I = BRHMAC BRSHA512 64 key data in (UInt256Get (take 32 I), UInt256Get (drop 32 I)))"

text \<open>A buffer whose point could not be computed is hashed without having been set.\<close>

definition CKDpriv :: "secp256k1 \<Rightarrow> UInt256 \<times> UInt256 \<Rightarrow> u32 \<Rightarrow> (UInt256 \<times> UInt256) res" where
  "CKDpriv S kc i =
     (case kc of (k, c) \<Rightarrow>
        rbind (if i AND BIP32_HARD \<noteq> 0 then Inr (0 # UInt256Set k)
               else (case BRSecp256k1PointGen S k of None \<Rightarrow> Inl Uninitialised | Some p \<Rightarrow> Inr p)) (\<lambda>buf.
        case hmac_halves (UInt256Set c) (buf @ UInt32SetBE i) of
          (IL, IR) \<Rightarrow> Inr (snd (BRSecp256k1ModAdd S k IL), IR)))"

definition CKDpub :: "secp256k1 \<Rightarrow> bytes \<times> UInt256 \<Rightarrow> u32 \<Rightarrow> bytes \<times> UInt256" where
  "CKDpub S Kc i =
     (case Kc of (K, c) \<Rightarrow>
        if i AND BIP32_HARD \<noteq> BIP32_HARD then
          (case hmac_halves (UInt256Set c) (K @ UInt32SetBE i) of
             (IL, IR) \<Rightarrow> (snd (BRSecp256k1PointAdd S K IL), IR))
        else (K, c))"

fun CKDpriv_path :: "secp256k1 \<Rightarrow> u32 list \<Rightarrow> UInt256 \<times> UInt256 \<Rightarrow> (UInt256 \<times> UInt256) res" where
  "CKDpriv_path S [] kc = Inr kc"
| "CKDpriv_path S (i # path) kc = rbind (CKDpriv S kc i) (CKDpriv_path S path)"

definition seed_key :: "bytes \<Rightarrow> UInt256 \<times> UInt256" where
  "seed_key seed = hmac_halves (map of_char BIP32_SEED_KEY) seed"

definition BRBIP32MasterPubKey :: "secp256k1 \<Rightarrow> bytes \<Rightarrow> BRMasterPubKey res" where
  "BRBIP32MasterPubKey S seed =
     (let (secret, chain) = seed_key seed;
          (_, key) = BRKeySetSecret S secret True;
          fingerPrint = UInt32GetLE (fst (BRKeyHash160 S key))
      in rbind (CKDpriv S (secret, chain) (0 OR BIP32_HARD)) (\<lambda>(secret, chain).
         let (_, key) = BRKeySetSecret S secret True;
             ((_, pub), _) = BRKeyPubKey S (Some 33) key
         in Inr \<lparr>mpk_fingerPrint = fingerPrint, mpk_chainCode = chain,
                 mpk_pubKey = (case pub of None \<Rightarrow> replicate 33 0 | Some p \<Rightarrow> p @ replicate (33 - length p) 0)\<rparr>))"

definition BRBIP32PubKey :: "secp256k1 \<Rightarrow> nat option \<Rightarrow> BRMasterPubKey \<Rightarrow> u32 \<Rightarrow> u32 \<Rightarrow> (nat \<times> bytes option) res" where
  "BRBIP32PubKey S pubKeyLen mpk chain index =
     (if mpk = BR_MASTER_PUBKEY_NONE then Inl AssertFailed
      else Inr (case pubKeyLen of
        None \<Rightarrow> (33, None)
      | Some n \<Rightarrow>
          if 33 \<le> n then (33, Some (fst (CKDpub S (CKDpub S (mpk_pubKey mpk, mpk_chainCode mpk) chain) index)))
          else (0, None)))"

text \<open>The variable arguments of a path are a list.\<close>

definition BRBIP32PrivKeyPath :: "secp256k1 \<Rightarrow> bytes \<Rightarrow> u32 list \<Rightarrow> BRKey res" where
  "BRBIP32PrivKeyPath S seed path =
     rbind (CKDpriv_path S path (seed_key seed)) (\<lambda>(secret, _). Inr (snd (BRKeySetSecret S secret True)))"

definition BRBIP32PrivKey :: "secp256k1 \<Rightarrow> bytes \<Rightarrow> u32 \<Rightarrow> u32 \<Rightarrow> BRKey res" where
  "BRBIP32PrivKey S seed chain index = BRBIP32PrivKeyPath S seed [0 OR BIP32_HARD, chain, index]"

fun priv_key_list :: "secp256k1 \<Rightarrow> UInt256 \<times> UInt256 \<Rightarrow> u32 list \<Rightarrow> BRKey list res" where
  "priv_key_list S kc [] = Inr []"
| "priv_key_list S kc (i # is) =
     rbind (CKDpriv S kc i) (\<lambda>(s, c).
     rbind (priv_key_list S kc is) (\<lambda>keys. Inr (snd (BRKeySetSecret S s True) # keys)))"

definition BRBIP32PrivKeyList :: "secp256k1 \<Rightarrow> bytes \<Rightarrow> u32 \<Rightarrow> u32 list \<Rightarrow> BRKey list res" where
  "BRBIP32PrivKeyList S seed chain indexes =
     (if indexes = [] then Inr []
      else rbind (CKDpriv S (seed_key seed) (0 OR BIP32_HARD)) (\<lambda>kc.
           rbind (CKDpriv S kc chain) (\<lambda>kc. priv_key_list S kc indexes)))"

definition BRBIP32APIAuthKey :: "secp256k1 \<Rightarrow> bytes \<Rightarrow> BRKey res" where
  "BRBIP32APIAuthKey S seed = BRBIP32PrivKeyPath S seed [1 OR BIP32_HARD, 0]"

definition BRBIP32BitIDKey :: "secp256k1 \<Rightarrow> bytes \<Rightarrow> u32 \<Rightarrow> string \<Rightarrow> BRKey res" where
  "BRBIP32BitIDKey S seed index uri =
     (let hash = BRSHA256 (UInt32SetLE index @ map of_char uri) in
      BRBIP32PrivKeyPath S seed
        [13 OR BIP32_HARD, UInt32GetLE hash OR BIP32_HARD, UInt32GetLE (drop 4 hash) OR BIP32_HARD,
         UInt32GetLE (drop 8 hash) OR BIP32_HARD, UInt32GetLE (drop 12 hash) OR BIP32_HARD])"

definition BRBIP32SerializeMasterPrivKey :: "bytes \<Rightarrow> nat" where
  "BRBIP32SerializeMasterPrivKey seed = 0"

definition BRBIP32ParseMasterPrivKey :: "string \<Rightarrow> nat" where
  "BRBIP32ParseMasterPrivKey str = 0"

definition BRBIP32SerializeMasterPubKey :: "BRMasterPubKey \<Rightarrow> nat" where
  "BRBIP32SerializeMasterPubKey mpk = 0"

definition BRBIP32ParseMasterPubKey :: "string \<Rightarrow> BRMasterPubKey" where
  "BRBIP32ParseMasterPubKey str = BR_MASTER_PUBKEY_NONE"

section \<open>Public and private derivation agree\<close>

text \<open>
  What secp256k1 documents: adding to a secret adds the point to its public key; a failed addition leaves
  the secret 0, which has no public key; and serialised points are read back.
\<close>

definition secp_laws :: "secp256k1 \<Rightarrow> bool" where
  "secp_laws S \<longleftrightarrow>
     (\<forall>k t pk. ec_pubkey_create S k = Some pk \<longrightarrow> fst (ec_privkey_tweak_add S k t) \<longrightarrow>
        ec_pubkey_tweak_add S pk t = ec_pubkey_create S (snd (ec_privkey_tweak_add S k t))) \<and>
     (\<forall>k t. \<not> fst (ec_privkey_tweak_add S k t) \<longrightarrow> ec_pubkey_create S (snd (ec_privkey_tweak_add S k t)) = None) \<and>
     (\<forall>k pk. ec_pubkey_create S k = Some pk \<longrightarrow> ec_pubkey_parse S (ec_pubkey_serialize S True pk) = Some pk) \<and>
     (\<forall>c pk. length (ec_pubkey_serialize S c pk) = (if c then 33 else 65))"

text \<open>The compressed public key of a secret that has one.\<close>

definition point :: "secp256k1 \<Rightarrow> UInt256 \<Rightarrow> bytes" where
  "point S k = (case BRSecp256k1PointGen S k of None \<Rightarrow> [] | Some p \<Rightarrow> p)"

lemma CKDpub_CKDpriv:
  assumes laws: "secp_laws S" and i: "i AND BIP32_HARD = 0"
    and d: "CKDpriv S (k, c) i = Inr (k', c')" and k': "ec_pubkey_create S k' \<noteq> None"
  shows "CKDpub S (point S k, c) i = (point S k', c')"
proof -
  obtain pk where pk: "ec_pubkey_create S k = Some pk"
    using d i by (cases "ec_pubkey_create S k") (auto simp: CKDpriv_def BRSecp256k1PointGen_def)
  let ?p = "ec_pubkey_serialize S True pk"
  obtain IL IR where h: "hmac_halves (UInt256Set c) (?p @ UInt32SetBE i) = (IL, IR)" by fastforce
  have kc: "k' = snd (ec_privkey_tweak_add S k IL)" "c' = IR"
    using d i pk h by (simp_all add: CKDpriv_def BRSecp256k1PointGen_def BRSecp256k1ModAdd_def)
  have "\<not> fst (ec_privkey_tweak_add S k IL) \<Longrightarrow> ec_pubkey_create S k' = None"
    using laws unfolding kc(1) by (simp add: secp_laws_def)
  then have "fst (ec_privkey_tweak_add S k IL)" using k' by blast
  then have "ec_pubkey_tweak_add S pk IL = ec_pubkey_create S k'" using laws pk kc by (auto simp: secp_laws_def)
  moreover have "ec_pubkey_parse S ?p = Some pk" using laws pk by (auto simp: secp_laws_def)
  ultimately show ?thesis
    using pk k' h i kc
    by (auto simp: CKDpub_def point_def BRSecp256k1PointGen_def BRSecp256k1PointAdd_def BIP32_HARD_def)
qed

lemma BRKeyPubKey_point:
  assumes laws: "secp_laws S" and k: "ec_pubkey_create S k \<noteq> None"
  shows "fst (BRKeyPubKey S (Some 33) (snd (BRKeySetSecret S k True))) = (33, Some (point S k))"
    "length (point S k) = 33"
proof -
  obtain pk where "ec_pubkey_create S k = Some pk" using k by blast
  moreover have "length (ec_pubkey_serialize S True pk) = 33" using laws by (simp add: secp_laws_def)
  ultimately show "fst (BRKeyPubKey S (Some 33) (snd (BRKeySetSecret S k True))) = (33, Some (point S k))"
    "length (point S k) = 33"
    by (simp_all add: BRKeyPubKey_def BRKeySetSecret_def BRKeyClean_def point_def BRSecp256k1PointGen_def)
qed

lemma priv_key_list_nth:
  "priv_key_list S kc is = Inr keys \<Longrightarrow> j < length is \<Longrightarrow>
   length keys = length is \<and> (\<exists>s c. CKDpriv S kc (is ! j) = Inr (s, c) \<and> keys ! j = snd (BRKeySetSecret S s True))"
proof (induction "is" arbitrary: keys j)
  case (Cons i js)
  then show ?case
    by (cases j) (fastforce simp: rbind_eq_Inr_conv split: prod.splits)+
qed simp

section \<open>Properties\<close>

text \<open>
  C24: the keys of a wallet can be found from its seed: when the private keys of a chain are derived, the
  public key derived from the master public key at an index is the one of the private key at that index,
  unless that private key is invalid. The indexes are not hardened ones.
\<close>

theorem BRBIP32_public_private:
  assumes laws: "secp_laws S"
    and priv: "BRBIP32PrivKeyList S seed chain is = Inr keys" and mpk: "BRBIP32MasterPubKey S seed = Inr mpk"
    and j: "j < length is" "chain AND BIP32_HARD = 0" "is ! j AND BIP32_HARD = 0"
    and valid: "ec_pubkey_create S (key_secret (keys ! j)) \<noteq> None" "mpk \<noteq> BR_MASTER_PUBKEY_NONE"
  shows "BRBIP32PubKey S (Some 33) mpk chain (is ! j) = Inr (fst (BRKeyPubKey S (Some 33) (keys ! j)))"
proof -
  obtain k0 c0 where 0: "CKDpriv S (seed_key seed) (0 OR BIP32_HARD) = Inr (k0, c0)"
    using priv j(1) by (auto simp: BRBIP32PrivKeyList_def rbind_eq_Inr_conv split: if_splits)
  then obtain k1 c1 where 1: "CKDpriv S (k0, c0) chain = Inr (k1, c1)" "priv_key_list S (k1, c1) is = Inr keys"
    using priv j(1) by (auto simp: BRBIP32PrivKeyList_def rbind_eq_Inr_conv split: if_splits)
  from priv_key_list_nth[OF 1(2) j(1)] obtain k2 c2 where
    2: "CKDpriv S (k1, c1) (is ! j) = Inr (k2, c2)" "keys ! j = snd (BRKeySetSecret S k2 True)" by blast
  have v2: "ec_pubkey_create S k2 \<noteq> None" using valid(1) 2(2) by (simp add: BRKeySetSecret_def)
  have v: "ec_pubkey_create S k \<noteq> None" if "CKDpriv S (k, c) i = Inr r" "i AND BIP32_HARD = 0" for k c i r
    using that by (cases "ec_pubkey_create S k") (auto simp: CKDpriv_def BRSecp256k1PointGen_def)
  have "mpk_chainCode mpk = c0" "mpk_pubKey mpk = point S k0"
    using mpk 0 BRKeyPubKey_point[OF laws v[OF 1(1) j(2)]]
    by (auto simp: BRBIP32MasterPubKey_def split_def)
  then have "CKDpub S (mpk_pubKey mpk, mpk_chainCode mpk) chain = (point S k1, c1)"
    using CKDpub_CKDpriv[OF laws j(2) 1(1) v[OF 2(1) j(3)]] by simp
  then have "BRBIP32PubKey S (Some 33) mpk chain (is ! j) = Inr (33, Some (point S k2))"
    using CKDpub_CKDpriv[OF laws j(3) 2(1) v2] valid(2) by (simp add: BRBIP32PubKey_def)
  then show ?thesis using BRKeyPubKey_point(1)[OF laws v2] 2(2) by simp
qed

lemma toy_laws: "secp_laws toy_secp256k1"
proof -
  have "take 32 (UInt256Set k @ r) = UInt256Set k" "UInt256Get (UInt256Set k) = k" for k r
    using get_set_LE(4)[of k "[]"] by simp_all
  then show ?thesis by (auto simp: secp_laws_def toy_secp256k1_def)
qed

theorem BRBIP32_public_private_witness:
  "\<exists>keys mpk. BRBIP32PrivKeyList toy_secp256k1 [1, 2, 3] 0 [5, 6] = Inr keys \<and>
     BRBIP32MasterPubKey toy_secp256k1 [1, 2, 3] = Inr mpk \<and>
     BRBIP32PubKey toy_secp256k1 (Some 33) mpk 0 6 = Inr (fst (BRKeyPubKey toy_secp256k1 (Some 33) (keys ! 1)))"
proof -
  have ok: "\<exists>k c. CKDpriv toy_secp256k1 kc i = Inr (k, c)" for kc i
    by (auto simp: CKDpriv_def BRSecp256k1PointGen_def toy_secp256k1_def split: prod.splits)
  obtain k0 c0 where 0: "CKDpriv toy_secp256k1 (seed_key [1, 2, 3]) (0 OR BIP32_HARD) = Inr (k0, c0)" using ok by blast
  obtain k1 c1 where 1: "CKDpriv toy_secp256k1 (k0, c0) 0 = Inr (k1, c1)" using ok by blast
  obtain k2 c2 where 2: "CKDpriv toy_secp256k1 (k1, c1) 5 = Inr (k2, c2)" using ok by blast
  obtain k3 c3 where 3: "CKDpriv toy_secp256k1 (k1, c1) 6 = Inr (k3, c3)" using ok by blast
  let ?keys = "[snd (BRKeySetSecret toy_secp256k1 k2 True), snd (BRKeySetSecret toy_secp256k1 k3 True)]"
  have keys: "BRBIP32PrivKeyList toy_secp256k1 [1, 2, 3] 0 [5, 6] = Inr ?keys"
    by (simp add: BRBIP32PrivKeyList_def 0[simplified] 1 2 3)
  obtain mpk where mpk: "BRBIP32MasterPubKey toy_secp256k1 [1, 2, 3] = Inr mpk"
    using 0 by (auto simp: BRBIP32MasterPubKey_def split_def)
  have create: "ec_pubkey_create toy_secp256k1 k = Some (UInt256Set k)" for k
    by (simp add: toy_secp256k1_def)
  have "point toy_secp256k1 k0 = 2 # UInt256Set k0"
    by (simp add: point_def BRSecp256k1PointGen_def toy_secp256k1_def)
  then have "mpk_pubKey mpk = 2 # UInt256Set k0"
    using mpk 0 BRKeyPubKey_point[OF toy_laws, of k0] create[of k0]
    by (auto simp: BRBIP32MasterPubKey_def split_def)
  then have "mpk_pubKey mpk \<noteq> mpk_pubKey BR_MASTER_PUBKEY_NONE"
    by (simp add: BR_MASTER_PUBKEY_NONE_def numeral_eq_Suc)
  then have "mpk \<noteq> BR_MASTER_PUBKEY_NONE" by blast
  moreover have "key_secret (?keys ! 1) = k3" by (simp add: BRKeySetSecret_def)
  moreover have "(6 :: u32) AND BIP32_HARD = 0" by (simp add: BIP32_HARD_def)
  ultimately show ?thesis
    using BRBIP32_public_private[OF toy_laws keys mpk, of 1] keys mpk create by simp
qed

end
