(* ===== verification/BRWallet.thy ===== *)
theory BRWallet
  imports BRTransactionCorrect BRBIP32
begin

text \<open>
  \<open>BRWallet.c\<close>: the wallet, its transactions, addresses, unspent outputs and balances.

  A hash set of the wallet is the set it refines (theory \<open>BRSetCorrect\<close>): of hashes for the sets of
  transactions, whose equality is that of the hashes, of outpoints, and of addresses. \<open>allTx\<close> owns the
  transactions, so it is the list of its items; a pointer to one of them, such as those in \<open>transactions\<close>, is
  its hash. A look-up that the code dereferences is checked. What the code takes from outside is in the record
  \<open>env\<close>: the curve library, the time, and whether \<open>realloc\<close> moves a chain of addresses that grows. The mutex
  has no counterpart, as every operation holds it while it works on the wallet.
\<close>

section \<open>State\<close>

record env =
  env_secp :: secp256k1
  env_now :: nat
  env_moves :: "nat \<Rightarrow> bool"

datatype callback = balanceChanged | txAdded | txUpdated | txDeleted

datatype event =
  BalanceChanged u64
| TxAdded UInt256
| TxUpdated "UInt256 list" u32 u32
| TxDeleted UInt256 bool bool

type_synonym BRUTXO = "UInt256 \<times> u32"

record BRWallet =
  w_balance :: u64
  w_totalSent :: u64
  w_totalReceived :: u64
  w_feePerKb :: u64
  w_balanceHist :: "u64 list"
  w_blockHeight :: u32
  w_utxos :: "BRUTXO list"
  w_transactions :: "UInt256 list"
  w_masterPubKey :: BRMasterPubKey
  w_internalChain :: "string list"
  w_externalChain :: "string list"
  w_allTx :: "BRTransaction list"
  w_invalidTx :: "UInt256 set"
  w_pendingTx :: "UInt256 set"
  w_spentOutputs :: "BRUTXO set"
  w_usedAddrs :: "string set"
  w_allAddrs :: "string set"
  w_callbacks :: "callback list"

definition DEFAULT_FEE_PER_KB :: u64 where "DEFAULT_FEE_PER_KB = TX_FEE_PER_KB * 10"
definition MIN_FEE_PER_KB :: u64 where "MIN_FEE_PER_KB = TX_FEE_PER_KB"
definition TX_MIN_OUTPUT_AMOUNT :: u64 where
  "TX_MIN_OUTPUT_AMOUNT = TX_FEE_PER_KB * 3 * of_nat (TX_OUTPUT_SIZE + TX_INPUT_SIZE) div 1000"
definition TX_MAX_SIZE :: nat where "TX_MAX_SIZE = 100000"
definition TX_MAX_LOCK_HEIGHT :: u32 where "TX_MAX_LOCK_HEIGHT = 500000000"
definition SEQUENCE_GAP_LIMIT_EXTERNAL :: nat where "SEQUENCE_GAP_LIMIT_EXTERNAL = 10"
definition SEQUENCE_GAP_LIMIT_INTERNAL :: nat where "SEQUENCE_GAP_LIMIT_INTERNAL = 5"

definition BRUTXOHash :: "BRUTXO \<Rightarrow> nat" where
  "BRUTXOHash u = unat (((ucast (fst u) :: u32) XOR snd u) * 0x01000193)"

definition BRUTXOEq :: "BRUTXO \<Rightarrow> BRUTXO \<Rightarrow> bool" where
  "BRUTXOEq u u' \<longleftrightarrow> u = u' \<or> (fst u = fst u' \<and> snd u = snd u')"

definition tx_get :: "BRTransaction list \<Rightarrow> UInt256 \<Rightarrow> BRTransaction option" where
  "tx_get all h = find (\<lambda>t. tx_txHash t = h) all"

definition tx_ref :: "BRTransaction list \<Rightarrow> UInt256 \<Rightarrow> BRTransaction res" where
  "tx_ref all h = (case tx_get all h of None \<Rightarrow> Inl NullDeref | Some t \<Rightarrow> Inr t)"

definition outpoint :: "BRTxInput \<Rightarrow> BRUTXO" where
  "outpoint input = (ti_txHash input, ti_index input)"

definition output_ref :: "BRTransaction list \<Rightarrow> BRUTXO \<Rightarrow> BRTxOutput res" where
  "output_ref all u = rbind (tx_ref all (fst u)) (\<lambda>t.
     if unat (snd u) < length (tx_outputs t) then Inr (tx_outputs t ! unat (snd u)) else Inl OutOfBounds)"

section \<open>Fees\<close>

definition txFee :: "u64 \<Rightarrow> nat \<Rightarrow> u64" where
  "txFee feePerKb len =
     (let standardFee = of_nat len * TX_FEE_PER_KB div 1000;
          fee = (of_nat len * feePerKb div 1000 + 99) div 100 * 100
      in if standardFee < fee then fee else standardFee)"

definition BRWalletFeeForTxSize :: "BRWallet \<Rightarrow> nat \<Rightarrow> u64" where
  "BRWalletFeeForTxSize w len = txFee (w_feePerKb w) len"

definition BRWalletMinOutputAmount :: "BRWallet \<Rightarrow> u64" where
  "BRWalletMinOutputAmount w =
     (let amount = (TX_MIN_OUTPUT_AMOUNT * w_feePerKb w + MIN_FEE_PER_KB - 1) div MIN_FEE_PER_KB
      in if TX_MIN_OUTPUT_AMOUNT < amount then amount else TX_MIN_OUTPUT_AMOUNT)"

section \<open>The order of the transactions\<close>

fun any_res :: "('a \<Rightarrow> bool res) \<Rightarrow> 'a list \<Rightarrow> bool res" where
  "any_res f [] = Inr False"
| "any_res f (x # xs) = rbind (f x) (\<lambda>b. if b then Inr True else any_res f xs)"

text \<open>
  The recursions that follow inputs to the transactions of \<open>allTx\<close> have a bound on their depth; a run that
  exceeds it is one that does not return. The bound the operations use is one more than the number of
  transactions, which is enough unless transactions spend each other in a cycle.
\<close>

fun TxIsAscending :: "nat \<Rightarrow> BRTransaction list \<Rightarrow> BRTransaction \<Rightarrow> BRTransaction \<Rightarrow> bool res" where
  "TxIsAscending 0 all tx1 tx2 = Inl NoReturn"
| "TxIsAscending (Suc n) all tx1 tx2 =
     (if tx_blockHeight tx2 < tx_blockHeight tx1 then Inr True
      else if tx_blockHeight tx1 < tx_blockHeight tx2 then Inr False
      else if list_ex (\<lambda>i. ti_txHash i = tx_txHash tx2) (tx_inputs tx1) then Inr True
      else if list_ex (\<lambda>i. ti_txHash i = tx_txHash tx1) (tx_inputs tx2) then Inr False
      else any_res (\<lambda>i. case tx_get all (ti_txHash i) of
             None \<Rightarrow> Inr False | Some t \<Rightarrow> TxIsAscending n all t tx2) (tx_inputs tx1))"

definition tx_fuel :: "BRWallet \<Rightarrow> nat" where
  "tx_fuel w = length (w_allTx w) + 1"

definition txChainIndex :: "BRTransaction \<Rightarrow> string list \<Rightarrow> nat option" where
  "txChainIndex tx addrChain =
     (case filter (\<lambda>i. list_ex (\<lambda>o'. BRAddressEq (to_address o') (addrChain ! i)) (tx_outputs tx))
        (rev [0..<length addrChain]) of
        [] \<Rightarrow> None
      | i # _ \<Rightarrow> Some i)"

definition chain_compare :: "BRWallet \<Rightarrow> BRTransaction \<Rightarrow> BRTransaction \<Rightarrow> int" where
  "chain_compare w tx1 tx2 =
     (let i = txChainIndex tx1 (w_internalChain w);
          j = txChainIndex tx2 (if i = None then w_externalChain w else w_internalChain w);
          i = (if i = None \<and> j \<noteq> None then txChainIndex tx1 (w_externalChain w) else i)
      in case (i, j) of
           (Some i, Some j) \<Rightarrow> if i \<noteq> j then (if j < i then 1 else - 1) else 0
         | _ \<Rightarrow> 0)"

definition TxCompare :: "BRWallet \<Rightarrow> BRTransaction \<Rightarrow> BRTransaction \<Rightarrow> int res" where
  "TxCompare w tx1 tx2 =
     rbind (TxIsAscending (tx_fuel w) (w_allTx w) tx1 tx2) (\<lambda>a.
     if a then Inr 1
     else rbind (TxIsAscending (tx_fuel w) (w_allTx w) tx2 tx1) (\<lambda>d.
       if d then Inr (- 1) else Inr (chain_compare w tx1 tx2)))"

text \<open>The insertion goes over the array from its end, here the reversed list.\<close>

fun insert_rev :: "BRWallet \<Rightarrow> BRTransaction \<Rightarrow> UInt256 list \<Rightarrow> UInt256 list res" where
  "insert_rev w tx [] = Inr [tx_txHash tx]"
| "insert_rev w tx (h # hs) =
     rbind (tx_ref (w_allTx w) h) (\<lambda>t.
     rbind (TxCompare w t tx) (\<lambda>c.
     if 0 < c then rbind (insert_rev w tx hs) (\<lambda>r. Inr (h # r)) else Inr (tx_txHash tx # h # hs)))"

definition InsertTx :: "BRWallet \<Rightarrow> BRTransaction \<Rightarrow> BRWallet res" where
  "InsertTx w tx =
     rbind (insert_rev w tx (rev (w_transactions w))) (\<lambda>r. Inr (w\<lparr>w_transactions := rev r\<rparr>))"

definition wallet_output :: "BRWallet \<Rightarrow> BRUTXO \<Rightarrow> BRTxOutput option" where
  "wallet_output w u =
     (case tx_get (w_allTx w) (fst u) of
        None \<Rightarrow> None
      | Some t \<Rightarrow>
          if unat (snd u) < length (tx_outputs t) \<and> to_address (tx_outputs t ! unat (snd u)) \<in> w_allAddrs w
          then Some (tx_outputs t ! unat (snd u)) else None)"

definition ContainsTx :: "BRWallet \<Rightarrow> BRTransaction \<Rightarrow> bool" where
  "ContainsTx w tx \<longleftrightarrow>
     list_ex (\<lambda>o'. to_address o' \<in> w_allAddrs w) (tx_outputs tx) \<or>
     list_ex (\<lambda>i. wallet_output w (outpoint i) \<noteq> None) (tx_inputs tx)"

section \<open>The balance\<close>

text \<open>The state of the loop of \<open>_BRWalletUpdateBalance\<close>.\<close>

record bal =
  b_balance :: u64
  b_prevBalance :: u64
  b_totalSent :: u64
  b_totalReceived :: u64
  b_balanceHist :: "u64 list"
  b_utxos :: "BRUTXO list"
  b_spent :: "BRUTXO set"
  b_invalid :: "UInt256 set"
  b_pending :: "UInt256 set"
  b_used :: "string set"

definition bal_init :: bal where
  "bal_init = \<lparr>b_balance = 0, b_prevBalance = 0, b_totalSent = 0, b_totalReceived = 0, b_balanceHist = [],
     b_utxos = [], b_spent = {}, b_invalid = {}, b_pending = {}, b_used = {}\<rparr>"

text \<open>What makes an unconfirmed transaction pending by itself, and by an input.\<close>

definition input_postdated :: "nat \<Rightarrow> u32 \<Rightarrow> BRTransaction \<Rightarrow> BRTxInput \<Rightarrow> bool" where
  "input_postdated now blockHeight tx input \<longleftrightarrow>
     ti_sequence input < 0xffffffff - 1 \<or>
     (ti_sequence input < 0xffffffff \<and> tx_lockTime tx < TX_MAX_LOCK_HEIGHT \<and> blockHeight + 1 < tx_lockTime tx) \<or>
     (ti_sequence input < 0xffffffff \<and> now < unat (tx_lockTime tx))"

definition tx_postdated :: "nat \<Rightarrow> u32 \<Rightarrow> BRTransaction \<Rightarrow> bool" where
  "tx_postdated now blockHeight tx \<longleftrightarrow>
     TX_MAX_SIZE < BRTransactionSize tx \<or>
     list_ex (\<lambda>o'. to_amount o' < TX_MIN_OUTPUT_AMOUNT) (tx_outputs tx) \<or>
     list_ex (input_postdated now blockHeight tx) (tx_inputs tx)"

definition bal_invalid :: "bal \<Rightarrow> BRTransaction \<Rightarrow> bool" where
  "bal_invalid b tx \<longleftrightarrow> tx_blockHeight tx = TX_UNCONFIRMED \<and>
     list_ex (\<lambda>i. outpoint i \<in> b_spent b \<or> ti_txHash i \<in> b_invalid b) (tx_inputs tx)"

definition bal_pending :: "env \<Rightarrow> BRWallet \<Rightarrow> bal \<Rightarrow> BRTransaction \<Rightarrow> bool" where
  "bal_pending E w b tx \<longleftrightarrow> tx_blockHeight tx = TX_UNCONFIRMED \<and>
     (tx_postdated (env_now E) (w_blockHeight w) tx \<or>
      list_ex (\<lambda>i. ti_txHash i \<in> b_pending b) (tx_inputs tx))"

text \<open>The outputs of a transaction are added, with their index.\<close>

definition add_output :: "BRWallet \<Rightarrow> UInt256 \<Rightarrow> bal \<Rightarrow> nat \<times> BRTxOutput \<Rightarrow> bal" where
  "add_output w h b jo =
     (case jo of (j, o') \<Rightarrow>
        if to_address o' = [] then b
        else
          let b = b\<lparr>b_used := insert (to_address o') (b_used b)\<rparr> in
          if to_address o' \<in> w_allAddrs w
          then b\<lparr>b_utxos := b_utxos b @ [(h, of_nat j)], b_balance := b_balance b + to_amount o'\<rparr>
          else b)"

text \<open>The unspent outputs are gone through from the end; the ones that are spent are taken out.\<close>

fun sweep :: "BRTransaction list \<Rightarrow> BRUTXO set \<Rightarrow> BRUTXO list \<Rightarrow> u64 \<Rightarrow> (BRUTXO list \<times> u64) res" where
  "sweep all spent [] balance = Inr ([], balance)"
| "sweep all spent (u # us) balance =
     (if u \<notin> spent then rbind (sweep all spent us balance) (\<lambda>(us, balance). Inr (u # us, balance))
      else rbind (output_ref all u) (\<lambda>o'. sweep all spent us (balance - to_amount o')))"

definition bal_skip :: "bal \<Rightarrow> bal" where
  "bal_skip b = b\<lparr>b_balanceHist := b_balanceHist b @ [b_balance b]\<rparr>"

definition bal_accept :: "BRWallet \<Rightarrow> bal \<Rightarrow> BRTransaction \<Rightarrow> bal res" where
  "bal_accept w b tx =
     (let b = foldl (add_output w (tx_txHash tx)) b (enumerate 0 (tx_outputs tx)) in
      rbind (sweep (w_allTx w) (b_spent b) (rev (b_utxos b)) (b_balance b)) (\<lambda>(us, balance).
      let prevBalance = b_prevBalance b in
      Inr (b\<lparr>b_utxos := rev us, b_balance := balance,
             b_totalReceived := b_totalReceived b + (if prevBalance < balance then balance - prevBalance else 0),
             b_totalSent := b_totalSent b + (if balance < prevBalance then prevBalance - balance else 0),
             b_balanceHist := b_balanceHist b @ [balance],
             b_prevBalance := balance\<rparr>)))"

definition bal_step :: "env \<Rightarrow> BRWallet \<Rightarrow> bal \<Rightarrow> BRTransaction \<Rightarrow> bal res" where
  "bal_step E w b tx =
     (if bal_invalid b tx then Inr (bal_skip (b\<lparr>b_invalid := insert (tx_txHash tx) (b_invalid b)\<rparr>))
      else
        let b = b\<lparr>b_spent := b_spent b \<union> outpoint ` set (tx_inputs tx)\<rparr> in
        if bal_pending E w b tx then Inr (bal_skip (b\<lparr>b_pending := insert (tx_txHash tx) (b_pending b)\<rparr>))
        else bal_accept w b tx)"

fun bal_loop :: "env \<Rightarrow> BRWallet \<Rightarrow> bal \<Rightarrow> UInt256 list \<Rightarrow> bal res" where
  "bal_loop E w b [] = Inr b"
| "bal_loop E w b (h # hs) =
     rbind (tx_ref (w_allTx w) h) (\<lambda>tx. rbind (bal_step E w b tx) (\<lambda>b. bal_loop E w b hs))"

definition UpdateBalance :: "env \<Rightarrow> BRWallet \<Rightarrow> BRWallet res" where
  "UpdateBalance E w =
     rbind (bal_loop E w bal_init (w_transactions w)) (\<lambda>b.
     if length (b_balanceHist b) \<noteq> length (w_transactions w) then Inl AssertFailed
     else Inr (w\<lparr>w_utxos := b_utxos b, w_balanceHist := b_balanceHist b, w_spentOutputs := b_spent b,
                 w_invalidTx := b_invalid b, w_pendingTx := b_pending b, w_usedAddrs := b_used b,
                 w_totalSent := b_totalSent b, w_totalReceived := b_totalReceived b,
                 w_balance := b_balance b\<rparr>))"

section \<open>Addresses\<close>

text \<open>The address of a chain at an index; \<open>None\<close> when a key cannot be derived.\<close>

definition chain_address :: "env \<Rightarrow> BRMasterPubKey \<Rightarrow> bool \<Rightarrow> nat \<Rightarrow> string option res" where
  "chain_address E mpk internal index =
     rbind (BRBIP32PubKey (env_secp E) (Some 33) mpk
              (if internal then SEQUENCE_INTERNAL_CHAIN else SEQUENCE_EXTERNAL_CHAIN) (of_nat index)) (\<lambda>(len, pub).
     rbind (BRKeySetPubKey (env_secp E) (take len (buf_of pub))) (\<lambda>(ok, key).
     if \<not> ok then Inr None
     else (case fst (BRKeyAddress (env_secp E) (Some 75) key) of
             (n, Some a) \<Rightarrow> Inr (if n = 0 \<or> a = [] then None else Some a)
           | (n, None) \<Rightarrow> Inr None)))"

text \<open>
  The loop that extends a chain: \<open>i\<close> is the index after the last used address. It ends when \<open>gapLimit\<close>
  addresses follow, or when no more can be derived; \<open>None\<close> is a run that does not end.
\<close>

partial_function (option) extend_chain ::
    "env \<Rightarrow> BRMasterPubKey \<Rightarrow> bool \<Rightarrow> string set \<Rightarrow> nat \<Rightarrow> nat \<Rightarrow> string list \<Rightarrow> (nat \<times> string list) res option" where
  "extend_chain E mpk internal used gapLimit i chain =
     (if i + gapLimit \<le> length chain then Some (Inr (i, chain))
      else case chain_address E mpk internal (length chain) of
        Inl e \<Rightarrow> Some (Inl e)
      | Inr None \<Rightarrow> Some (Inr (i, chain))
      | Inr (Some a) \<Rightarrow> extend_chain E mpk internal used gapLimit
          (if a \<in> used then length chain + 1 else i) (chain @ [a]))"

definition returning :: "'a res option \<Rightarrow> 'a res" where
  "returning r = (case r of None \<Rightarrow> Inl NoReturn | Some x \<Rightarrow> x)"

definition last_used :: "string set \<Rightarrow> string list \<Rightarrow> nat" where
  "last_used used chain = length chain - length (takeWhile (\<lambda>a. a \<notin> used) (rev chain))"

definition BRWalletUnusedAddrs :: "env \<Rightarrow> BRWallet \<Rightarrow> nat \<Rightarrow> bool \<Rightarrow> (string list \<times> BRWallet) res" where
  "BRWalletUnusedAddrs E w gapLimit internal =
     (if gapLimit = 0 then Inl AssertFailed
      else
        let chain = (if internal then w_internalChain w else w_externalChain w) in
        rbind (returning (extend_chain E (w_masterPubKey w) internal (w_usedAddrs w) gapLimit
                            (last_used (w_usedAddrs w) chain) chain)) (\<lambda>(i, chain').
        let addrs = (if i + gapLimit \<le> length chain' then take gapLimit (drop i chain') else []);
            w' = (if internal then w\<lparr>w_internalChain := chain'\<rparr> else w\<lparr>w_externalChain := chain'\<rparr>);
            allAddrs = (if chain' \<noteq> chain \<and> env_moves E (length chain)
                        then set (w_internalChain w') \<union> set (w_externalChain w')
                        else w_allAddrs w \<union> set (drop (length chain) chain'))
        in Inr (addrs, w'\<lparr>w_allAddrs := allAddrs\<rparr>)))"

definition BRWalletReceiveAddress :: "env \<Rightarrow> BRWallet \<Rightarrow> (string \<times> BRWallet) res" where
  "BRWalletReceiveAddress E w =
     rbind (BRWalletUnusedAddrs E w 1 False) (\<lambda>(addrs, w). Inr (case addrs of [] \<Rightarrow> [] | a # _ \<Rightarrow> a, w))"

section \<open>Reading the wallet\<close>

text \<open>A caller's array has a length, or is a null pointer, which asks for the number of items.\<close>

definition written :: "nat option \<Rightarrow> 'a list \<Rightarrow> nat \<times> 'a list" where
  "written room xs =
     (case room of
        None \<Rightarrow> (length xs, [])
      | Some n \<Rightarrow> (if length xs < n then length xs else n, take n xs))"

definition BRWalletBalance :: "BRWallet \<Rightarrow> u64" where
  "BRWalletBalance w = w_balance w"

definition BRWalletUTXOs :: "BRWallet \<Rightarrow> nat option \<Rightarrow> nat \<times> BRUTXO list" where
  "BRWalletUTXOs w utxosCount = written utxosCount (w_utxos w)"

definition BRWalletTransactions :: "BRWallet \<Rightarrow> nat option \<Rightarrow> nat \<times> UInt256 list" where
  "BRWalletTransactions w txCount = written txCount (w_transactions w)"

text \<open>The hashes, from the end, of the transactions that are at a height above.\<close>

fun while_height :: "BRTransaction list \<Rightarrow> (u32 \<Rightarrow> bool) \<Rightarrow> UInt256 list \<Rightarrow> UInt256 list res" where
  "while_height all P [] = Inr []"
| "while_height all P (h # hs) =
     rbind (tx_ref all h) (\<lambda>t.
     if P (tx_blockHeight t) then rbind (while_height all P hs) (\<lambda>r. Inr (h # r)) else Inr [])"

definition BRWalletTxUnconfirmedBefore :: "BRWallet \<Rightarrow> nat option \<Rightarrow> u32 \<Rightarrow> (nat \<times> UInt256 list) res" where
  "BRWalletTxUnconfirmedBefore w txCount blockHeight =
     rbind (while_height (w_allTx w) (\<lambda>b. blockHeight \<le> b) (rev (w_transactions w))) (\<lambda>r.
     Inr (written txCount (rev r)))"

definition BRWalletTotalSent :: "BRWallet \<Rightarrow> u64" where
  "BRWalletTotalSent w = w_totalSent w"

definition BRWalletTotalReceived :: "BRWallet \<Rightarrow> u64" where
  "BRWalletTotalReceived w = w_totalReceived w"

definition BRWalletFeePerKb :: "BRWallet \<Rightarrow> u64" where
  "BRWalletFeePerKb w = w_feePerKb w"

definition BRWalletSetFeePerKb :: "BRWallet \<Rightarrow> u64 \<Rightarrow> BRWallet" where
  "BRWalletSetFeePerKb w feePerKb = w\<lparr>w_feePerKb := feePerKb\<rparr>"

definition BRWalletSetCallbacks :: "BRWallet \<Rightarrow> callback list \<Rightarrow> BRWallet" where
  "BRWalletSetCallbacks w cbs = w\<lparr>w_callbacks := cbs\<rparr>"

definition BRWalletAllAddrs :: "BRWallet \<Rightarrow> nat option \<Rightarrow> nat \<times> string list" where
  "BRWalletAllAddrs w addrsCount =
     (let (internalCount, internal) = written addrsCount (w_internalChain w);
          (externalCount, external) =
            written (map_option (\<lambda>n. n - internalCount) addrsCount) (w_externalChain w)
      in (internalCount + externalCount, internal @ external))"

definition BRWalletContainsAddress :: "BRWallet \<Rightarrow> string \<Rightarrow> bool" where
  "BRWalletContainsAddress w addr \<longleftrightarrow> addr \<in> w_allAddrs w"

definition BRWalletAddressIsUsed :: "BRWallet \<Rightarrow> string \<Rightarrow> bool" where
  "BRWalletAddressIsUsed w addr \<longleftrightarrow> addr \<in> w_usedAddrs w"

definition BRWalletContainsTransaction :: "BRWallet \<Rightarrow> BRTransaction \<Rightarrow> bool" where
  "BRWalletContainsTransaction w tx = ContainsTx w tx"

definition BRWalletTransactionForHash :: "BRWallet \<Rightarrow> UInt256 \<Rightarrow> BRTransaction option res" where
  "BRWalletTransactionForHash w txHash =
     (if UInt256IsZero txHash then Inl AssertFailed else Inr (tx_get (w_allTx w) txHash))"

definition BRWalletAmountReceivedFromTx :: "BRWallet \<Rightarrow> BRTransaction \<Rightarrow> u64" where
  "BRWalletAmountReceivedFromTx w tx =
     foldl (\<lambda>amount o'. if to_address o' \<in> w_allAddrs w then amount + to_amount o' else amount) 0 (tx_outputs tx)"

definition BRWalletAmountSentByTx :: "BRWallet \<Rightarrow> BRTransaction \<Rightarrow> u64" where
  "BRWalletAmountSentByTx w tx =
     foldl (\<lambda>amount i. case wallet_output w (outpoint i) of None \<Rightarrow> amount | Some o' \<Rightarrow> amount + to_amount o') 0
       (tx_inputs tx)"

text \<open>The loops of the fee stop at \<open>UINT64_MAX\<close>, which is also what a sum may come to.\<close>

fun fee_inputs :: "BRWallet \<Rightarrow> BRTxInput list \<Rightarrow> u64 \<Rightarrow> u64" where
  "fee_inputs w [] amount = amount"
| "fee_inputs w (i # is) amount =
     (if amount = - 1 then amount
      else case output_ref (w_allTx w) (outpoint i) of
        Inl e \<Rightarrow> fee_inputs w is (- 1)
      | Inr o' \<Rightarrow> fee_inputs w is (amount + to_amount o'))"

fun fee_outputs :: "BRTxOutput list \<Rightarrow> u64 \<Rightarrow> u64" where
  "fee_outputs [] amount = amount"
| "fee_outputs (o' # os) amount = (if amount = - 1 then amount else fee_outputs os (amount - to_amount o'))"

definition BRWalletFeeForTx :: "BRWallet \<Rightarrow> BRTransaction \<Rightarrow> u64" where
  "BRWalletFeeForTx w tx = fee_outputs (tx_outputs tx) (fee_inputs w (tx_inputs tx) 0)"

fun balance_at :: "BRWallet \<Rightarrow> UInt256 \<Rightarrow> UInt256 list \<Rightarrow> u64 res" where
  "balance_at w txHash [] = Inr (w_balance w)"
| "balance_at w txHash (h # hs) =
     rbind (tx_ref (w_allTx w) h) (\<lambda>t.
     if h = txHash then
       (if length hs < length (w_balanceHist w) then Inr (w_balanceHist w ! length hs) else Inl OutOfBounds)
     else balance_at w txHash hs)"

definition BRWalletBalanceAfterTx :: "BRWallet \<Rightarrow> BRTransaction \<Rightarrow> u64 res" where
  "BRWalletBalanceAfterTx w tx =
     (if \<not> BRTransactionIsSigned tx then Inl AssertFailed
      else balance_at w (tx_txHash tx) (rev (w_transactions w)))"

definition BRWalletMaxOutputAmount :: "BRWallet \<Rightarrow> u64" where
  "BRWalletMaxOutputAmount w =
     (let outs = List.map_filter (\<lambda>u. case output_ref (w_allTx w) u of Inl e \<Rightarrow> None | Inr o' \<Rightarrow> Some o')
                   (rev (w_utxos w));
          inCount = length outs;
          amount = foldl (\<lambda>amount o'. amount + to_amount o') 0 outs;
          txSize = 8 + varint_size inCount + TX_INPUT_SIZE * inCount + varint_size 2 + TX_OUTPUT_SIZE * 2;
          fee = txFee (w_feePerKb w) txSize
      in if fee < amount then amount - fee else 0)"

section \<open>The state of a transaction\<close>

fun all_res :: "('a \<Rightarrow> bool res) \<Rightarrow> 'a list \<Rightarrow> bool res" where
  "all_res f [] = Inr True"
| "all_res f (x # xs) = rbind (f x) (\<lambda>b. if b then all_res f xs else Inr False)"

fun TransactionIsValid :: "nat \<Rightarrow> BRWallet \<Rightarrow> BRTransaction \<Rightarrow> bool res" where
  "TransactionIsValid 0 w tx = Inl NoReturn"
| "TransactionIsValid (Suc n) w tx =
     (if \<not> BRTransactionIsSigned tx then Inl AssertFailed
      else if tx_blockHeight tx \<noteq> TX_UNCONFIRMED then Inr True
      else if (if tx_get (w_allTx w) (tx_txHash tx) = None
               then list_ex (\<lambda>i. outpoint i \<in> w_spentOutputs w) (tx_inputs tx)
               else tx_txHash tx \<in> w_invalidTx w) then Inr False
      else all_res (\<lambda>i. rbind (BRWalletTransactionForHash w (ti_txHash i)) (\<lambda>t.
             case t of None \<Rightarrow> Inr True | Some t \<Rightarrow> TransactionIsValid n w t)) (tx_inputs tx))"

definition BRWalletTransactionIsValid :: "BRWallet \<Rightarrow> BRTransaction \<Rightarrow> bool res" where
  "BRWalletTransactionIsValid w tx = TransactionIsValid (tx_fuel w) w tx"

fun TransactionIsPending :: "nat \<Rightarrow> env \<Rightarrow> BRWallet \<Rightarrow> BRTransaction \<Rightarrow> bool res" where
  "TransactionIsPending 0 E w tx = Inl NoReturn"
| "TransactionIsPending (Suc n) E w tx =
     (if \<not> BRTransactionIsSigned tx then Inl AssertFailed
      else if tx_blockHeight tx \<noteq> TX_UNCONFIRMED then Inr False
      else if tx_postdated (env_now E) (w_blockHeight w) tx then Inr True
      else any_res (\<lambda>i. rbind (BRWalletTransactionForHash w (ti_txHash i)) (\<lambda>t.
             case t of None \<Rightarrow> Inr False | Some t \<Rightarrow> TransactionIsPending n E w t)) (tx_inputs tx))"

definition BRWalletTransactionIsPending :: "env \<Rightarrow> BRWallet \<Rightarrow> BRTransaction \<Rightarrow> bool res" where
  "BRWalletTransactionIsPending E w tx = TransactionIsPending (tx_fuel w) E w tx"

fun TransactionIsVerified :: "nat \<Rightarrow> env \<Rightarrow> BRWallet \<Rightarrow> BRTransaction \<Rightarrow> bool res" where
  "TransactionIsVerified 0 E w tx = Inl NoReturn"
| "TransactionIsVerified (Suc n) E w tx =
     (if \<not> BRTransactionIsSigned tx then Inl AssertFailed
      else if tx_blockHeight tx \<noteq> TX_UNCONFIRMED then Inr True
      else if tx_timestamp tx = 0 then Inr False
      else rbind (BRWalletTransactionIsValid w tx) (\<lambda>valid.
           if \<not> valid then Inr False
           else rbind (BRWalletTransactionIsPending E w tx) (\<lambda>pending.
           if pending then Inr False
           else all_res (\<lambda>i. rbind (BRWalletTransactionForHash w (ti_txHash i)) (\<lambda>t.
                  case t of None \<Rightarrow> Inr True | Some t \<Rightarrow> TransactionIsVerified n E w t)) (tx_inputs tx))))"

definition BRWalletTransactionIsVerified :: "env \<Rightarrow> BRWallet \<Rightarrow> BRTransaction \<Rightarrow> bool res" where
  "BRWalletTransactionIsVerified E w tx = TransactionIsVerified (tx_fuel w) E w tx"

section \<open>Adding and removing transactions\<close>

text \<open>The callbacks that are set are called, in this order.\<close>

definition notify :: "BRWallet \<Rightarrow> (callback \<times> event) list \<Rightarrow> event list" where
  "notify w evs = map snd (filter (\<lambda>(c, _). c \<in> set (w_callbacks w)) evs)"

definition extend_chains :: "env \<Rightarrow> BRWallet \<Rightarrow> BRWallet res" where
  "extend_chains E w =
     rbind (BRWalletUnusedAddrs E w SEQUENCE_GAP_LIMIT_EXTERNAL False) (\<lambda>(_, w).
     rbind (BRWalletUnusedAddrs E w SEQUENCE_GAP_LIMIT_INTERNAL True) (\<lambda>(_, w). Inr w))"

definition BRWalletRegisterTransaction :: "env \<Rightarrow> BRWallet \<Rightarrow> BRTransaction \<Rightarrow> (bool \<times> BRWallet \<times> event list) res" where
  "BRWalletRegisterTransaction E w tx =
     (if \<not> BRTransactionIsSigned tx then Inl AssertFailed
      else if tx_get (w_allTx w) (tx_txHash tx) \<noteq> None then Inr (True, w, [])
      else if ContainsTx w tx then
        rbind (InsertTx (w\<lparr>w_allTx := w_allTx w @ [tx]\<rparr>) tx) (\<lambda>w.
        rbind (UpdateBalance E w) (\<lambda>w.
        rbind (extend_chains E w) (\<lambda>w.
        Inr (True, w, notify w [(balanceChanged, BalanceChanged (w_balance w)), (txAdded, TxAdded (tx_txHash tx))]))))
      else Inr (False, if tx_blockHeight tx = TX_UNCONFIRMED then w\<lparr>w_allTx := w_allTx w @ [tx]\<rparr> else w, []))"

text \<open>
  Taking a transaction out of the array, from its end, here the reversed list; \<open>None\<close> when it is not in it.
\<close>

fun remove_rev :: "BRTransaction list \<Rightarrow> UInt256 \<Rightarrow> UInt256 list \<Rightarrow> UInt256 list option res" where
  "remove_rev all txHash [] = Inr None"
| "remove_rev all txHash (h # hs) =
     rbind (tx_ref all h) (\<lambda>_.
     if h = txHash then Inr (Some hs)
     else rbind (remove_rev all txHash hs) (\<lambda>r. Inr (map_option (\<lambda>hs. h # hs) r)))"

fun dependents :: "BRTransaction list \<Rightarrow> BRTransaction \<Rightarrow> UInt256 list \<Rightarrow> UInt256 list res" where
  "dependents all tx [] = Inr []"
| "dependents all tx (h # hs) =
     rbind (tx_ref all h) (\<lambda>t.
     if tx_blockHeight t < tx_blockHeight tx then Inr []
     else rbind (dependents all tx hs) (\<lambda>r.
       Inr (if h \<noteq> tx_txHash tx \<and> list_ex (\<lambda>i. ti_txHash i = tx_txHash tx) (tx_inputs t) then h # r else r)))"

text \<open>Whether the user is notified that a transaction is gone, and whether a rescan is recommended.\<close>

definition removal_notice :: "BRWallet \<Rightarrow> BRTransaction \<Rightarrow> (bool \<times> bool) res" where
  "removal_notice w tx =
     (if BRWalletAmountSentByTx w tx = 0 then Inr (False, False)
      else rbind (BRWalletTransactionIsValid w tx) (\<lambda>valid.
        if \<not> valid then Inr (False, False)
        else rbind (all_res (\<lambda>i. rbind (BRWalletTransactionForHash w (ti_txHash i)) (\<lambda>t.
                      Inr (case t of None \<Rightarrow> False | Some t \<Rightarrow> tx_blockHeight t \<noteq> TX_UNCONFIRMED))) (tx_inputs tx))
               (\<lambda>confirmed. Inr (True, confirmed))))"

fun fold_res :: "('b \<Rightarrow> 'a \<Rightarrow> 'a res) \<Rightarrow> 'b list \<Rightarrow> 'a \<Rightarrow> 'a res" where
  "fold_res f [] s = Inr s"
| "fold_res f (x # xs) s = rbind (f x s) (fold_res f xs)"

primrec RemoveTransaction :: "nat \<Rightarrow> env \<Rightarrow> UInt256 \<Rightarrow> BRWallet \<times> event list \<Rightarrow> (BRWallet \<times> event list) res" where
  "RemoveTransaction 0 = (\<lambda>E txHash st. Inl NoReturn)"
| "RemoveTransaction (Suc n) = (\<lambda>E txHash st.
     case st of (w, evs) \<Rightarrow>
     if UInt256IsZero txHash then Inl AssertFailed
     else case tx_get (w_allTx w) txHash of
       None \<Rightarrow> Inr (w, evs)
     | Some tx \<Rightarrow>
         rbind (dependents (w_allTx w) tx (rev (w_transactions w))) (\<lambda>hashes.
         if hashes \<noteq> [] then
           rbind (fold_res (RemoveTransaction n E) (rev hashes) (w, evs)) (RemoveTransaction n E txHash)
         else
           rbind (remove_rev (w_allTx w) txHash (rev (w_transactions w))) (\<lambda>r.
           let w = (case r of None \<Rightarrow> w | Some hs \<Rightarrow> w\<lparr>w_transactions := rev hs\<rparr>) in
           rbind (UpdateBalance E w) (\<lambda>w.
           rbind (removal_notice w tx) (\<lambda>(notifyUser, recommendRescan).
           Inr (w, evs @ notify w [(balanceChanged, BalanceChanged (w_balance w)),
                                   (txDeleted, TxDeleted txHash notifyUser recommendRescan)]))))))"

definition BRWalletRemoveTransaction :: "env \<Rightarrow> BRWallet \<Rightarrow> UInt256 \<Rightarrow> (BRWallet \<times> event list) res" where
  "BRWalletRemoveTransaction E w txHash = RemoveTransaction (length (w_transactions w) + 2) E txHash (w, [])"

definition tx_set :: "u32 \<Rightarrow> u32 \<Rightarrow> UInt256 \<Rightarrow> BRTransaction list \<Rightarrow> BRTransaction list" where
  "tx_set blockHeight timestamp h all =
     map (\<lambda>t. if tx_txHash t = h then t\<lparr>tx_blockHeight := blockHeight, tx_timestamp := timestamp\<rparr> else t) all"

definition update_tx ::
    "u32 \<Rightarrow> u32 \<Rightarrow> UInt256 \<Rightarrow> BRWallet \<times> UInt256 list \<times> bool \<Rightarrow> (BRWallet \<times> UInt256 list \<times> bool) res" where
  "update_tx blockHeight timestamp h st =
     (case st of (w, hashes, needsUpdate) \<Rightarrow>
      case tx_get (w_allTx w) h of
        None \<Rightarrow> Inr (w, hashes, needsUpdate)
      | Some tx \<Rightarrow>
          if tx_blockHeight tx = blockHeight \<and> tx_timestamp tx = timestamp then Inr (w, hashes, needsUpdate)
          else
            let tx = tx\<lparr>tx_blockHeight := blockHeight, tx_timestamp := timestamp\<rparr>;
                w = w\<lparr>w_allTx := tx_set blockHeight timestamp h (w_allTx w)\<rparr>
            in if ContainsTx w tx then
                 rbind (remove_rev (w_allTx w) h (rev (w_transactions w))) (\<lambda>r.
                 rbind (case r of None \<Rightarrow> Inr w | Some hs \<Rightarrow> InsertTx (w\<lparr>w_transactions := rev hs\<rparr>) tx) (\<lambda>w.
                 Inr (w, hashes @ [h], needsUpdate \<or> h \<in> w_pendingTx w \<or> h \<in> w_invalidTx w)))
               else Inr (if blockHeight \<noteq> TX_UNCONFIRMED
                         then w\<lparr>w_allTx := filter (\<lambda>t. tx_txHash t \<noteq> h) (w_allTx w)\<rparr> else w,
                         hashes, needsUpdate))"

definition BRWalletUpdateTransactions ::
    "env \<Rightarrow> BRWallet \<Rightarrow> UInt256 list \<Rightarrow> u32 \<Rightarrow> u32 \<Rightarrow> (BRWallet \<times> event list) res" where
  "BRWalletUpdateTransactions E w txHashes blockHeight timestamp =
     (let w = (if w_blockHeight w < blockHeight then w\<lparr>w_blockHeight := blockHeight\<rparr> else w) in
      rbind (fold_res (update_tx blockHeight timestamp) txHashes (w, [], False)) (\<lambda>(w, hashes, needsUpdate).
      rbind (if needsUpdate then UpdateBalance E w else Inr w) (\<lambda>w.
      Inr (w, if hashes = [] then [] else notify w [(txUpdated, TxUpdated hashes blockHeight timestamp)]))))"

definition tx_unconfirm :: "UInt256 list \<Rightarrow> BRTransaction list \<Rightarrow> BRTransaction list" where
  "tx_unconfirm hashes all =
     map (\<lambda>t. if tx_txHash t \<in> set hashes then t\<lparr>tx_blockHeight := TX_UNCONFIRMED\<rparr> else t) all"

definition BRWalletSetTxUnconfirmedAfter :: "env \<Rightarrow> BRWallet \<Rightarrow> u32 \<Rightarrow> (BRWallet \<times> event list) res" where
  "BRWalletSetTxUnconfirmedAfter E w blockHeight =
     (let w = w\<lparr>w_blockHeight := blockHeight\<rparr> in
      rbind (while_height (w_allTx w) (\<lambda>b. blockHeight < b) (rev (w_transactions w))) (\<lambda>r.
      let hashes = rev r; w = w\<lparr>w_allTx := tx_unconfirm hashes (w_allTx w)\<rparr> in
      rbind (if hashes \<noteq> [] then UpdateBalance E w else Inr w) (\<lambda>w.
      Inr (w, if hashes = [] then [] else notify w [(txUpdated, TxUpdated hashes TX_UNCONFIRMED 0)]))))"

section \<open>Creating a wallet\<close>

definition new_wallet :: "BRMasterPubKey \<Rightarrow> BRWallet" where
  "new_wallet mpk =
     \<lparr>w_balance = 0, w_totalSent = 0, w_totalReceived = 0, w_feePerKb = DEFAULT_FEE_PER_KB, w_balanceHist = [],
      w_blockHeight = 0, w_utxos = [], w_transactions = [], w_masterPubKey = mpk, w_internalChain = [],
      w_externalChain = [], w_allTx = [], w_invalidTx = {}, w_pendingTx = {}, w_spentOutputs = {},
      w_usedAddrs = {}, w_allAddrs = {}, w_callbacks = []\<rparr>"

definition new_add :: "BRTransaction \<Rightarrow> BRWallet \<Rightarrow> BRWallet res" where
  "new_add tx w =
     (if \<not> BRTransactionIsSigned tx \<or> tx_get (w_allTx w) (tx_txHash tx) \<noteq> None then Inr w
      else rbind (InsertTx (w\<lparr>w_allTx := w_allTx w @ [tx]\<rparr>) tx) (\<lambda>w.
           Inr (w\<lparr>w_usedAddrs := w_usedAddrs w \<union> set (filter (\<lambda>a. a \<noteq> []) (map to_address (tx_outputs tx)))\<rparr>)))"

definition BRWalletNew :: "env \<Rightarrow> BRTransaction list \<Rightarrow> BRMasterPubKey \<Rightarrow> BRWallet option res" where
  "BRWalletNew E transactions mpk =
     rbind (fold_res new_add transactions (new_wallet mpk)) (\<lambda>w.
     rbind (extend_chains E w) (\<lambda>w.
     rbind (UpdateBalance E w) (\<lambda>w.
     Inr (case transactions of
            [] \<Rightarrow> Some w
          | t # _ \<Rightarrow> if ContainsTx w t then Some w else None))))"

section \<open>Creating and signing transactions\<close>

text \<open>
  What the loop over the unspent outputs ends with: the inputs it has picked, their total and the fee; a
  transaction that grows too large for the funds; or one that grows too large and is built again from less.
\<close>

datatype pick = Picked BRTransaction u64 u64 | NoFunds | TooLarge u64 u64

fun pick_inputs :: "BRWallet \<Rightarrow> u64 \<Rightarrow> u64 \<Rightarrow> nat \<Rightarrow> BRUTXO list \<Rightarrow> BRTransaction \<Rightarrow> u64 \<Rightarrow> u64 \<Rightarrow> pick res" where
  "pick_inputs w minAmount amount outCount [] tx balance feeAmount = Inr (Picked tx balance feeAmount)"
| "pick_inputs w minAmount amount outCount (u # us) tx balance feeAmount =
     (case output_ref (w_allTx w) u of
        Inl e \<Rightarrow> pick_inputs w minAmount amount outCount us tx balance feeAmount
      | Inr o' \<Rightarrow>
          rbind (BRTransactionAddInput tx (fst u) (snd u) (to_amount o') (to_script o') None TXIN_SEQUENCE) (\<lambda>tx.
          if TX_MAX_SIZE < BRTransactionSize tx + TX_OUTPUT_SIZE then
            Inr (if w_balance w < amount + txFee (w_feePerKb w)
                      (10 + length (w_utxos w) * TX_INPUT_SIZE + (outCount + 1) * TX_OUTPUT_SIZE)
                 then NoFunds else TooLarge balance feeAmount)
          else
            let balance = balance + to_amount o';
                fee = txFee (w_feePerKb w) (BRTransactionSize tx + TX_OUTPUT_SIZE);
                feeAmount = (if amount + fee < w_balance w
                             then fee + (w_balance w - (amount + fee)) mod 100 else fee)
            in if balance = amount + feeAmount \<or> amount + feeAmount + minAmount \<le> balance
               then Inr (Picked tx balance feeAmount)
               else pick_inputs w minAmount amount outCount us tx balance feeAmount))"

fun add_outputs :: "BRTxOutput list \<Rightarrow> BRTransaction \<Rightarrow> u64 \<Rightarrow> (BRTransaction \<times> u64) res" where
  "add_outputs [] tx amount = Inr (tx, amount)"
| "add_outputs (o' # os) tx amount =
     (if to_script o' = None \<or> to_script o' = Some [] then Inl AssertFailed
      else rbind (BRTransactionAddOutput tx (to_amount o') (to_script o')) (\<lambda>tx.
           add_outputs os tx (amount + to_amount o')))"

text \<open>The outputs of the smaller transaction: the last one is reduced, or left out.\<close>

definition less_outputs :: "u64 \<Rightarrow> u64 \<Rightarrow> BRTxOutput list \<Rightarrow> u64 \<Rightarrow> u64 \<Rightarrow> BRTxOutput list" where
  "less_outputs minAmount amount outputs balance feeAmount =
     (if amount + feeAmount + minAmount - balance < to_amount (last outputs)
      then butlast outputs @ [(last outputs)\<lparr>to_amount := to_amount (last outputs) - (amount + feeAmount - balance)\<rparr>]
      else butlast outputs)"

text \<open>The change is what is left, when it is worth an output; the outputs are then shuffled.\<close>

definition add_change :: "env \<Rightarrow> BRWallet \<Rightarrow> BRTransaction \<Rightarrow> u64 \<Rightarrow> u32 list \<Rightarrow> (BRTransaction option \<times> BRWallet) res" where
  "add_change E w tx change rs =
     rbind (BRWalletUnusedAddrs E w 1 True) (\<lambda>(addrs, w).
     rbind (script_for_address (case addrs of [] \<Rightarrow> '''' | a # _ \<Rightarrow> a)) (\<lambda>script.
     rbind (BRTransactionAddOutput tx change (Some script)) (\<lambda>tx.
     case BRTransactionShuffleOutputs tx rs of
       None \<Rightarrow> Inl NoReturn
     | Some (tx, _) \<Rightarrow> Inr (Some tx, w))))"

text \<open>
  A transaction that is built again is returned as it is: the balance, amount and fee are then 0, so it is
  not given up and there is no change. \<open>None\<close> is a run that does not end.
\<close>

partial_function (option) CreateTxForOutputs ::
    "env \<Rightarrow> BRWallet \<Rightarrow> u32 list \<Rightarrow> BRTxOutput list \<Rightarrow> (BRTransaction option \<times> BRWallet) res option" where
  "CreateTxForOutputs E w rs outputs =
     (let minAmount = BRWalletMinOutputAmount w in
      if outputs = [] then Some (Inl AssertFailed)
      else case add_outputs outputs BRTransactionNew 0 of
        Inl e \<Rightarrow> Some (Inl e)
      | Inr (transaction, amount) \<Rightarrow>
      (case pick_inputs w minAmount amount (length outputs) (w_utxos w) transaction 0
              (txFee (w_feePerKb w) (BRTransactionSize transaction + TX_OUTPUT_SIZE)) of
        Inl e \<Rightarrow> Some (Inl e)
      | Inr NoFunds \<Rightarrow> Some (Inr (None, w))
      | Inr (TooLarge balance feeAmount) \<Rightarrow>
          CreateTxForOutputs E w rs (less_outputs minAmount amount outputs balance feeAmount)
      | Inr (Picked transaction balance feeAmount) \<Rightarrow>
          Some (if balance < amount + feeAmount then Inr (None, w)
                else if minAmount < balance - (amount + feeAmount)
                then add_change E w transaction (balance - (amount + feeAmount)) rs
                else Inr (Some transaction, w))))"

definition BRWalletCreateTxForOutputs ::
    "env \<Rightarrow> BRWallet \<Rightarrow> u32 list \<Rightarrow> BRTxOutput list \<Rightarrow> (BRTransaction option \<times> BRWallet) res" where
  "BRWalletCreateTxForOutputs E w rs outputs = returning (CreateTxForOutputs E w rs outputs)"

definition BRWalletCreateTransaction ::
    "env \<Rightarrow> BRWallet \<Rightarrow> u32 list \<Rightarrow> u64 \<Rightarrow> string \<Rightarrow> (BRTransaction option \<times> BRWallet) res" where
  "BRWalletCreateTransaction E w rs amount addr =
     (if amount = 0 then Inl AssertFailed
      else rbind (BRAddressIsValid addr) (\<lambda>valid.
        if \<not> valid then Inl AssertFailed
        else rbind (BRTxOutputSetAddress (zero_output\<lparr>to_amount := amount\<rparr>) (Some addr)) (\<lambda>o'.
             BRWalletCreateTxForOutputs E w rs [o'])))"

definition dummyScript :: bytes where
  "dummyScript = [OP_DUP, OP_HASH160, 20] @ replicate 20 0 @ [OP_EQUALVERIFY, OP_CHECKSIG]"

definition BRWalletFeeForTxAmount :: "env \<Rightarrow> BRWallet \<Rightarrow> u32 list \<Rightarrow> u64 \<Rightarrow> (u64 \<times> BRWallet) res" where
  "BRWalletFeeForTxAmount E w rs amount =
     (if amount = 0 then Inl AssertFailed
      else
        let maxAmount = BRWalletMaxOutputAmount w in
        rbind (BRTxOutputSetScript (zero_output\<lparr>to_amount := if amount < maxAmount then amount else maxAmount\<rparr>)
                 (Some dummyScript)) (\<lambda>o'.
        rbind (BRWalletCreateTxForOutputs E w rs [o']) (\<lambda>(tx, w).
        Inr (case tx of None \<Rightarrow> 0 | Some tx \<Rightarrow> BRWalletFeeForTx w tx, w))))"

text \<open>The indexes of the input addresses in a chain, and an array of one entry per input for them.\<close>

definition chain_indexes :: "BRTransaction \<Rightarrow> string list \<Rightarrow> nat list" where
  "chain_indexes tx chain =
     concat (map (\<lambda>input. filter (\<lambda>j. BRAddressEq (ti_address input) (chain ! j)) (rev [0..<length chain]))
               (tx_inputs tx))"

text \<open>The result is a value of C: 1 when every input is signed, 0 when not, -1 when there is no seed.\<close>

definition BRWalletSignTransaction ::
    "env \<Rightarrow> BRWallet \<Rightarrow> BRTransaction \<Rightarrow> u32 \<Rightarrow> bytes option \<Rightarrow> (int \<times> BRTransaction) res" where
  "BRWalletSignTransaction E w tx forkId seed =
     (let internalIdx = chain_indexes tx (w_internalChain w); externalIdx = chain_indexes tx (w_externalChain w) in
      if length (tx_inputs tx) < length internalIdx \<or> length (tx_inputs tx) < length externalIdx then Inl OutOfBounds
      else case seed of
        None \<Rightarrow> Inr (- 1, tx)
      | Some s \<Rightarrow>
          rbind (BRBIP32PrivKeyList (env_secp E) s SEQUENCE_INTERNAL_CHAIN (map of_nat internalIdx)) (\<lambda>keys1.
          rbind (BRBIP32PrivKeyList (env_secp E) s SEQUENCE_EXTERNAL_CHAIN (map of_nat externalIdx)) (\<lambda>keys2.
          rbind (BRTransactionSign (env_secp E) tx forkId (keys1 @ keys2)) (\<lambda>(r, tx, _).
          Inr (if r then 1 else 0, tx)))))"

end
