(* ===== verification/BRWalletCorrect.thy ===== *)
theory BRWalletCorrect
  imports BRWallet BRSetCorrect
begin

text \<open>
  What the operations of the wallet keep and compute: the balance is that of the unspent outputs, which are
  the outputs of the valid transactions that no other valid transaction spends; the records of the wallet
  stay consistent with each other; and the transactions it creates spend what they say.
\<close>

section \<open>The hash sets of the wallet\<close>

text \<open>Transactions and outpoints are kept in hash sets by hash and equality functions that fit together.\<close>

interpretation tx_hash: hash_eq BRTransactionHash BRTransactionEq
  by unfold_locales (auto simp: BRTransactionHash_def BRTransactionEq_def)

interpretation utxo_hash: hash_eq BRUTXOHash BRUTXOEq
  by unfold_locales (auto simp: BRUTXOHash_def BRUTXOEq_def)

section \<open>Look-ups\<close>

lemma tx_get_Some: "tx_get all h = Some t \<Longrightarrow> t \<in> set all \<and> tx_txHash t = h"
  by (auto simp: tx_get_def find_Some_iff)

lemma tx_get_None: "tx_get all h = None \<longleftrightarrow> h \<notin> tx_txHash ` set all"
  by (auto simp: tx_get_def find_None_iff)

lemma tx_get_in: "distinct (map tx_txHash all) \<Longrightarrow> t \<in> set all \<Longrightarrow> tx_get all (tx_txHash t) = Some t"
  by (induction all) (auto simp: tx_get_def)

lemma tx_get_ex: "h \<in> tx_txHash ` set all \<Longrightarrow> \<exists>t. tx_get all h = Some t"
  using tx_get_None[of all h] by (cases "tx_get all h") auto

lemma tx_get_append: "tx_get (all @ all') h = (case tx_get all h of None \<Rightarrow> tx_get all' h | Some t \<Rightarrow> Some t)"
  by (induction all) (auto simp: tx_get_def)

lemma tx_ref_eq: "tx_ref all h = Inr t \<longleftrightarrow> tx_get all h = Some t"
  by (auto simp: tx_ref_def split: option.splits)

lemma output_ref_eq:
  "output_ref all u = Inr o' \<longleftrightarrow>
     (\<exists>t. tx_get all (fst u) = Some t \<and> unat (snd u) < length (tx_outputs t) \<and> tx_outputs t ! unat (snd u) = o')"
  by (auto simp: output_ref_def tx_ref_def split: option.splits)

section \<open>The balance\<close>

text \<open>The value of an output, and the sum over a list of them.\<close>

definition utxo_amount :: "BRTransaction list \<Rightarrow> BRUTXO \<Rightarrow> u64" where
  "utxo_amount all u = (case output_ref all u of Inl e \<Rightarrow> 0 | Inr o' \<Rightarrow> to_amount o')"

text \<open>
  An output of a transaction that pays to the wallet, as an outpoint; and those of transactions. A
  transaction has fewer than \<open>2 ^ 32\<close> outputs, so that their indexes are different.
\<close>

definition own_output :: "BRWallet \<Rightarrow> BRTransaction \<Rightarrow> nat \<Rightarrow> bool" where
  "own_output w t j \<longleftrightarrow> j < length (tx_outputs t) \<and> to_address (tx_outputs t ! j) \<noteq> [] \<and>
     to_address (tx_outputs t ! j) \<in> w_allAddrs w"

definition own_outputs :: "BRWallet \<Rightarrow> UInt256 set \<Rightarrow> BRUTXO set" where
  "own_outputs w hs = {(h, of_nat j) | h j. h \<in> hs \<and> (\<exists>t. tx_get (w_allTx w) h = Some t \<and> own_output w t j)}"

definition spends :: "BRWallet \<Rightarrow> UInt256 set \<Rightarrow> BRUTXO set" where
  "spends w hs = {outpoint i | i h t. h \<in> hs \<and> tx_get (w_allTx w) h = Some t \<and> i \<in> set (tx_inputs t)}"

definition few_outputs :: "BRWallet \<Rightarrow> bool" where
  "few_outputs w \<longleftrightarrow> (\<forall>t \<in> set (w_allTx w). length (tx_outputs t) < 2 ^ 32)"

lemma own_output_index: "few_outputs w \<Longrightarrow> tx_get (w_allTx w) h = Some t \<Longrightarrow> own_output w t j \<Longrightarrow>
   unat (of_nat j :: u32) = j"
  using tx_get_Some[of "w_allTx w" h t] by (auto simp: few_outputs_def own_output_def unat_of_nat)

definition new_utxos :: "BRWallet \<Rightarrow> BRTransaction \<Rightarrow> nat \<Rightarrow> BRTxOutput list \<Rightarrow> BRUTXO list" where
  "new_utxos w tx k os =
     map (\<lambda>(j, _). (tx_txHash tx, of_nat j))
       (filter (\<lambda>(j, o'). to_address o' \<noteq> [] \<and> to_address o' \<in> w_allAddrs w) (enumerate k os))"

definition new_amount :: "BRWallet \<Rightarrow> BRTxOutput list \<Rightarrow> u64" where
  "new_amount w os = sum_list (map to_amount (filter (\<lambda>o'. to_address o' \<noteq> [] \<and> to_address o' \<in> w_allAddrs w) os))"

lemma add_output_fold:
  "foldl (add_output w (tx_txHash tx)) b (enumerate k os) =
     b\<lparr>b_utxos := b_utxos b @ new_utxos w tx k os, b_balance := b_balance b + new_amount w os,
       b_used := b_used b \<union> (set (map to_address os) - {[]})\<rparr>"
  by (induction os arbitrary: b k)
    (auto simp: add_output_def new_utxos_def new_amount_def Let_def add.assoc insert_Diff_if)

lemma new_utxos_eq:
  "new_utxos w tx 0 (tx_outputs tx) =
     map (\<lambda>j. (tx_txHash tx, of_nat j)) (filter (own_output w tx) [0..<length (tx_outputs tx)])"
proof -
  have e: "enumerate 0 (tx_outputs tx) = map (\<lambda>j. (j, tx_outputs tx ! j)) [0..<length (tx_outputs tx)]"
    by (rule nth_equalityI) (auto simp: nth_enumerate_eq)
  show ?thesis unfolding new_utxos_def e
    by (auto simp: filter_map o_def own_output_def intro!: map_cong filter_cong)
qed

lemma new_amount_eq:
  assumes "few_outputs w" and t: "tx_get (w_allTx w) (tx_txHash tx) = Some tx"
  shows "new_amount w (tx_outputs tx) = sum_list (map (utxo_amount (w_allTx w)) (new_utxos w tx 0 (tx_outputs tx)))"
proof -
  have os: "filter (\<lambda>o'. to_address o' \<noteq> [] \<and> to_address o' \<in> w_allAddrs w) (tx_outputs tx) =
      map ((!) (tx_outputs tx)) (filter (own_output w tx) [0..<length (tx_outputs tx)])"
    by (subst map_nth[symmetric, of "tx_outputs tx"], subst filter_map)
      (auto simp: own_output_def intro!: map_cong filter_cong)
  have "map to_amount (map ((!) (tx_outputs tx)) (filter (own_output w tx) [0..<length (tx_outputs tx)])) =
      map (utxo_amount (w_allTx w)) (new_utxos w tx 0 (tx_outputs tx))"
    unfolding new_utxos_eq map_map using own_output_index[OF assms]
    by (intro map_cong refl) (auto simp: utxo_amount_def output_ref_def tx_ref_def t own_output_def)
  then show ?thesis unfolding new_amount_def os by metis
qed

lemma new_utxos_set:
  assumes t: "tx_get (w_allTx w) (tx_txHash tx) = Some tx"
  shows "set (new_utxos w tx 0 (tx_outputs tx)) = own_outputs w {tx_txHash tx}"
  unfolding new_utxos_eq using t by (auto simp: own_outputs_def own_output_def)

lemma new_utxos_distinct:
  assumes "few_outputs w" and t: "tx_get (w_allTx w) (tx_txHash tx) = Some tx"
  shows "distinct (new_utxos w tx 0 (tx_outputs tx))"
proof -
  have "inj_on (\<lambda>j. (tx_txHash tx, of_nat j :: u32)) {j. own_output w tx j}"
    using own_output_index[OF assms] by (intro inj_onI) (metis Pair_inject mem_Collect_eq)
  then show ?thesis unfolding new_utxos_eq distinct_map by (auto elim: inj_on_subset)
qed

lemma own_outputs_ref:
  assumes "few_outputs w" and "u \<in> own_outputs w hs"
  shows "\<exists>o'. output_ref (w_allTx w) u = Inr o'"
  using assms own_output_index[OF assms(1)] by (fastforce simp: own_outputs_def output_ref_eq own_output_def)

lemma own_outputs_insert: "own_outputs w (insert h hs) = own_outputs w {h} \<union> own_outputs w hs"
  by (auto simp: own_outputs_def)

lemma own_outputs_mono: "hs \<subseteq> hs' \<Longrightarrow> own_outputs w hs \<subseteq> own_outputs w hs'"
  by (auto simp: own_outputs_def)

lemma own_outputs_fst: "u \<in> own_outputs w hs \<Longrightarrow> fst u \<in> hs"
  by (auto simp: own_outputs_def)

lemma spends_insert:
  "tx_get (w_allTx w) h = Some t \<Longrightarrow> spends w (insert h hs) = outpoint ` set (tx_inputs t) \<union> spends w hs"
  by (auto simp: spends_def)

lemma sweep_filter:
  assumes "\<And>u. u \<in> set us \<Longrightarrow> \<exists>o'. output_ref all u = Inr o'"
  shows "sweep all spent us balance =
    Inr (filter (\<lambda>u. u \<notin> spent) us, balance - sum_list (map (utxo_amount all) (filter (\<lambda>u. u \<in> spent) us)))"
  using assms
proof (induction us arbitrary: balance)
  case (Cons u us)
  obtain o' where "output_ref all u = Inr o'" using Cons.prems[of u] by auto
  then show ?case using Cons by (simp add: utxo_amount_def algebra_simps)
qed simp

lemma sum_list_filter_split:
  "sum_list (map f (filter P xs)) + sum_list (map f (filter (\<lambda>x. \<not> P x) xs)) = (sum_list (map f xs) :: 'a::comm_monoid_add)"
  by (induction xs) (auto simp: ac_simps)

section \<open>The loop over the transactions\<close>

text \<open>
  What the loop keeps, on the hashes of the transactions it has been through: the value of the unspent
  outputs is the balance, the totals add up to it, the spent outputs are those of the transactions that are
  not invalid, and, as long as none is pending, no output that is spent is left.
\<close>

definition bal_money :: "BRWallet \<Rightarrow> UInt256 list \<Rightarrow> bal \<Rightarrow> bool" where
  "bal_money w hs b \<longleftrightarrow>
     b_balance b = sum_list (map (utxo_amount (w_allTx w)) (b_utxos b)) \<and>
     b_prevBalance b = b_balance b \<and>
     b_balance b = b_totalReceived b - b_totalSent b \<and>
     length (b_balanceHist b) = length hs \<and>
     (hs \<noteq> [] \<longrightarrow> last (b_balanceHist b) = b_balance b)"

definition bal_sets :: "BRWallet \<Rightarrow> UInt256 list \<Rightarrow> bal \<Rightarrow> bool" where
  "bal_sets w hs b \<longleftrightarrow>
     b_invalid b \<subseteq> set hs \<and> b_pending b \<subseteq> set hs - b_invalid b \<and>
     b_spent b = spends w (set hs - b_invalid b) \<and>
     distinct (b_utxos b) \<and>
     set (b_utxos b) \<subseteq> own_outputs w (set hs - b_invalid b - b_pending b) \<and>
     (b_pending b = {} \<longrightarrow> set (b_utxos b) = own_outputs w (set hs - b_invalid b) - b_spent b)"

text \<open>A transaction is invalid when it is unconfirmed and an earlier valid one spends what it spends.\<close>

definition conflicts :: "BRWallet \<Rightarrow> UInt256 set \<Rightarrow> UInt256 set \<Rightarrow> BRTransaction \<Rightarrow> bool" where
  "conflicts w invalid hs t \<longleftrightarrow> tx_blockHeight t = TX_UNCONFIRMED \<and>
     (\<exists>i \<in> set (tx_inputs t). outpoint i \<in> spends w (hs - invalid) \<or> ti_txHash i \<in> hs \<inter> invalid)"

definition bal_first :: "BRWallet \<Rightarrow> UInt256 list \<Rightarrow> bal \<Rightarrow> bool" where
  "bal_first w hs b \<longleftrightarrow>
     (\<forall>k t. k < length hs \<longrightarrow> tx_get (w_allTx w) (hs ! k) = Some t \<longrightarrow>
        (hs ! k \<in> b_invalid b \<longleftrightarrow> conflicts w (b_invalid b) (set (take k hs)) t))"

definition bal_inv :: "BRWallet \<Rightarrow> UInt256 list \<Rightarrow> bal \<Rightarrow> bool" where
  "bal_inv w hs b \<longleftrightarrow> bal_money w hs b \<and> bal_sets w hs b \<and> bal_first w hs b"

lemma bal_first_step:
  assumes "bal_first w hs b" "b_invalid b \<subseteq> set hs" "h \<notin> set hs" "distinct hs"
    and t: "tx_get (w_allTx w) h = Some t"
    and inv: "b_invalid b' = (if conflicts w (b_invalid b) (set hs) t then insert h (b_invalid b) else b_invalid b)"
  shows "bal_first w (hs @ [h]) b'"
proof -
  have eq: "conflicts w (b_invalid b') (set (take k hs)) t' = conflicts w (b_invalid b) (set (take k hs)) t'"
    for k t'
  proof -
    have "h \<notin> set (take k hs)" using assms(3) in_set_takeD by fast
    then have "set (take k hs) - b_invalid b' = set (take k hs) - b_invalid b"
      "set (take k hs) \<inter> b_invalid b' = set (take k hs) \<inter> b_invalid b" using inv by auto
    then show ?thesis unfolding conflicts_def by simp
  qed
  show ?thesis unfolding bal_first_def
  proof (intro allI impI)
    fix k t'
    assume k: "k < length (hs @ [h])" and t': "tx_get (w_allTx w) ((hs @ [h]) ! k) = Some t'"
    show "(hs @ [h]) ! k \<in> b_invalid b' \<longleftrightarrow> conflicts w (b_invalid b') (set (take k (hs @ [h]))) t'"
    proof (cases "k < length hs")
      case True
      moreover from this have "hs ! k \<noteq> h" using assms(3) by auto
      ultimately show ?thesis
        using assms(1) t' eq[of k t'] inv by (auto simp: nth_append bal_first_def split: if_splits)
    next
      case False
      then have "k = length hs" using k by simp
      then show ?thesis using t t' eq[of "length hs" t] inv assms(2,3) by (auto simp: nth_append split: if_splits)
    qed
  qed
qed

lemma bal_invalid_conflicts:
  "bal_sets w hs b \<Longrightarrow> bal_invalid b t \<longleftrightarrow> conflicts w (b_invalid b) (set hs) t"
  by (auto simp: bal_invalid_def conflicts_def bal_sets_def list_ex_iff)

lemma bal_skip_money:
  "bal_money w hs b \<Longrightarrow> b_balanceHist b' = b_balanceHist b @ [b_balance b] \<Longrightarrow> b_balance b' = b_balance b \<Longrightarrow>
   b_prevBalance b' = b_prevBalance b \<Longrightarrow> b_totalReceived b' = b_totalReceived b \<Longrightarrow>
   b_totalSent b' = b_totalSent b \<Longrightarrow> b_utxos b' = b_utxos b \<Longrightarrow> bal_money w (hs @ [h]) b'"
  by (auto simp: bal_money_def)

lemma totals_step:
  "p = r - s \<Longrightarrow> n = (r + (if p < n then n - p else 0)) - (s + (if n < p then p - n else 0))" for n :: "'a::len word"
  by (cases "p < n"; cases "n < p") (auto simp: algebra_simps)

text \<open>An accepted transaction.\<close>

lemma bal_accept_ok:
  assumes few: "few_outputs w" and inv: "bal_money w hs b" "bal_sets w hs b" and h: "h \<notin> set hs"
    and t: "tx_get (w_allTx w) h = Some t"
  obtains b' where
    "bal_accept w (b\<lparr>b_spent := b_spent b \<union> outpoint ` set (tx_inputs t)\<rparr>) t = Inr b'"
    "bal_money w (hs @ [h]) b'" "bal_sets w (hs @ [h]) b'" "b_invalid b' = b_invalid b"
proof -
  let ?all = "w_allTx w" and ?a = "utxo_amount (w_allTx w)"
  let ?spent = "b_spent b \<union> outpoint ` set (tx_inputs t)"
  define us where "us = b_utxos b @ new_utxos w t 0 (tx_outputs t)"
  have th: "tx_txHash t = h" "tx_get ?all (tx_txHash t) = Some t" using tx_get_Some[OF t] t by auto
  let ?hs = "set hs - b_invalid b - b_pending b"
  have new: "set (new_utxos w t 0 (tx_outputs t)) = own_outputs w {h}" using new_utxos_set[OF th(2)] th(1) by simp
  have nh: "h \<notin> b_invalid b" "h \<notin> b_pending b" using inv(2) h by (auto simp: bal_sets_def)
  have us: "distinct us" "set us = set (b_utxos b) \<union> own_outputs w {h}"
    using new_utxos_distinct[OF few th(2)] inv(2) h new by (auto simp: us_def bal_sets_def dest!: own_outputs_fst)
  have sub: "set us \<subseteq> own_outputs w (insert h ?hs)"
    using inv(2) unfolding us(2) own_outputs_insert[of w h ?hs] bal_sets_def by blast
  have ref: "\<exists>o'. output_ref ?all u = Inr o'" if "u \<in> set (rev us)" for u
    using that sub own_outputs_ref[OF few, of u] by auto
  let ?us = "filter (\<lambda>u. u \<notin> ?spent) us"
  let ?bal = "b_balance b + new_amount w (tx_outputs t)"
  let ?bal' = "?bal - sum_list (map ?a (filter (\<lambda>u. u \<in> ?spent) (rev us)))"
  have bal: "?bal = sum_list (map ?a us)"
    using inv(1) new_amount_eq[OF few th(2)] by (simp add: bal_money_def us_def)
  have bal': "?bal' = sum_list (map ?a ?us)"
    unfolding bal using sum_list_filter_split[of ?a "\<lambda>u. u \<in> ?spent" us]
    by (simp add: rev_filter[symmetric] rev_map[symmetric] sum_list_rev algebra_simps)
  define n where "n = ?bal'"
  have n: "n = sum_list (map ?a ?us)" using bal' by (simp only: n_def)
  define b' where "b' = b\<lparr>b_utxos := ?us, b_balance := n, b_spent := ?spent,
     b_used := b_used b \<union> (set (map to_address (tx_outputs t)) - {[]}),
     b_totalReceived := b_totalReceived b + (if b_prevBalance b < n then n - b_prevBalance b else 0),
     b_totalSent := b_totalSent b + (if n < b_prevBalance b then b_prevBalance b - n else 0),
     b_balanceHist := b_balanceHist b @ [n], b_prevBalance := n\<rparr>"
  have "sweep ?all ?spent (rev us) ?bal = Inr (rev ?us, n)"
    using sweep_filter[of "rev us" ?all ?spent ?bal, OF ref] by (simp add: n_def rev_filter)
  then have acc: "bal_accept w (b\<lparr>b_spent := ?spent\<rparr>) t = Inr b'"
    unfolding bal_accept_def add_output_fold Let_def by (simp add: us_def b'_def th(1))
  have "b_prevBalance b = b_totalReceived b - b_totalSent b" using inv(1) unfolding bal_money_def by metis
  from totals_step[OF this, of n] have "bal_money w (hs @ [h]) b'"
    unfolding bal_money_def using inv(1) n by (auto simp: b'_def bal_money_def)
  moreover have "bal_sets w (hs @ [h]) b'"
  proof -
    have 1: "insert h (set hs) - b_invalid b = insert h (set hs - b_invalid b)"
      "insert h (set hs - b_invalid b) - b_pending b = insert h ?hs" using nh by auto
    have sp: "?spent = spends w (insert h (set hs - b_invalid b))"
      using inv(2) spends_insert[OF t] by (auto simp: bal_sets_def)
    have "set ?us = own_outputs w (insert h (set hs - b_invalid b)) - ?spent" if "b_pending b = {}"
      using that inv(2) unfolding own_outputs_insert[of w h "set hs - b_invalid b"] bal_sets_def set_filter us(2) by blast
    moreover have "set ?us \<subseteq> own_outputs w (insert h ?hs)" using sub by auto
    moreover have "b_invalid b \<subseteq> set (hs @ [h])" "b_pending b \<subseteq> set (hs @ [h]) - b_invalid b"
      using inv(2) nh by (auto simp: bal_sets_def)
    ultimately show ?thesis
      using us(1) sp unfolding bal_sets_def by (simp add: b'_def 1)
  qed
  ultimately show ?thesis using that[OF acc] by (simp add: b'_def)
qed

lemma bal_step_ok:
  assumes few: "few_outputs w" and inv: "bal_inv w hs b" and h: "h \<notin> set hs" "distinct hs"
    and t: "tx_get (w_allTx w) h = Some t"
  shows "\<exists>b'. bal_step E w b t = Inr b' \<and> bal_inv w (hs @ [h]) b'"
proof -
  have i: "bal_money w hs b" "bal_sets w hs b" "bal_first w hs b" using inv by (auto simp: bal_inv_def)
  have th: "tx_txHash t = h" using tx_get_Some[OF t] by blast
  have iv: "bal_invalid b t \<longleftrightarrow> conflicts w (b_invalid b) (set hs) t" by (rule bal_invalid_conflicts[OF i(2)])
  have sub: "b_invalid b \<subseteq> set hs" "b_pending b \<subseteq> set hs" using i(2) by (auto simp: bal_sets_def)
  have nh: "h \<notin> b_invalid b" "h \<notin> b_pending b" using sub h by auto
  have first: "bal_first w (hs @ [h]) b'"
    if "b_invalid b' = (if bal_invalid b t then insert h (b_invalid b) else b_invalid b)" for b'
    using bal_first_step[OF i(3) sub(1) h t] that iv by simp
  show ?thesis
  proof (cases "bal_invalid b t")
    case True
    let ?b = "bal_skip (b\<lparr>b_invalid := insert h (b_invalid b)\<rparr>)"
    have "insert h (set hs) - insert h (b_invalid b) = set hs - b_invalid b" using h by auto
    then have "bal_sets w (hs @ [h]) ?b" using i(2) nh by (auto simp: bal_sets_def bal_skip_def)
    moreover have "bal_money w (hs @ [h]) ?b" by (rule bal_skip_money[OF i(1)]) (simp_all add: bal_skip_def)
    moreover have "bal_first w (hs @ [h]) ?b" by (rule first) (simp add: bal_skip_def True)
    ultimately show ?thesis using True th by (simp add: bal_step_def bal_inv_def)
  next
    case False
    let ?bs = "b\<lparr>b_spent := b_spent b \<union> outpoint ` set (tx_inputs t)\<rparr>"
    show ?thesis
    proof (cases "bal_pending E w ?bs t")
      case True
      let ?b = "bal_skip (?bs\<lparr>b_pending := insert h (b_pending b)\<rparr>)"
      have 1: "insert h (set hs) - b_invalid b = insert h (set hs - b_invalid b)"
        "insert h (set hs - b_invalid b) - insert h (b_pending b) = set hs - b_invalid b - b_pending b"
        using nh h by auto
      have "bal_sets w (hs @ [h]) ?b"
        using i(2) nh spends_insert[OF t] by (auto simp: bal_sets_def bal_skip_def 1)
      moreover have "bal_money w (hs @ [h]) ?b" by (rule bal_skip_money[OF i(1)]) (simp_all add: bal_skip_def)
      moreover have "bal_first w (hs @ [h]) ?b" by (rule first) (simp add: bal_skip_def False)
      ultimately show ?thesis using True False th by (simp add: bal_step_def bal_inv_def)
    next
      case np: False
      obtain b' where b': "bal_accept w ?bs t = Inr b'" "bal_money w (hs @ [h]) b'" "bal_sets w (hs @ [h]) b'"
          "b_invalid b' = b_invalid b"
        by (rule bal_accept_ok[OF few i(1,2) h(1) t])
      moreover have "bal_first w (hs @ [h]) b'" by (rule first) (simp add: b'(4) False)
      ultimately show ?thesis using False np by (simp add: bal_step_def bal_inv_def)
    qed
  qed
qed

lemma bal_loop_ok:
  assumes few: "few_outputs w"
  shows "bal_inv w hs b \<Longrightarrow> distinct (hs @ hs') \<Longrightarrow> set hs' \<subseteq> tx_txHash ` set (w_allTx w) \<Longrightarrow>
    \<exists>b'. bal_loop E w b hs' = Inr b' \<and> bal_inv w (hs @ hs') b'"
proof (induction hs' arbitrary: hs b)
  case (Cons h hs')
  then obtain t where t: "tx_get (w_allTx w) h = Some t" using tx_get_ex[of h "w_allTx w"] by auto
  obtain b' where b': "bal_step E w b t = Inr b'" "bal_inv w (hs @ [h]) b'"
    using bal_step_ok[OF few Cons.prems(1) _ _ t] Cons.prems(2) by auto
  have "\<exists>b''. bal_loop E w b' hs' = Inr b'' \<and> bal_inv w ((hs @ [h]) @ hs') b''"
    using Cons.IH[OF b'(2)] Cons.prems(2,3) by simp
  then show ?case using b'(1) t by (auto simp: tx_ref_def)
qed simp

lemma bal_init_inv: "bal_inv w [] bal_init"
  by (auto simp: bal_inv_def bal_money_def bal_sets_def bal_first_def bal_init_def spends_def own_outputs_def)

section \<open>The records of the wallet\<close>

text \<open>
  What every operation on the wallet keeps: no two of its transactions have the same hash, those that it
  lists are among them, each once, and concern the wallet; and its addresses are those of the two chains.
\<close>

definition wallet_ok :: "BRWallet \<Rightarrow> bool" where
  "wallet_ok w \<longleftrightarrow> few_outputs w \<and> distinct (map tx_txHash (w_allTx w)) \<and> distinct (w_transactions w) \<and>
     set (w_transactions w) \<subseteq> tx_txHash ` set (w_allTx w) \<and>
     (\<forall>t \<in> set (w_allTx w). tx_txHash t \<in> set (w_transactions w) \<longrightarrow> ContainsTx w t) \<and>
     w_allAddrs w = set (w_internalChain w) \<union> set (w_externalChain w)"

text \<open>The transactions that count: the ones that are not invalid, and not pending.\<close>

definition valid_txs :: "BRWallet \<Rightarrow> UInt256 set" where
  "valid_txs w = set (w_transactions w) - w_invalidTx w"

text \<open>What the balance of a wallet has to be.\<close>

definition balance_ok :: "BRWallet \<Rightarrow> bool" where
  "balance_ok w \<longleftrightarrow>
     w_balance w = sum_list (map (utxo_amount (w_allTx w)) (w_utxos w)) \<and>
     w_balance w = w_totalReceived w - w_totalSent w \<and>
     length (w_balanceHist w) = length (w_transactions w) \<and>
     (w_transactions w \<noteq> [] \<longrightarrow> last (w_balanceHist w) = w_balance w)"

definition utxos_ok :: "BRWallet \<Rightarrow> bool" where
  "utxos_ok w \<longleftrightarrow>
     w_invalidTx w \<subseteq> set (w_transactions w) \<and> w_pendingTx w \<subseteq> valid_txs w \<and>
     w_spentOutputs w = spends w (valid_txs w) \<and> distinct (w_utxos w) \<and>
     set (w_utxos w) \<subseteq> own_outputs w (valid_txs w - w_pendingTx w) \<and>
     (w_pendingTx w = {} \<longrightarrow> set (w_utxos w) = own_outputs w (valid_txs w) - w_spentOutputs w)"

definition invalid_ok :: "BRWallet \<Rightarrow> bool" where
  "invalid_ok w \<longleftrightarrow>
     (\<forall>k t. k < length (w_transactions w) \<longrightarrow> tx_get (w_allTx w) (w_transactions w ! k) = Some t \<longrightarrow>
        (w_transactions w ! k \<in> w_invalidTx w \<longleftrightarrow>
         conflicts w (w_invalidTx w) (set (take k (w_transactions w))) t))"

text \<open>The parts of the wallet that the balance is not computed into.\<close>

definition same_records :: "BRWallet \<Rightarrow> BRWallet \<Rightarrow> bool" where
  "same_records w w' \<longleftrightarrow> w_allTx w' = w_allTx w \<and> w_transactions w' = w_transactions w \<and>
     w_internalChain w' = w_internalChain w \<and> w_externalChain w' = w_externalChain w \<and>
     w_allAddrs w' = w_allAddrs w \<and> w_feePerKb w' = w_feePerKb w \<and> w_blockHeight w' = w_blockHeight w \<and>
     w_masterPubKey w' = w_masterPubKey w \<and> w_callbacks w' = w_callbacks w"

lemma spends_cong: "w_allTx w' = w_allTx w \<Longrightarrow> spends w' hs = spends w hs"
  by (simp add: spends_def)

lemma own_outputs_cong:
  "w_allTx w' = w_allTx w \<Longrightarrow> w_allAddrs w' = w_allAddrs w \<Longrightarrow> own_outputs w' hs = own_outputs w hs"
  by (simp add: own_outputs_def own_output_def)

lemma conflicts_cong: "w_allTx w' = w_allTx w \<Longrightarrow> conflicts w' iv hs t = conflicts w iv hs t"
  using spends_cong[of w' w] by (simp add: conflicts_def)

lemma UpdateBalance_inv:
  assumes few: "few_outputs w" and tx: "distinct (w_transactions w)" "set (w_transactions w) \<subseteq> tx_txHash ` set (w_allTx w)"
  obtains w' where "UpdateBalance E w = Inr w'" "same_records w w'" "balance_ok w'" "utxos_ok w'" "invalid_ok w'"
proof -
  obtain b where b: "bal_loop E w bal_init (w_transactions w) = Inr b" "bal_inv w (w_transactions w) b"
    using bal_loop_ok[OF few bal_init_inv, of "w_transactions w" E] tx by auto
  let ?w = "w\<lparr>w_utxos := b_utxos b, w_balanceHist := b_balanceHist b, w_spentOutputs := b_spent b,
      w_invalidTx := b_invalid b, w_pendingTx := b_pending b, w_usedAddrs := b_used b,
      w_totalSent := b_totalSent b, w_totalReceived := b_totalReceived b, w_balance := b_balance b\<rparr>"
  have i: "bal_money w (w_transactions w) b" "bal_sets w (w_transactions w) b" "bal_first w (w_transactions w) b"
    using b(2) by (auto simp: bal_inv_def)
  have c: "spends ?w hs = spends w hs" "own_outputs ?w hs = own_outputs w hs" "conflicts ?w iv hs t = conflicts w iv hs t"
    for hs iv t by (rule spends_cong own_outputs_cong conflicts_cong; simp)+
  have "UpdateBalance E w = Inr ?w" using b(1) i(1) by (simp add: UpdateBalance_def bal_money_def)
  moreover have "same_records w ?w" by (simp add: same_records_def)
  moreover have "balance_ok ?w" using i(1) by (auto simp: balance_ok_def bal_money_def)
  moreover have "utxos_ok ?w" using i(2) unfolding utxos_ok_def valid_txs_def c by (simp add: bal_sets_def)
  moreover have "invalid_ok ?w" using i(3) unfolding invalid_ok_def c by (simp add: bal_first_def)
  ultimately show ?thesis by (rule that)
qed

section \<open>An example\<close>

text \<open>
  A wallet with two addresses: a confirmed transaction pays to it, an unconfirmed one spends that output with
  change, and another one spends it again.
\<close>

definition demo_env :: env where
  "demo_env = \<lparr>env_secp = toy_secp256k1, env_now = 0, env_moves = \<lambda>n. False\<rparr>"

definition demo_tx :: "UInt256 \<Rightarrow> UInt256 \<Rightarrow> (string \<times> u64) list \<Rightarrow> u32 \<Rightarrow> BRTransaction" where
  "demo_tx h prev os blockHeight = BRTransactionNew
     \<lparr>tx_txHash := h,
      tx_inputs := [zero_input\<lparr>ti_txHash := prev, ti_signature := Some [], ti_sequence := TXIN_SEQUENCE\<rparr>],
      tx_outputs := map (\<lambda>(a, v). zero_output\<lparr>to_address := a, to_amount := v\<rparr>) os, tx_blockHeight := blockHeight\<rparr>"

definition demo_wallet :: BRWallet where
  "demo_wallet = (new_wallet BR_MASTER_PUBKEY_NONE)
     \<lparr>w_allTx := [demo_tx 1 9 [(''A'', 5000), (''B'', 7000)] 100,
                  demo_tx 2 1 [(''C'', 3000), (''D'', 1500)] TX_UNCONFIRMED,
                  demo_tx 3 1 [(''C'', 5000)] TX_UNCONFIRMED],
      w_transactions := [1, 2, 3], w_internalChain := [''D''], w_externalChain := [''A''],
      w_allAddrs := {''A'', ''D''}\<rparr>"

lemmas demo_defs = demo_env_def demo_tx_def demo_wallet_def new_wallet_def zero_input_def zero_output_def
  BRTransactionNew_def TXIN_SEQUENCE_def TX_UNCONFIRMED_def TX_VERSION_def TX_LOCKTIME_def

lemma demo_wallet_ok: "wallet_ok demo_wallet"
  by (simp add: wallet_ok_def few_outputs_def ContainsTx_def wallet_output_def tx_get_def outpoint_def demo_defs)

lemma demo_UpdateBalance:
  "\<exists>w. UpdateBalance demo_env demo_wallet = Inr w \<and> w_balance w = 1500 \<and> w_utxos w = [(2, 1)] \<and>
     w_invalidTx w = {3} \<and> w_pendingTx w = {} \<and> w_balanceHist w = [5000, 1500, 1500]"
  by (simp add: UpdateBalance_def tx_ref_def tx_get_def bal_step_def bal_invalid_def bal_pending_def bal_accept_def
      bal_skip_def add_output_def tx_postdated_def input_postdated_def output_ref_def outpoint_def bal_init_def
      BRTransactionSize_def varint_size_def BRVarIntSize_def input_size_def output_size_def TX_MAX_SIZE_def
      TX_MIN_OUTPUT_AMOUNT_def TX_FEE_PER_KB_def TX_OUTPUT_SIZE_def TX_INPUT_SIZE_def BRVarIntSet_def varint_bytes_def Let_def demo_defs)

section \<open>Properties of the balance\<close>

text \<open>
  C25: the balance of a wallet with consistent records is always computed, without a look-up that fails:
  it is the value of the unspent outputs, the total received less the total sent, and the last of the
  balances after each transaction, of which there is one per transaction. The records stay as they are.
\<close>

theorem UpdateBalance_balance:
  assumes "wallet_ok w"
  shows "\<exists>w'. UpdateBalance E w = Inr w' \<and> same_records w w' \<and>
    w_balance w' = sum_list (map (utxo_amount (w_allTx w)) (w_utxos w')) \<and>
    w_balance w' = w_totalReceived w' - w_totalSent w' \<and>
    length (w_balanceHist w') = length (w_transactions w) \<and>
    (w_transactions w \<noteq> [] \<longrightarrow> last (w_balanceHist w') = w_balance w')"
  using assms UpdateBalance_inv[of w E] unfolding wallet_ok_def balance_ok_def same_records_def by metis

theorem UpdateBalance_balance_witness:
  "\<exists>w'. UpdateBalance demo_env demo_wallet = Inr w' \<and> same_records demo_wallet w' \<and> w_balance w' = 1500 \<and>
     w_balance w' = w_totalReceived w' - w_totalSent w'"
  using UpdateBalance_balance[OF demo_wallet_ok, of demo_env] demo_UpdateBalance by auto

text \<open>
  C26: what the computed balance is made of. A transaction is invalid exactly when it is unconfirmed and spends
  what an earlier valid transaction spends, or an output of an earlier invalid one. The spent outputs are those
  that the valid transactions spend. The unspent outputs are listed once each, and are outputs that pay to
  addresses of the wallet; when no transaction is pending, they are exactly those of the valid transactions
  that are not spent.
\<close>

theorem UpdateBalance_utxos:
  assumes "wallet_ok w" and "UpdateBalance E w = Inr w'" and "valid = set (w_transactions w) - w_invalidTx w'"
  shows "w_spentOutputs w' = spends w valid \<and> distinct (w_utxos w') \<and>
    set (w_utxos w') \<subseteq> own_outputs w (valid - w_pendingTx w') \<and>
    (w_pendingTx w' = {} \<longrightarrow> set (w_utxos w') = own_outputs w valid - spends w valid) \<and>
    (\<forall>k t. k < length (w_transactions w) \<longrightarrow> tx_get (w_allTx w) (w_transactions w ! k) = Some t \<longrightarrow>
       (w_transactions w ! k \<in> w_invalidTx w' \<longleftrightarrow>
        conflicts w (w_invalidTx w') (set (take k (w_transactions w))) t))"
proof -
  obtain w'' where u: "UpdateBalance E w = Inr w''" "same_records w w''" "utxos_ok w''" "invalid_ok w''"
    using assms(1) by (auto simp: wallet_ok_def intro: UpdateBalance_inv[of w E])
  then have s: "same_records w w'" "utxos_ok w'" "invalid_ok w'" using assms(2) by auto
  then have c: "spends w' hs = spends w hs" "own_outputs w' hs = own_outputs w hs"
      "conflicts w' iv hs t = conflicts w iv hs t" for hs iv t
    by (auto simp: same_records_def intro!: spends_cong own_outputs_cong conflicts_cong)
  have v: "valid_txs w' = valid" using s(1) assms(3) by (simp add: valid_txs_def same_records_def)
  have "w_spentOutputs w' = spends w valid \<and> distinct (w_utxos w') \<and>
    set (w_utxos w') \<subseteq> own_outputs w (valid - w_pendingTx w') \<and>
    (w_pendingTx w' = {} \<longrightarrow> set (w_utxos w') = own_outputs w valid - spends w valid)"
    using s(2) unfolding utxos_ok_def v c by auto
  moreover have "\<forall>k t. k < length (w_transactions w) \<longrightarrow> tx_get (w_allTx w) (w_transactions w ! k) = Some t \<longrightarrow>
       (w_transactions w ! k \<in> w_invalidTx w' \<longleftrightarrow>
        conflicts w (w_invalidTx w') (set (take k (w_transactions w))) t)"
    using s(1,3) unfolding invalid_ok_def c by (simp add: same_records_def)
  ultimately show ?thesis by blast
qed

theorem UpdateBalance_utxos_witness:
  "\<exists>w'. UpdateBalance demo_env demo_wallet = Inr w' \<and> w_invalidTx w' = {3} \<and>
     set (w_utxos w') = own_outputs demo_wallet {1, 2} - spends demo_wallet {1, 2}"
proof -
  obtain w' where w': "UpdateBalance demo_env demo_wallet = Inr w'" "w_invalidTx w' = {3}" "w_pendingTx w' = {}"
    using demo_UpdateBalance by blast
  moreover have "set (w_transactions demo_wallet) - {3} = {1, 2}" by (auto simp: demo_defs)
  ultimately show ?thesis using UpdateBalance_utxos[OF demo_wallet_ok w'(1) refl] by auto
qed

end
