(* ===== verification/BRWalletState.thy ===== *)
theory BRWalletState
  imports BRWalletCorrect
begin

text \<open>
  The states a wallet can be in: its operations as steps, and what holds of every wallet that they lead to.
\<close>

section \<open>The order of the transactions\<close>

definition tx_height :: "BRTransaction list \<Rightarrow> UInt256 \<Rightarrow> u32" where
  "tx_height all h = (case tx_get all h of None \<Rightarrow> 0 | Some t \<Rightarrow> tx_blockHeight t)"

definition tx_sorted :: "BRWallet \<Rightarrow> bool" where
  "tx_sorted w \<longleftrightarrow> sorted (map (tx_height (w_allTx w)) (w_transactions w))"

lemma TxIsAscending_height:
  "tx_blockHeight tx2 < tx_blockHeight tx1 \<Longrightarrow> TxIsAscending (Suc n) all tx1 tx2 = Inr True"
  "tx_blockHeight tx1 < tx_blockHeight tx2 \<Longrightarrow> TxIsAscending (Suc n) all tx1 tx2 = Inr False"
  by auto

lemma TxCompare_height:
  assumes "TxCompare w t tx = Inr c"
  shows "0 < c \<Longrightarrow> tx_blockHeight tx \<le> tx_blockHeight t" "\<not> 0 < c \<Longrightarrow> tx_blockHeight t \<le> tx_blockHeight tx"
proof -
  show "tx_blockHeight tx \<le> tx_blockHeight t" if "0 < c"
    using assms that TxIsAscending_height[of t tx] TxIsAscending_height[of tx t]
    by (rule_tac ccontr) (simp add: TxCompare_def tx_fuel_def not_le)
  show "tx_blockHeight t \<le> tx_blockHeight tx" if "\<not> 0 < c"
    using assms that TxIsAscending_height[of tx t]
    by (rule_tac ccontr) (simp add: TxCompare_def tx_fuel_def not_le)
qed

lemma insert_rev_split:
  "insert_rev w tx hs = Inr r \<Longrightarrow> \<exists>xs ys. hs = xs @ ys \<and> r = xs @ tx_txHash tx # ys"
proof (induction hs arbitrary: r)
  case (Cons h hs)
  from Cons.prems consider "r = tx_txHash tx # h # hs" | r' where "insert_rev w tx hs = Inr r'" "r = h # r'"
    by (auto simp: rbind_eq_Inr_conv split: if_splits)
  then show ?case
  proof cases
    case 1
    then show ?thesis by (metis append_Nil)
  next
    case 2
    then show ?thesis using Cons.IH by (metis append_Cons)
  qed
qed simp

lemma insert_rev_sorted:
  assumes "tx_get (w_allTx w) (tx_txHash tx) = Some tx"
  shows "insert_rev w tx hs = Inr r \<Longrightarrow> sorted_wrt (\<ge>) (map (tx_height (w_allTx w)) hs) \<Longrightarrow>
    sorted_wrt (\<ge>) (map (tx_height (w_allTx w)) r)"
proof (induction hs arbitrary: r)
  case (Cons h hs)
  let ?ht = "tx_height (w_allTx w)"
  have tx: "?ht (tx_txHash tx) = tx_blockHeight tx" using assms by (simp add: tx_height_def)
  obtain t c where t: "tx_get (w_allTx w) h = Some t" "TxCompare w t tx = Inr c"
    using Cons.prems(1) by (auto simp: rbind_eq_Inr_conv tx_ref_eq)
  have ht: "?ht h = tx_blockHeight t" using t(1) by (simp add: tx_height_def)
  show ?case
  proof (cases "0 < c")
    case True
    then obtain r' where r': "insert_rev w tx hs = Inr r'" "r = h # r'"
      using Cons.prems(1) t by (auto simp: rbind_eq_Inr_conv tx_ref_def)
    have "set r' = insert (tx_txHash tx) (set hs)" using insert_rev_split[OF r'(1)] by auto
    moreover have "?ht (tx_txHash tx) \<le> ?ht h" using TxCompare_height(1)[OF t(2) True] tx ht by simp
    ultimately show ?thesis using Cons.IH[OF r'(1)] Cons.prems(2) r'(2) by auto
  next
    case False
    then have "r = tx_txHash tx # h # hs" using Cons.prems(1) t by (auto simp: tx_ref_def)
    moreover have "?ht h \<le> ?ht (tx_txHash tx)" using TxCompare_height(2)[OF t(2) False] tx ht by simp
    ultimately show ?thesis using Cons.prems(2) by auto
  qed
qed auto

lemma sorted_rev_iff: "sorted_wrt (\<ge>) (rev xs) \<longleftrightarrow> sorted (xs :: 'a::linorder list)"
  by (simp add: sorted_wrt_rev)

lemma InsertTx_ok:
  assumes "InsertTx w tx = Inr w'" and "tx_get (w_allTx w) (tx_txHash tx) = Some tx"
  obtains xs ys where "w_transactions w = xs @ ys" "w' = w\<lparr>w_transactions := xs @ tx_txHash tx # ys\<rparr>"
    "tx_sorted w \<Longrightarrow> tx_sorted w'"
proof -
  obtain r where r: "insert_rev w tx (rev (w_transactions w)) = Inr r" "w' = w\<lparr>w_transactions := rev r\<rparr>"
    using assms(1) by (auto simp: InsertTx_def rbind_eq_Inr_conv)
  obtain xs ys where s: "rev (w_transactions w) = xs @ ys" "r = xs @ tx_txHash tx # ys"
    using insert_rev_split[OF r(1)] by blast
  have "w_transactions w = rev ys @ rev xs" using s(1) by (metis rev_append rev_rev_ident)
  moreover have "w' = w\<lparr>w_transactions := rev ys @ tx_txHash tx # rev xs\<rparr>" using r(2) s(2) by simp
  moreover have "tx_sorted w'" if "tx_sorted w"
    using insert_rev_sorted[OF assms(2) r(1)] that sorted_rev_iff[of "map (tx_height (w_allTx w)) (w_transactions w)"]
      sorted_rev_iff[of "map (tx_height (w_allTx w)) (rev r)"]
    by (simp add: tx_sorted_def r(2) rev_map)
  ultimately show ?thesis by (rule that)
qed

section \<open>What every operation keeps\<close>

text \<open>
  Every unspent output is one of a listed transaction, pays to the wallet, and is listed once; the balance is
  their value.
\<close>

definition utxos_live :: "BRWallet \<Rightarrow> bool" where
  "utxos_live w \<longleftrightarrow> distinct (w_utxos w) \<and>
     w_balance w = sum_list (map (utxo_amount (w_allTx w)) (w_utxos w)) \<and>
     (\<forall>u \<in> set (w_utxos w). fst u \<in> set (w_transactions w) \<and> wallet_output w u \<noteq> None)"

definition wallet_inv :: "BRWallet \<Rightarrow> bool" where
  "wallet_inv w \<longleftrightarrow> wallet_ok w \<and> tx_sorted w \<and> utxos_live w"

lemma own_outputs_wallet_output:
  assumes "few_outputs w" "u \<in> own_outputs w hs"
  shows "wallet_output w u \<noteq> None"
proof -
  obtain h j t where u: "u = (h, of_nat j)" "tx_get (w_allTx w) h = Some t" "own_output w t j"
    using assms(2) by (auto simp: own_outputs_def)
  then show ?thesis using own_output_index[OF assms(1) u(2,3)] by (auto simp: wallet_output_def own_output_def)
qed

lemma few_outputs_cong: "w_allTx w' = w_allTx w \<Longrightarrow> few_outputs w' = few_outputs w"
  by (simp add: few_outputs_def)

lemma wallet_output_cong:
  "w_allTx w' = w_allTx w \<Longrightarrow> w_allAddrs w' = w_allAddrs w \<Longrightarrow> wallet_output w' u = wallet_output w u"
  by (auto simp: wallet_output_def split: option.splits)

lemma ContainsTx_cong:
  "w_allTx w' = w_allTx w \<Longrightarrow> w_allAddrs w' = w_allAddrs w \<Longrightarrow> ContainsTx w' t = ContainsTx w t"
  using wallet_output_cong[of w' w] by (simp add: ContainsTx_def)

lemma wallet_ok_cong:
  "w_allTx w' = w_allTx w \<Longrightarrow> w_allAddrs w' = w_allAddrs w \<Longrightarrow> w_transactions w' = w_transactions w \<Longrightarrow>
   w_internalChain w' = w_internalChain w \<Longrightarrow> w_externalChain w' = w_externalChain w \<Longrightarrow>
   wallet_ok w' = wallet_ok w"
  unfolding wallet_ok_def using few_outputs_cong[of w' w] ContainsTx_cong[of w' w] by simp

lemma tx_sorted_cong:
  "w_allTx w' = w_allTx w \<Longrightarrow> w_transactions w' = w_transactions w \<Longrightarrow> tx_sorted w' = tx_sorted w"
  by (simp add: tx_sorted_def)

text \<open>The balance is computed anew from records that are in order.\<close>

lemma UpdateBalance_inv':
  assumes "UpdateBalance E w = Inr w'" "wallet_ok w" "tx_sorted w"
  shows "wallet_inv w'" "same_records w w'"
proof -
  obtain w'' where u: "UpdateBalance E w = Inr w''" "same_records w w''" "balance_ok w''" "utxos_ok w''"
    using assms(2) by (auto simp: wallet_ok_def intro: UpdateBalance_inv[of w E])
  then show s: "same_records w w'" using assms(1) by simp
  then have c: "wallet_ok w'" "tx_sorted w'"
    using assms(2,3) wallet_ok_cong[of w' w] tx_sorted_cong[of w' w] by (auto simp: same_records_def)
  have u': "balance_ok w'" "utxos_ok w'" using u assms(1) by auto
  then have "wallet_output w' u \<noteq> None \<and> fst u \<in> set (w_transactions w')" if "u \<in> set (w_utxos w')" for u
    using that own_outputs_wallet_output[of w' u] own_outputs_fst[of u w'] c(1)
    unfolding utxos_ok_def wallet_ok_def valid_txs_def by blast
  then show "wallet_inv w'" using c u' by (simp add: wallet_inv_def utxos_live_def balance_ok_def utxos_ok_def)
qed

text \<open>Transactions that only get another height or time.\<close>

definition restamp :: "(BRTransaction \<Rightarrow> BRTransaction) \<Rightarrow> bool" where
  "restamp f \<longleftrightarrow> (\<forall>t. tx_txHash (f t) = tx_txHash t \<and> tx_inputs (f t) = tx_inputs t \<and> tx_outputs (f t) = tx_outputs t)"

lemma tx_get_restamp: "restamp f \<Longrightarrow> tx_get (map f all) h = map_option f (tx_get all h)"
  by (induction all) (auto simp: tx_get_def restamp_def)

lemma wallet_output_restamp: "restamp f \<Longrightarrow> wallet_output (w\<lparr>w_allTx := map f (w_allTx w)\<rparr>) u = wallet_output w u"
  by (auto simp: wallet_output_def tx_get_restamp restamp_def split: option.split)

lemma ContainsTx_restamp: "restamp f \<Longrightarrow> ContainsTx (w\<lparr>w_allTx := map f (w_allTx w)\<rparr>) (f t) = ContainsTx w t"
  by (auto simp: ContainsTx_def wallet_output_restamp) (auto simp: restamp_def)

lemma utxo_amount_restamp: "restamp f \<Longrightarrow> utxo_amount (map f all) u = utxo_amount all u"
  by (auto simp: utxo_amount_def output_ref_def tx_ref_def tx_get_restamp restamp_def split: option.split)

lemma restamp_hashes: "restamp f \<Longrightarrow> map tx_txHash (map f all) = map tx_txHash all"
  by (simp add: restamp_def)

lemma restamp_ok:
  assumes f: "restamp f" and "wallet_ok w"
  shows "wallet_ok (w\<lparr>w_allTx := map f (w_allTx w)\<rparr>)"
proof -
  have "tx_txHash ` f ` set (w_allTx w) = tx_txHash ` set (w_allTx w)"
    using arg_cong[OF restamp_hashes[OF f, of "w_allTx w"], of set] by (simp add: image_image)
  moreover have "tx_txHash (f t) = tx_txHash t" "tx_outputs (f t) = tx_outputs t" for t using f by (auto simp: restamp_def)
  moreover have "distinct (map tx_txHash (map f (w_allTx w)))"
    using assms(2) unfolding restamp_hashes[OF f] by (simp add: wallet_ok_def)
  ultimately show ?thesis
    using assms(2) ContainsTx_restamp[OF f, of w] by (simp add: wallet_ok_def few_outputs_def)
qed

lemma restamp_live:
  assumes f: "restamp f" and "utxos_live w"
  shows "utxos_live (w\<lparr>w_allTx := map f (w_allTx w)\<rparr>)"
proof -
  have "utxo_amount (map f (w_allTx w)) = utxo_amount (w_allTx w)" using utxo_amount_restamp[OF f] by (intro ext)
  then show ?thesis using assms(2) by (simp add: utxos_live_def wallet_output_restamp[OF f])
qed

lemma restamp_sets: "restamp (\<lambda>t. if tx_txHash t = h then t\<lparr>tx_blockHeight := b, tx_timestamp := s\<rparr> else t)"
  "restamp (\<lambda>t. if tx_txHash t \<in> H then t\<lparr>tx_blockHeight := b\<rparr> else t)"
  by (auto simp: restamp_def)

text \<open>The transactions in another order, or fewer of them.\<close>

lemma wallet_ok_transactions:
  assumes "wallet_ok w" "distinct hs" "set hs \<subseteq> set (w_transactions w)"
  shows "wallet_ok (w\<lparr>w_transactions := hs\<rparr>)"
  using assms ContainsTx_cong[of "w\<lparr>w_transactions := hs\<rparr>" w] by (auto simp: wallet_ok_def few_outputs_def)

lemma utxos_live_transactions:
  assumes "utxos_live w" "set (w_transactions w) \<subseteq> set hs"
  shows "utxos_live (w\<lparr>w_transactions := hs\<rparr>)"
  using assms wallet_output_cong[of "w\<lparr>w_transactions := hs\<rparr>" w] by (auto simp: utxos_live_def)

lemma remove_rev_split:
  "remove_rev all h hs = Inr (Some r) \<Longrightarrow> \<exists>xs ys. hs = xs @ h # ys \<and> r = xs @ ys \<and> h \<notin> set xs"
proof (induction hs arbitrary: r)
  case (Cons x hs)
  from Cons.prems consider "x = h" "r = hs" | r' where "x \<noteq> h" "remove_rev all h hs = Inr (Some r')" "r = x # r'"
    by (auto simp: rbind_eq_Inr_conv split: if_splits)
  then show ?case
  proof cases
    case 1
    then show ?thesis by (metis append_Nil empty_iff set_empty)
  next
    case 2
    then obtain xs ys where "hs = xs @ h # ys \<and> r' = xs @ ys \<and> h \<notin> set xs" using Cons.IH by blast
    then show ?thesis using 2 by (intro exI[of _ "x # xs"] exI[of _ ys]) auto
  qed
qed simp

lemma remove_rev_None: "remove_rev all h hs = Inr None \<Longrightarrow> h \<notin> set hs"
  by (induction hs) (auto simp: rbind_eq_Inr_conv split: if_splits)

lemma remove_rev_total:
  "set hs \<subseteq> tx_txHash ` set all \<Longrightarrow> \<exists>r. remove_rev all h hs = Inr r"
proof (induction hs)
  case (Cons x hs)
  then obtain t where "tx_get all x = Some t" using tx_get_ex[of x all] by auto
  then show ?case using Cons by (auto simp: tx_ref_def)
qed simp

section \<open>Chains of addresses\<close>

text \<open>
  A chain extended by the addresses that are derived at the indexes that follow; and the position after the
  last address that is used.
\<close>

definition chain_extends :: "env \<Rightarrow> BRMasterPubKey \<Rightarrow> bool \<Rightarrow> string list \<Rightarrow> string list \<Rightarrow> bool" where
  "chain_extends E mpk internal chain chain' \<longleftrightarrow> (\<exists>new. chain' = chain @ new \<and>
     (\<forall>k < length new. chain_address E mpk internal (length chain + k) = Inr (Some (new ! k))))"

definition after_used :: "string set \<Rightarrow> string list \<Rightarrow> nat \<Rightarrow> bool" where
  "after_used used chain i \<longleftrightarrow> i \<le> length chain \<and> (\<forall>a \<in> set (drop i chain). a \<notin> used) \<and>
     (0 < i \<longrightarrow> chain ! (i - 1) \<in> used)"

lemma chain_extends_refl: "chain_extends E mpk internal chain chain"
  by (auto simp: chain_extends_def)

lemma chain_extends_step:
  assumes "chain_address E mpk internal (length chain) = Inr (Some a)"
    "chain_extends E mpk internal (chain @ [a]) chain'"
  shows "chain_extends E mpk internal chain chain'"
proof -
  obtain new where new: "chain' = chain @ a # new"
      "\<And>k. k < length new \<Longrightarrow> chain_address E mpk internal (length chain + 1 + k) = Inr (Some (new ! k))"
    using assms(2) by (auto simp: chain_extends_def)
  have "chain_address E mpk internal (length chain + k) = Inr (Some ((a # new) ! k))" if "k < length (a # new)" for k
    using that assms(1) new(2)[of "k - 1"] by (cases k) auto
  then show ?thesis using new(1) by (auto simp: chain_extends_def)
qed

lemma after_used_last: "after_used used chain (last_used used chain)"
proof -
  let ?k = "length (takeWhile (\<lambda>a. a \<notin> used) (rev chain))"
  have k: "?k \<le> length chain" using length_takeWhile_le[of "\<lambda>a. a \<notin> used" "rev chain"] by simp
  have "drop (length chain - ?k) chain = rev (takeWhile (\<lambda>a. a \<notin> used) (rev chain))"
    by (metis rev_rev_ident length_rev rev_take takeWhile_eq_take)
  then have 1: "\<forall>a \<in> set (drop (length chain - ?k) chain). a \<notin> used" by (auto dest: set_takeWhileD)
  have "chain ! (length chain - ?k - 1) \<in> used" if "0 < length chain - ?k"
  proof -
    have "?k < length (rev chain)" using that by simp
    then have "\<not> rev chain ! ?k \<notin> used" using nth_length_takeWhile by fastforce
    then show ?thesis using that by (simp add: rev_nth)
  qed
  then have "0 < last_used used chain \<longrightarrow> chain ! (last_used used chain - 1) \<in> used"
    unfolding last_used_def by blast
  moreover have "\<forall>a \<in> set (drop (last_used used chain) chain). a \<notin> used" using 1 unfolding last_used_def .
  moreover have "last_used used chain \<le> length chain" unfolding last_used_def by (rule diff_le_self)
  ultimately show ?thesis unfolding after_used_def by blast
qed

lemma after_used_snoc:
  "after_used used chain i \<Longrightarrow> after_used used (chain @ [a]) (if a \<in> used then length chain + 1 else i)"
  by (auto simp: after_used_def nth_append)

text \<open>What the loop ends with: enough unused addresses, or one that cannot be derived.\<close>

definition extended ::
    "env \<Rightarrow> BRMasterPubKey \<Rightarrow> bool \<Rightarrow> string set \<Rightarrow> nat \<Rightarrow> nat \<Rightarrow> string list \<Rightarrow> (nat \<times> string list) res \<Rightarrow> bool" where
  "extended E mpk internal used gapLimit i chain r \<longleftrightarrow>
     (\<forall>i' chain'. r = Inr (i', chain') \<longrightarrow> after_used used chain i \<longrightarrow>
        chain_extends E mpk internal chain chain' \<and> after_used used chain' i' \<and>
        (i' + gapLimit \<le> length chain' \<or> chain_address E mpk internal (length chain') = Inr None))"

lemma extend_chain_extended:
  assumes "extend_chain E mpk internal used gapLimit i chain = Some r"
  shows "extended E mpk internal used gapLimit i chain r"
proof (rule extend_chain.raw_induct[where P = extended, OF _ assms])
  fix extend E mpk internal used gapLimit i chain r
  assume IH: "\<And>E mpk internal used gapLimit i chain r.
      extend E mpk internal used gapLimit i chain = Some r \<Longrightarrow> extended E mpk internal used gapLimit i chain r"
    and r: "(if i + gapLimit \<le> length chain then Some (Inr (i, chain))
      else case chain_address E mpk internal (length chain) of
        Inl e \<Rightarrow> Some (Inl e)
      | Inr None \<Rightarrow> Some (Inr (i, chain))
      | Inr (Some a) \<Rightarrow> extend E mpk internal used gapLimit
          (if a \<in> used then length chain + 1 else i) (chain @ [a])) = Some r"
  consider "i + gapLimit \<le> length chain" | e where "r = Inl e"
    | "r = Inr (i, chain)" "chain_address E mpk internal (length chain) = Inr None"
    | a where "chain_address E mpk internal (length chain) = Inr (Some a)"
        "extend E mpk internal used gapLimit (if a \<in> used then length chain + 1 else i) (chain @ [a]) = Some r"
    using r by (auto split: if_splits sum.splits option.splits)
  then show "extended E mpk internal used gapLimit i chain r"
  proof cases
    case 1
    then show ?thesis using r chain_extends_refl by (auto simp: extended_def)
  next
    case 4
    then show ?thesis using IH[OF 4(2)] after_used_snoc chain_extends_step by (fastforce simp: extended_def)
  qed (simp_all add: extended_def chain_extends_refl)
qed

text \<open>It ends when, from some index on, as many addresses as are needed are unused.\<close>

definition gap_at :: "env \<Rightarrow> BRMasterPubKey \<Rightarrow> bool \<Rightarrow> string set \<Rightarrow> nat \<Rightarrow> nat \<Rightarrow> bool" where
  "gap_at E mpk internal used gapLimit n \<longleftrightarrow>
     (\<forall>k < n + gapLimit. \<exists>a. chain_address E mpk internal k = Inr a) \<and>
     (\<forall>k < gapLimit. \<forall>a. chain_address E mpk internal (n + k) = Inr (Some a) \<longrightarrow> a \<notin> used)"

lemma extend_chain_returns:
  assumes "gap_at E mpk internal used gapLimit n"
  shows "length chain \<le> n + gapLimit \<Longrightarrow> i \<le> length chain \<Longrightarrow> i \<le> n \<or> length chain < n \<Longrightarrow>
    \<exists>r. extend_chain E mpk internal used gapLimit i chain = Some (Inr r)"
proof (induction "n + gapLimit - length chain" arbitrary: i chain rule: less_induct)
  case less
  show ?case
  proof (cases "i + gapLimit \<le> length chain")
    case True
    then show ?thesis by (simp add: extend_chain.simps)
  next
    case f: False
    then have lt: "length chain < n + gapLimit" using less.prems by linarith
    then obtain a where a: "chain_address E mpk internal (length chain) = Inr a" using assms by (auto simp: gap_at_def)
    show ?thesis
    proof (cases a)
      case None
      then show ?thesis using a f by (simp add: extend_chain.simps)
    next
      case (Some a')
      have "length chain < n \<or> a' \<notin> used"
      proof (rule disjCI)
        assume "\<not> a' \<notin> used"
        show "length chain < n"
        proof (rule ccontr)
        assume "\<not> length chain < n"
        then have that: "n \<le> length chain" by simp
        have "length chain = n + (length chain - n)" "length chain - n < gapLimit" using that lt by auto
        then show False using \<open>\<not> a' \<notin> used\<close> assms a Some unfolding gap_at_def by metis
        qed
      qed
      then have "\<exists>r. extend_chain E mpk internal used gapLimit (if a' \<in> used then length chain + 1 else i) (chain @ [a'])
          = Some (Inr r)"
        using less.prems lt by (intro less.hyps) (auto split: if_splits)
      then show ?thesis using a Some f by (subst extend_chain.simps) simp
    qed
  qed
qed

text \<open>
  The operation as a whole: one chain is extended, and the set of addresses is that of both chains, whether or
  not the memory of the chain has moved.
\<close>

definition chain_of :: "bool \<Rightarrow> BRWallet \<Rightarrow> string list" where
  "chain_of internal w = (if internal then w_internalChain w else w_externalChain w)"

definition with_chain :: "bool \<Rightarrow> string list \<Rightarrow> BRWallet \<Rightarrow> BRWallet" where
  "with_chain internal chain w =
     (let w = (if internal then w\<lparr>w_internalChain := chain\<rparr> else w\<lparr>w_externalChain := chain\<rparr>) in
      w\<lparr>w_allAddrs := set (w_internalChain w) \<union> set (w_externalChain w)\<rparr>)"

lemma UnusedAddrs_result:
  assumes "BRWalletUnusedAddrs E w gapLimit internal = Inr (addrs, w')"
    and all: "w_allAddrs w = set (w_internalChain w) \<union> set (w_externalChain w)"
  obtains i chain' where
    "chain_extends E (w_masterPubKey w) internal (chain_of internal w) chain'"
    "after_used (w_usedAddrs w) chain' i" "w' = with_chain internal chain' w"
    "i + gapLimit \<le> length chain' \<and> addrs = take gapLimit (drop i chain') \<or>
     chain_address E (w_masterPubKey w) internal (length chain') = Inr None \<and> addrs = []"
proof -
  let ?chain = "chain_of internal w"
  obtain i chain' where e: "extend_chain E (w_masterPubKey w) internal (w_usedAddrs w) gapLimit
        (last_used (w_usedAddrs w) ?chain) ?chain = Some (Inr (i, chain'))"
    and a: "addrs = (if i + gapLimit \<le> length chain' then take gapLimit (drop i chain') else [])"
    and w': "w' = (if internal then w\<lparr>w_internalChain := chain'\<rparr> else w\<lparr>w_externalChain := chain'\<rparr>)
      \<lparr>w_allAddrs := if chain' \<noteq> ?chain \<and> env_moves E (length ?chain)
         then set (if internal then chain' else w_internalChain w) \<union> set (if internal then w_externalChain w else chain')
         else w_allAddrs w \<union> set (drop (length ?chain) chain')\<rparr>"
    using assms(1)
    by (auto simp: BRWalletUnusedAddrs_def rbind_eq_Inr_conv returning_def chain_of_def Let_def
        split: option.splits if_splits)
  have x: "chain_extends E (w_masterPubKey w) internal ?chain chain'" "after_used (w_usedAddrs w) chain' i"
    "i + gapLimit \<le> length chain' \<or> chain_address E (w_masterPubKey w) internal (length chain') = Inr None"
    using extend_chain_extended[OF e] after_used_last by (auto simp: extended_def)
  obtain new where "chain' = ?chain @ new" using x(1) by (auto simp: chain_extends_def)
  then have "w' = with_chain internal chain' w"
    unfolding w' with_chain_def by (auto simp: all chain_of_def Un_ac)
  then show ?thesis using that[OF x(1,2)] x(3) a by auto
qed

text \<open>More addresses only make more outputs those of the wallet.\<close>

lemma wallet_output_mono:
  "w_allTx w' = w_allTx w \<Longrightarrow> w_allAddrs w \<subseteq> w_allAddrs w' \<Longrightarrow> wallet_output w u \<noteq> None \<Longrightarrow> wallet_output w' u \<noteq> None"
  by (auto simp: wallet_output_def split: option.splits if_splits)

lemma ContainsTx_mono:
  assumes "w_allTx w' = w_allTx w" "w_allAddrs w \<subseteq> w_allAddrs w'" "ContainsTx w t"
  shows "ContainsTx w' t"
proof -
  have "wallet_output w' (outpoint i) \<noteq> None" if "wallet_output w (outpoint i) \<noteq> None" for i
    using wallet_output_mono[OF assms(1,2) that] .
  then show ?thesis using assms(2,3) unfolding ContainsTx_def list_ex_iff by blast
qed

lemma with_chain_inv:
  assumes "wallet_inv w" and sub: "set (chain_of internal w) \<subseteq> set chain"
  shows "wallet_inv (with_chain internal chain w)"
proof -
  let ?w = "with_chain internal chain w"
  have s: "w_allTx ?w = w_allTx w" "w_transactions ?w = w_transactions w" "w_utxos ?w = w_utxos w"
    "w_balance ?w = w_balance w" by (simp_all add: with_chain_def Let_def)
  have c: "w_allAddrs ?w = set (w_internalChain ?w) \<union> set (w_externalChain ?w)"
    by (simp add: with_chain_def Let_def)
  have m: "w_allAddrs w \<subseteq> w_allAddrs ?w"
    using assms by (auto simp: with_chain_def chain_of_def wallet_inv_def wallet_ok_def split: if_splits)
  show ?thesis
    using assms(1) ContainsTx_mono[OF s(1) m] wallet_output_mono[OF s(1) m] few_outputs_cong[OF s(1)] c
      tx_sorted_cong[OF s(1,2)]
    by (simp add: wallet_inv_def wallet_ok_def utxos_live_def s)
qed

lemma UnusedAddrs_inv:
  assumes "BRWalletUnusedAddrs E w gapLimit internal = Inr (addrs, w')" "wallet_inv w"
  shows "wallet_inv w'"
proof -
  have "w_allAddrs w = set (w_internalChain w) \<union> set (w_externalChain w)"
    using assms(2) by (simp add: wallet_inv_def wallet_ok_def)
  then obtain chain' where "chain_extends E (w_masterPubKey w) internal (chain_of internal w) chain'"
    "w' = with_chain internal chain' w"
    using UnusedAddrs_result[OF assms(1)] by metis
  then show ?thesis using with_chain_inv[OF assms(2)] by (auto simp: chain_extends_def)
qed

lemma extend_chains_inv: "extend_chains E w = Inr w' \<Longrightarrow> wallet_inv w \<Longrightarrow> wallet_inv w'"
  by (auto simp: extend_chains_def rbind_eq_Inr_conv dest!: UnusedAddrs_inv)

section \<open>Adding, removing and updating keep the wallet in order\<close>

lemma tx_get_snoc: "h \<noteq> tx_txHash tx \<Longrightarrow> tx_get (all @ [tx]) h = tx_get all h"
  unfolding tx_get_append by (auto simp: tx_get_def split: option.split)

lemma tx_get_new: "tx_get all (tx_txHash tx) = None \<Longrightarrow> tx_get (all @ [tx]) (tx_txHash tx) = Some tx"
  by (simp add: tx_get_append) (simp add: tx_get_def)

lemma wallet_output_snoc:
  assumes "tx_get (w_allTx w) (tx_txHash tx) = None" "wallet_output w u \<noteq> None"
  shows "wallet_output (w\<lparr>w_allTx := w_allTx w @ [tx]\<rparr>) u = wallet_output w u"
  using assms by (auto simp: wallet_output_def tx_get_append split: option.splits)

lemma ContainsTx_snoc:
  assumes "tx_get (w_allTx w) (tx_txHash tx) = None" "ContainsTx w t"
  shows "ContainsTx (w\<lparr>w_allTx := w_allTx w @ [tx]\<rparr>) t"
  using assms wallet_output_snoc[OF assms(1)] unfolding ContainsTx_def list_ex_iff by fastforce

text \<open>A transaction that is new in the store, listed or not.\<close>

lemma add_tx_ok:
  assumes "wallet_ok w" "tx_get (w_allTx w) (tx_txHash tx) = None" "length (tx_outputs tx) < 2 ^ 32"
  shows "wallet_ok (w\<lparr>w_allTx := w_allTx w @ [tx]\<rparr>)"
    "tx_sorted w \<Longrightarrow> tx_sorted (w\<lparr>w_allTx := w_allTx w @ [tx]\<rparr>)"
    "utxos_live w \<Longrightarrow> utxos_live (w\<lparr>w_allTx := w_allTx w @ [tx]\<rparr>)"
    "tx_txHash tx \<notin> set (w_transactions w)"
proof -
  let ?w = "w\<lparr>w_allTx := w_allTx w @ [tx]\<rparr>"
  have new: "tx_txHash tx \<notin> tx_txHash ` set (w_allTx w)" using assms(2) tx_get_None by blast
  then show nl: "tx_txHash tx \<notin> set (w_transactions w)" using assms(1) by (auto simp: wallet_ok_def)
  show "wallet_ok ?w"
    using assms new nl ContainsTx_snoc[OF assms(2)] by (auto simp: wallet_ok_def few_outputs_def)
  have get: "tx_get (w_allTx w @ [tx]) h = tx_get (w_allTx w) h" if "h \<in> set (w_transactions w)" for h
    using that nl by (intro tx_get_snoc) auto
  show "tx_sorted ?w" if "tx_sorted w"
  proof -
    have "map (tx_height (w_allTx ?w)) (w_transactions w) = map (tx_height (w_allTx w)) (w_transactions w)"
      using get by (auto simp: tx_height_def)
    then show ?thesis using that unfolding tx_sorted_def by (simp del: map_eq_conv)
  qed
  show "utxos_live ?w" if live: "utxos_live w"
  proof -
    have "utxo_amount (w_allTx ?w) u = utxo_amount (w_allTx w) u" if "u \<in> set (w_utxos w)" for u
    proof -
      have "fst u \<in> set (w_transactions w)" using that live by (auto simp: utxos_live_def)
      then show ?thesis using get by (simp add: utxo_amount_def output_ref_def tx_ref_def)
    qed
    then have "map (utxo_amount (w_allTx ?w)) (w_utxos w) = map (utxo_amount (w_allTx w)) (w_utxos w)" by simp
    then show ?thesis using live wallet_output_snoc[OF assms(2)] by (simp add: utxos_live_def del: map_eq_conv)
  qed
qed

text \<open>A transaction of the store becomes listed.\<close>

lemma insert_tx_ok:
  assumes i: "InsertTx w tx = Inr w'" and get: "tx_get (w_allTx w) (tx_txHash tx) = Some tx"
    and "wallet_ok w" "tx_sorted w" "tx_txHash tx \<notin> set (w_transactions w)" "ContainsTx w tx"
  shows "wallet_ok w'" "tx_sorted w'" "utxos_live w \<Longrightarrow> utxos_live w'"
    "\<exists>xs ys. w_transactions w = xs @ ys \<and> w' = w\<lparr>w_transactions := xs @ tx_txHash tx # ys\<rparr>"
proof -
  obtain xs ys where x: "w_transactions w = xs @ ys" "w' = w\<lparr>w_transactions := xs @ tx_txHash tx # ys\<rparr>"
    "tx_sorted w \<longrightarrow> tx_sorted w'"
    using InsertTx_ok[OF i get] by metis
  show "\<exists>xs ys. w_transactions w = xs @ ys \<and> w' = w\<lparr>w_transactions := xs @ tx_txHash tx # ys\<rparr>" using x by blast
  show "tx_sorted w'" using x(3) assms(4) by blast
  have s: "w_allTx w' = w_allTx w" "w_allAddrs w' = w_allAddrs w" using x(2) by simp_all
  have "t = tx" if "t \<in> set (w_allTx w)" "tx_txHash t = tx_txHash tx" for t
    using that tx_get_in[of "w_allTx w" t] get assms(3) by (auto simp: wallet_ok_def)
  moreover have "tx \<in> set (w_allTx w)" using tx_get_Some[OF get] by blast
  ultimately show "wallet_ok w'"
    using assms(3,5,6) x(1) ContainsTx_cong[OF s] few_outputs_cong[OF s(1)]
    unfolding wallet_ok_def s by (auto simp: x(2))
  show "utxos_live w'" if "utxos_live w"
    unfolding x(2) using that x(1) by (intro utxos_live_transactions) auto
qed

lemma Register_inv:
  assumes "BRWalletRegisterTransaction E w tx = Inr (r, w', evs)" "wallet_inv w" "length (tx_outputs tx) < 2 ^ 32"
  shows "wallet_inv w'"
proof -
  let ?w = "w\<lparr>w_allTx := w_allTx w @ [tx]\<rparr>"
  have w: "wallet_ok w" "tx_sorted w" "utxos_live w" using assms(2) by (auto simp: wallet_inv_def)
  from assms(1) consider "w' = w"
    | "tx_get (w_allTx w) (tx_txHash tx) = None" "w' = ?w"
    | w1 w2 where "tx_get (w_allTx w) (tx_txHash tx) = None" "ContainsTx w tx" "InsertTx ?w tx = Inr w1"
        "UpdateBalance E w1 = Inr w2" "extend_chains E w2 = Inr w'"
    by (auto simp: BRWalletRegisterTransaction_def rbind_eq_Inr_conv split: if_splits)
  then show ?thesis
  proof cases
    case 1
    then show ?thesis using assms(2) by simp
  next
    case 2
    then show ?thesis using add_tx_ok[OF w(1) 2(1) assms(3)] w by (simp add: wallet_inv_def)
  next
    case 3
    note a = add_tx_ok[OF w(1) 3(1) assms(3)]
    have "wallet_ok w1" "tx_sorted w1"
      using insert_tx_ok[OF 3(3)] a(1,2,4) w(2) tx_get_new[OF 3(1)] ContainsTx_snoc[OF 3(1,2)] by auto
    then show ?thesis using UpdateBalance_inv'(1)[OF 3(4)] extend_chains_inv[OF 3(5)] by blast
  qed
qed

text \<open>Runs of a step over a list.\<close>

lemma fold_res_inv:
  "fold_res f xs s = Inr s' \<Longrightarrow> P s \<Longrightarrow> (\<And>x s s'. x \<in> set xs \<Longrightarrow> f x s = Inr s' \<Longrightarrow> P s \<Longrightarrow> P s') \<Longrightarrow> P s'"
  by (induction xs arbitrary: s) (auto simp: rbind_eq_Inr_conv)

lemma remove_listed:
  assumes "remove_rev all h (rev (w_transactions w)) = Inr (Some hs)"
  obtains xs ys where "w_transactions w = xs @ h # ys" "rev hs = xs @ ys"
proof -
  obtain xs ys where "rev (w_transactions w) = xs @ h # ys" "hs = xs @ ys" using remove_rev_split[OF assms] by blast
  then have "w_transactions w = rev ys @ h # rev xs" "rev hs = rev ys @ rev xs"
    by (metis append.assoc append_Cons append_Nil rev.simps(2) rev_append rev_rev_ident, simp)
  then show ?thesis by (rule that)
qed

lemma tx_sorted_remove:
  "tx_sorted w \<Longrightarrow> w_transactions w = xs @ h # ys \<Longrightarrow> tx_sorted (w\<lparr>w_transactions := xs @ ys\<rparr>)"
  by (auto simp: tx_sorted_def sorted_append)

text \<open>No transaction that is listed at the height of another or above it spends its outputs.\<close>

definition no_dependents :: "BRWallet \<Rightarrow> BRTransaction \<Rightarrow> bool" where
  "no_dependents w tx \<longleftrightarrow> (\<forall>h t. h \<in> set (w_transactions w) \<longrightarrow> tx_get (w_allTx w) h = Some t \<longrightarrow>
     h \<noteq> tx_txHash tx \<longrightarrow> tx_blockHeight tx \<le> tx_blockHeight t \<longrightarrow> tx_txHash tx \<notin> ti_txHash ` set (tx_inputs t))"

lemma dependents_none:
  assumes "dependents all tx hs = Inr []" "sorted_wrt (\<ge>) (map (tx_height all) hs)" "h \<in> set hs" "tx_get all h = Some t"
    "h \<noteq> tx_txHash tx" "tx_blockHeight tx \<le> tx_blockHeight t"
  shows "tx_txHash tx \<notin> ti_txHash ` set (tx_inputs t)"
  using assms
proof (induction hs)
  case (Cons x hs)
  obtain tx' where x: "tx_get all x = Some tx'" using Cons.prems(1) by (auto simp: rbind_eq_Inr_conv tx_ref_eq)
  have "tx_blockHeight t \<le> tx_blockHeight tx'"
    using Cons.prems(2,3,4) x by (auto simp: tx_height_def)
  then have "\<not> tx_blockHeight tx' < tx_blockHeight tx" using Cons.prems(6) by simp
  then have "dependents all tx hs = Inr []"
      "\<not> (x \<noteq> tx_txHash tx \<and> list_ex (\<lambda>i. ti_txHash i = tx_txHash tx) (tx_inputs tx'))"
    using Cons.prems(1) x by (auto simp: rbind_eq_Inr_conv tx_ref_def split: if_splits)
  then show ?case using Cons x by (auto simp: list_ex_iff)
qed simp

definition removed :: "BRWallet \<Rightarrow> UInt256 \<Rightarrow> BRWallet \<Rightarrow> bool" where
  "removed w h w' \<longleftrightarrow> wallet_inv w' \<and> w_allTx w' = w_allTx w \<and>
     set (w_transactions w') \<subseteq> set (w_transactions w) - {h}"

lemma Remove_ok:
  "RemoveTransaction n E h st = Inr st' \<Longrightarrow> wallet_inv (fst st) \<Longrightarrow>
   removed (fst st) h (fst st') \<and> (\<forall>tx. tx_get (w_allTx (fst st)) h = Some tx \<longrightarrow> no_dependents (fst st') tx)"
proof (induction n arbitrary: h st st')
  case (Suc n)
  obtain w evs where st: "st = (w, evs)" by (cases st)
  have inv: "wallet_ok w" "tx_sorted w" using Suc.prems(2) by (auto simp: wallet_inv_def st)
  show ?case
  proof (cases "tx_get (w_allTx w) h")
    case None
    then have "h \<notin> set (w_transactions w)" using inv(1) tx_get_None[of "w_allTx w" h] by (auto simp: wallet_ok_def)
    moreover have "st' = st" using Suc.prems(1) None by (auto simp: st split: if_splits)
    ultimately show ?thesis using Suc.prems(2) None by (auto simp: removed_def st)
  next
    case (Some tx)
    have th: "tx_txHash tx = h" using tx_get_Some[OF Some] by blast
    obtain hs where hs: "dependents (w_allTx w) tx (rev (w_transactions w)) = Inr hs"
      using Suc.prems(1) Some by (auto simp: st rbind_eq_Inr_conv split: if_splits)
    show ?thesis
    proof (cases "hs = []")
      case False
      obtain st1 where st1: "fold_res (RemoveTransaction n E) (rev hs) (w, evs) = Inr st1"
          "RemoveTransaction n E h st1 = Inr st'"
        using Suc.prems(1) Some hs False by (auto simp: st rbind_eq_Inr_conv split: if_splits)
      define P where "P s \<longleftrightarrow> wallet_inv (fst s) \<and> w_allTx (fst s) = w_allTx w \<and>
        set (w_transactions (fst s)) \<subseteq> set (w_transactions w)" for s :: "BRWallet \<times> event list"
      have step: "P s'" if "P s" "RemoveTransaction n E x s = Inr s'" for x s s'
        using Suc.IH[OF that(2)] that(1) unfolding P_def removed_def by (metis (no_types) Diff_subset subset_trans)
      have "P st1"
      proof (rule fold_res_inv[OF st1(1), of P])
        show "P (w, evs)" using Suc.prems(2) by (simp add: P_def st)
      qed (erule (1) step[rotated])
      then show ?thesis using Suc.IH[OF st1(2)] unfolding P_def removed_def st by auto
    next
      case True
      obtain r where r: "remove_rev (w_allTx w) h (rev (w_transactions w)) = Inr r"
        using Suc.prems(1) Some hs True by (auto simp: st rbind_eq_Inr_conv split: if_splits)
      define w1 where "w1 = (case r of None \<Rightarrow> w | Some hs \<Rightarrow> w\<lparr>w_transactions := rev hs\<rparr>)"
      obtain w2 where u: "UpdateBalance E w1 = Inr w2" "fst st' = w2"
        using Suc.prems(1) Some hs True r by (auto simp: st rbind_eq_Inr_conv w1_def split: if_splits)
      have d: "distinct (w_transactions w)" using inv(1) by (simp add: wallet_ok_def)
      have nd: "no_dependents w tx"
        using dependents_none[of "w_allTx w" tx "rev (w_transactions w)"] hs True inv(2)
        by (auto simp: no_dependents_def tx_sorted_def rev_map[symmetric] sorted_rev_iff)
      have w1: "wallet_ok w1" "tx_sorted w1" "w_allTx w1 = w_allTx w"
        "set (w_transactions w1) \<subseteq> set (w_transactions w) - {h}"
      proof -
        have "wallet_ok w1 \<and> tx_sorted w1 \<and> w_allTx w1 = w_allTx w \<and>
          set (w_transactions w1) \<subseteq> set (w_transactions w) - {h}"
        proof (cases r)
          case None
          then have "h \<notin> set (rev (w_transactions w))" 
            using r remove_rev_None[of "w_allTx w" h "rev (w_transactions w)"] by simp
          then show ?thesis using None inv by (auto simp: w1_def)
        next
          case (Some hs')
          then obtain xs ys where x: "w_transactions w = xs @ h # ys" "rev hs' = xs @ ys"
            using remove_listed r by blast
          then have "w1 = w\<lparr>w_transactions := xs @ ys\<rparr>" using Some by (simp add: w1_def)
          moreover from this have "wallet_ok w1" using x(1) d inv(1) by (simp, intro wallet_ok_transactions) auto
          ultimately show ?thesis using x(1) d tx_sorted_remove[OF inv(2) x(1)] by auto
        qed
        then show "wallet_ok w1" "tx_sorted w1" "w_allTx w1 = w_allTx w"
          "set (w_transactions w1) \<subseteq> set (w_transactions w) - {h}" by auto
      qed
      have "removed w h w2" "no_dependents w2 tx"
        using UpdateBalance_inv'[OF u(1) w1(1,2)] w1(3,4) nd
        by (auto simp: removed_def same_records_def no_dependents_def)
      then show ?thesis using Some u(2) by (simp add: st)
    qed
  qed
qed simp

section \<open>New heights\<close>

text \<open>A transaction that does not concern the wallet can be taken out of the store.\<close>

lemma tx_get_filter:
  "tx_get (filter (\<lambda>t. tx_txHash t \<noteq> h) all) h' = (if h' = h then None else tx_get all h')"
  by (induction all) (auto simp: tx_get_def)

lemma drop_tx_ok:
  assumes w: "wallet_inv w" and t: "tx_get (w_allTx w) h = Some t" "\<not> ContainsTx w t"
  shows "wallet_inv (w\<lparr>w_allTx := filter (\<lambda>t. tx_txHash t \<noteq> h) (w_allTx w)\<rparr>)"
proof -
  let ?w = "w\<lparr>w_allTx := filter (\<lambda>t. tx_txHash t \<noteq> h) (w_allTx w)\<rparr>"
  have ok: "wallet_ok w" "tx_sorted w" "utxos_live w" using w by (auto simp: wallet_inv_def)
  have th: "tx_txHash t = h" "t \<in> set (w_allTx w)" using tx_get_Some[OF t(1)] by auto
  have nl: "h \<notin> set (w_transactions w)" using ok(1) t(2) th by (auto simp: wallet_ok_def)
  have out: "wallet_output ?w u = wallet_output w u" for u
  proof (cases "fst u = h")
    case True
    then have "wallet_output w u = None"
      using t by (auto simp: wallet_output_def ContainsTx_def list_ex_iff split: if_splits)
    then show ?thesis using True by (simp add: wallet_output_def tx_get_filter)
  qed (simp add: wallet_output_def tx_get_filter split: option.split)
  have c: "ContainsTx ?w t' = ContainsTx w t'" for t' by (simp add: ContainsTx_def out)
  have "distinct (map tx_txHash (filter (\<lambda>t. tx_txHash t \<noteq> h) (w_allTx w)))"
    using ok(1) by (simp add: wallet_ok_def distinct_map_filter)
  moreover have "set (w_transactions w) \<subseteq> tx_txHash ` set (w_allTx ?w)"
    using ok(1) nl by (fastforce simp: wallet_ok_def)
  ultimately have "wallet_ok ?w" using ok(1) c by (auto simp: wallet_ok_def few_outputs_def)
  moreover have "map (tx_height (w_allTx ?w)) (w_transactions w) = map (tx_height (w_allTx w)) (w_transactions w)"
    using nl by (auto simp: tx_height_def tx_get_filter)
  then have "tx_sorted ?w" using ok(2) unfolding tx_sorted_def by (simp del: map_eq_conv)
  moreover have "map (utxo_amount (w_allTx ?w)) (w_utxos w) = map (utxo_amount (w_allTx w)) (w_utxos w)"
    using ok(3) nl by (auto simp: utxos_live_def utxo_amount_def output_ref_def tx_ref_def tx_get_filter)
  then have "utxos_live ?w" using ok(3) by (simp add: utxos_live_def out del: map_eq_conv)
  ultimately show ?thesis by (simp add: wallet_inv_def)
qed

lemma tx_set_restamp: "restamp (\<lambda>t. if tx_txHash t = h then t\<lparr>tx_blockHeight := b, tx_timestamp := s\<rparr> else t)"
  by (rule restamp_sets)

lemma update_tx_ok:
  assumes u: "update_tx b s h (w, hashes, needs) = Inr (w', hashes', needs')" and inv: "wallet_inv w"
  shows "wallet_inv w' \<and> w_blockHeight w' = w_blockHeight w"
proof -
  have ok: "wallet_ok w" "tx_sorted w" "utxos_live w" using inv by (auto simp: wallet_inv_def)
  show ?thesis
  proof (cases "tx_get (w_allTx w) h")
    case None
    then show ?thesis using u inv by (simp add: update_tx_def)
  next
    case (Some tx)
    let ?f = "\<lambda>t. if tx_txHash t = h then t\<lparr>tx_blockHeight := b, tx_timestamp := s\<rparr> else t"
    define w1 where "w1 = w\<lparr>w_allTx := tx_set b s h (w_allTx w)\<rparr>"
    let ?tx = "tx\<lparr>tx_blockHeight := b, tx_timestamp := s\<rparr>"
    have th: "tx_txHash tx = h" using tx_get_Some[OF Some] by blast
    have ok1: "wallet_ok w1" "utxos_live w1"
      using restamp_ok[OF tx_set_restamp ok(1)] restamp_live[OF tx_set_restamp ok(3)] by (simp_all add: w1_def tx_set_def)
    have get: "tx_get (w_allTx w1) h = Some ?tx"
      using tx_get_restamp[OF tx_set_restamp] Some th by (simp add: w1_def tx_set_def)
    have other: "tx_height (w_allTx w1) h' = tx_height (w_allTx w) h'" if "h' \<noteq> h" for h'
      using that tx_get_restamp[OF tx_set_restamp[of h s b], of "w_allTx w" h'] tx_get_Some[of "w_allTx w" h']
      by (auto simp: w1_def tx_set_def tx_height_def split: option.splits)
    have sorted1: "tx_sorted (w1\<lparr>w_transactions := hs\<rparr>)"
      if "h \<notin> set hs" "tx_sorted (w\<lparr>w_transactions := hs\<rparr>)" for hs
    proof -
      have "map (tx_height (w_allTx w1)) hs = map (tx_height (w_allTx w)) hs"
        using that(1) by (intro map_cong refl other) auto
      then show ?thesis using that(2) unfolding tx_sorted_def by (simp del: map_eq_conv)
    qed
    have tr: "w_transactions w1 = w_transactions w" by (simp add: w1_def)
    have sorted_all: "tx_sorted w1" if "h \<notin> set (w_transactions w)"
    proof -
      have "map (tx_height (w_allTx w1)) (w_transactions w) = map (tx_height (w_allTx w)) (w_transactions w)"
        using that by (intro map_cong refl other) auto
      then show ?thesis using ok(2) tr unfolding tx_sorted_def by (simp del: map_eq_conv)
    qed
    have "(if tx_blockHeight tx = b \<and> tx_timestamp tx = s then Inr (w, hashes, needs)
       else if ContainsTx w1 ?tx then
         rbind (remove_rev (w_allTx w1) h (rev (w_transactions w1))) (\<lambda>r.
         rbind (case r of None \<Rightarrow> Inr w1 | Some hs \<Rightarrow> InsertTx (w1\<lparr>w_transactions := rev hs\<rparr>) ?tx) (\<lambda>w.
         Inr (w, hashes @ [h], needs \<or> h \<in> w_pendingTx w \<or> h \<in> w_invalidTx w)))
       else Inr (if b \<noteq> TX_UNCONFIRMED
                 then w1\<lparr>w_allTx := filter (\<lambda>t. tx_txHash t \<noteq> h) (w_allTx w1)\<rparr> else w1, hashes, needs)) =
       Inr (w', hashes', needs')"
      using u Some unfolding update_tx_def by (simp only: prod.case option.case Let_def w1_def[symmetric])
    then consider "w' = w" | "ContainsTx w1 ?tx" "remove_rev (w_allTx w1) h (rev (w_transactions w)) = Inr None" "w' = w1"
      | hs where "ContainsTx w1 ?tx" "remove_rev (w_allTx w1) h (rev (w_transactions w)) = Inr (Some hs)"
          "InsertTx (w1\<lparr>w_transactions := rev hs\<rparr>) ?tx = Inr w'"
      | "\<not> ContainsTx w1 ?tx" "w' = w1 \<or> w' = w1\<lparr>w_allTx := filter (\<lambda>t. tx_txHash t \<noteq> h) (w_allTx w1)\<rparr>"
      unfolding tr by (auto simp: rbind_def split: if_splits option.splits sum.splits)
    then show ?thesis
    proof cases
      case 1
      then show ?thesis using inv by simp
    next
      case 2
      have "h \<notin> set (rev (w_transactions w))" using remove_rev_None[OF 2(2)] .
      then have "tx_sorted w1" using sorted_all by simp
      then show ?thesis using ok1 2(3) by (simp add: wallet_inv_def w1_def)
    next
      case 3
      obtain xs ys where x: "w_transactions w = xs @ h # ys" "rev hs = xs @ ys"
        using remove_listed[of "w_allTx w1" h w] 3(2) by blast
      let ?w2 = "w1\<lparr>w_transactions := rev hs\<rparr>"
      have d: "distinct (w_transactions w)" using ok(1) by (simp add: wallet_ok_def)
      have "wallet_ok ?w2" using ok1(1) d x tr by (intro wallet_ok_transactions) auto
      moreover have "tx_sorted ?w2" using sorted1[of "xs @ ys"] tx_sorted_remove[OF ok(2) x(1)] d x by simp
      moreover have "ContainsTx ?w2 ?tx" using 3(1) ContainsTx_cong[of ?w2 w1] by simp
      ultimately have i: "wallet_ok w'" "tx_sorted w'"
        "\<exists>xs ys. rev hs = xs @ ys \<and> w' = ?w2\<lparr>w_transactions := xs @ h # ys\<rparr>"
        using insert_tx_ok[OF 3(3)] get d x th by auto
      then obtain xs' ys' where y: "rev hs = xs' @ ys'" "w' = w1\<lparr>w_transactions := xs' @ h # ys'\<rparr>" by auto
      have "set (xs' @ ys') = set (xs @ ys)" using x(2) y(1) by metis
      then have "set (w_transactions w1) \<subseteq> set (xs' @ h # ys')" using x(1) tr by auto
      then have "utxos_live w'" unfolding y(2) by (rule utxos_live_transactions[OF ok1(2)])
      then show ?thesis using i(1,2) y(2) by (simp add: wallet_inv_def w1_def)
    next
      case 4
      have "h \<notin> set (w_transactions w1)"
        using ok1(1) 4(1) tx_get_Some[OF get] by (auto simp: wallet_ok_def)
      then have "tx_sorted w1" using sorted_all tr by simp
      then have "wallet_inv w1" using ok1 by (simp add: wallet_inv_def)
      then show ?thesis using drop_tx_ok[OF _ get 4(1)] 4(2) by (auto simp: w1_def)
    qed
  qed
qed

lemma update_tx_run:
  assumes "fold_res (update_tx b s) hs (w, hashes, needs) = Inr (w', hashes', needs')" "wallet_inv w"
  shows "wallet_inv w'"
proof -
  have "wallet_inv (fst (w', hashes', needs'))"
  proof (rule fold_res_inv[OF assms(1), of "\<lambda>st. wallet_inv (fst st)"])
    show "wallet_inv (fst st')" if "update_tx b s h st = Inr st'" "wallet_inv (fst st)" for h st st'
      using that update_tx_ok[of b s h "fst st" "fst (snd st)" "snd (snd st)" "fst st'" "fst (snd st')" "snd (snd st')"]
      by simp
  qed (simp add: assms(2))
  then show ?thesis by simp
qed

lemma wallet_inv_blockHeight: "wallet_inv (w\<lparr>w_blockHeight := b\<rparr>) = wallet_inv w"
proof -
  let ?w = "w\<lparr>w_blockHeight := b\<rparr>"
  have "wallet_ok ?w = wallet_ok w" "tx_sorted ?w = tx_sorted w" by (rule wallet_ok_cong tx_sorted_cong; simp)+
  moreover have "wallet_output ?w u = wallet_output w u" for u by (rule wallet_output_cong; simp)
  ultimately show ?thesis by (simp add: wallet_inv_def utxos_live_def)
qed

lemma UpdateTransactions_inv:
  assumes "BRWalletUpdateTransactions E w hs b s = Inr (w', evs)" "wallet_inv w"
  shows "wallet_inv w'"
proof -
  define w0 where "w0 = (if w_blockHeight w < b then w\<lparr>w_blockHeight := b\<rparr> else w)"
  have 0: "wallet_inv w0" using assms(2) wallet_inv_blockHeight by (simp add: w0_def)
  obtain w1 hashes needs where 1: "fold_res (update_tx b s) hs (w0, [], False) = Inr (w1, hashes, needs)"
      "(if needs then UpdateBalance E w1 else Inr w1) = Inr w'"
    using assms(1) unfolding BRWalletUpdateTransactions_def Let_def w0_def[symmetric]
    by (auto simp: rbind_eq_Inr_conv)
  have "wallet_inv w1" by (rule update_tx_run[OF 1(1) 0])
  then show ?thesis using 1(2) UpdateBalance_inv'(1)[of E w1 w'] by (auto simp: wallet_inv_def split: if_splits)
qed

lemma while_height_split:
  "while_height all P hs = Inr r \<Longrightarrow> \<exists>ys. hs = r @ ys \<and> (\<forall>h \<in> set r. P (tx_height all h)) \<and>
     (ys \<noteq> [] \<longrightarrow> \<not> P (tx_height all (hd ys)))"
proof (induction hs arbitrary: r)
  case (Cons h hs)
  obtain t where t: "tx_get all h = Some t" using Cons.prems by (auto simp: rbind_eq_Inr_conv tx_ref_eq)
  have ht: "tx_height all h = tx_blockHeight t" using t by (simp add: tx_height_def)
  show ?case
  proof (cases "P (tx_blockHeight t)")
    case True
    then obtain r' where r': "while_height all P hs = Inr r'" "r = h # r'"
      using Cons.prems t by (auto simp: rbind_eq_Inr_conv tx_ref_def)
    from Cons.IH[OF r'(1)] show ?thesis using True ht r'(2) by auto
  next
    case False
    then have "r = []" using Cons.prems t by (simp add: tx_ref_def)
    then show ?thesis using False ht by auto
  qed
qed simp

lemma SetTxUnconfirmedAfter_inv:
  assumes s: "BRWalletSetTxUnconfirmedAfter E w b = Inr (w', evs)" and inv: "wallet_inv w" and b: "b \<le> TX_UNCONFIRMED"
  shows "wallet_inv w'"
proof -
  define w0 where "w0 = w\<lparr>w_blockHeight := b\<rparr>"
  have ok: "wallet_ok w0" "tx_sorted w0" "utxos_live w0"
    using inv wallet_inv_blockHeight[where w = w and b = b] by (auto simp: w0_def wallet_inv_def)
  obtain r where r: "while_height (w_allTx w0) (\<lambda>c. b < c) (rev (w_transactions w0)) = Inr r"
    using s unfolding BRWalletSetTxUnconfirmedAfter_def Let_def w0_def[symmetric] by (auto simp: rbind_eq_Inr_conv)
  let ?f = "\<lambda>t. if tx_txHash t \<in> set (rev r) then t\<lparr>tx_blockHeight := TX_UNCONFIRMED\<rparr> else t"
  define w1 where "w1 = w0\<lparr>w_allTx := tx_unconfirm (rev r) (w_allTx w0)\<rparr>"
  have w': "(if rev r \<noteq> [] then UpdateBalance E w1 else Inr w1) = Inr w'"
    using s r unfolding BRWalletSetTxUnconfirmedAfter_def Let_def w0_def[symmetric]
    by (auto simp: rbind_eq_Inr_conv w1_def split: if_splits)
  have f: "restamp ?f" by (rule restamp_sets(2))
  have ok1: "wallet_ok w1" "utxos_live w1"
    using restamp_ok[OF f ok(1)] restamp_live[OF f ok(3)] by (simp_all add: w1_def tx_unconfirm_def)
  have ht: "tx_height (w_allTx w1) h = (if h \<in> set r then TX_UNCONFIRMED else tx_height (w_allTx w0) h)"
    if h: "h \<in> set (w_transactions w0)" for h
  proof -
    have "h \<in> tx_txHash ` set (w_allTx w0)" using h ok(1) by (auto simp: wallet_ok_def)
    then obtain t where t: "tx_get (w_allTx w0) h = Some t" using tx_get_ex by blast
    have "tx_get (w_allTx w1) h = Some (?f t)"
      using tx_get_restamp[OF f, of "w_allTx w0" h] t by (simp add: w1_def tx_unconfirm_def)
    then show ?thesis using t tx_get_Some[OF t] by (simp add: tx_height_def)
  qed
  obtain ys where ys: "rev (w_transactions w0) = r @ ys" "\<forall>h \<in> set r. b < tx_height (w_allTx w0) h"
      "ys \<noteq> [] \<longrightarrow> \<not> b < tx_height (w_allTx w0) (hd ys)"
    using while_height_split[OF r] by blast
  have "sorted_wrt (\<ge>) (map (tx_height (w_allTx w0)) (r @ ys))"
    using ok(2) ys(1) by (metis tx_sorted_def rev_map sorted_rev_iff)
  moreover have "distinct (r @ ys)" using ok(1) ys(1) by (metis distinct_rev wallet_ok_def)
  moreover have mem: "set (r @ ys) = set (w_transactions w0)" using ys(1) by (metis set_rev)
  ultimately have "sorted_wrt (\<ge>) (map (tx_height (w_allTx w1)) (r @ ys))"
  proof -
    assume so: "sorted_wrt (\<ge>) (map (tx_height (w_allTx w0)) (r @ ys))" and d: "distinct (r @ ys)"
    have 1: "map (tx_height (w_allTx w1)) r = map (\<lambda>_. TX_UNCONFIRMED) r"
      "map (tx_height (w_allTx w1)) ys = map (tx_height (w_allTx w0)) ys"
      using d by (auto simp: ht mem[symmetric] intro!: map_cong)
    have "\<forall>h \<in> set ys. tx_height (w_allTx w0) h \<le> b"
      using so ys(3) by (cases ys) (auto simp: sorted_wrt_append not_less dest: order_trans)
    then have "\<forall>h \<in> set ys. tx_height (w_allTx w0) h \<le> TX_UNCONFIRMED" using b order_trans by blast
    moreover have "sorted_wrt (\<ge>) (map (\<lambda>_. TX_UNCONFIRMED) r)" by (simp add: map_replicate_const sorted_wrt_iff_nth_less)
    ultimately show ?thesis using so by (simp add: 1 sorted_wrt_append del: map_eq_conv)
  qed
  then have "sorted (map (tx_height (w_allTx w1)) (w_transactions w0))"
    unfolding ys(1)[symmetric] by (metis rev_map sorted_rev_iff)
  then have "tx_sorted w1" by (simp add: tx_sorted_def w1_def)
  then show ?thesis using w' ok1 UpdateBalance_inv'(1)[of E w1 w'] by (auto simp: wallet_inv_def split: if_splits)
qed

end
