(* ===== verification/BRWalletCreate.thy ===== *)
theory BRWalletCreate
  imports BRWalletState "HOL-Library.Sublist"
begin

text \<open>
  The transactions that a wallet creates: what they spend, what they pay, and where the difference goes.
\<close>

section \<open>Building a transaction\<close>

lemma AddInput_result:
  assumes "BRTransactionAddInput tx h n amount script None sq = Inr tx'"
  obtains i where "tx' = tx\<lparr>tx_inputs := tx_inputs tx @ [i]\<rparr>" "outpoint i = (h, n)" "ti_amount i = amount"
    "ti_signature i = None" "ti_sequence i = sq"
proof -
  obtain i where "(if script \<noteq> None then BRTxInputSetScript
        \<lparr>ti_txHash = h, ti_index = n, ti_address = '''', ti_amount = amount, ti_script = None, ti_signature = None,
         ti_sequence = sq\<rparr> script
      else Inr \<lparr>ti_txHash = h, ti_index = n, ti_address = '''', ti_amount = amount, ti_script = None,
         ti_signature = None, ti_sequence = sq\<rparr>) = Inr i" "tx' = tx\<lparr>tx_inputs := tx_inputs tx @ [i]\<rparr>"
    using assms by (auto simp: BRTransactionAddInput_def rbind_eq_Inr_conv Let_def split: if_splits)
  then show ?thesis
    by (intro that[of i]) (auto simp: BRTxInputSetScript_def rbind_eq_Inr_conv outpoint_def Let_def split: if_splits option.splits)
qed

lemma AddOutput_result:
  assumes "BRTransactionAddOutput tx amount script = Inr tx'"
  obtains out where "tx' = tx\<lparr>tx_outputs := tx_outputs tx @ [out]\<rparr>" "to_amount out = amount" "to_script out = script"
  using assms that
  by (auto simp: BRTransactionAddOutput_def BRTxOutputSetScript_def rbind_eq_Inr_conv Let_def split: option.splits)

text \<open>An output as what it pays and to what script.\<close>

definition payment :: "BRTxOutput \<Rightarrow> u64 \<times> bytes option" where
  "payment out = (to_amount out, to_script out)"

definition paid :: "BRTxOutput list \<Rightarrow> u64" where
  "paid os = sum_list (map to_amount os)"

lemma add_outputs_result:
  "add_outputs os tx amount = Inr (tx', amount') \<Longrightarrow> \<exists>os'. tx' = tx\<lparr>tx_outputs := tx_outputs tx @ os'\<rparr> \<and>
     map payment os' = map payment os \<and> amount' = amount + paid os"
proof (induction os arbitrary: tx amount)
  case (Cons a os)
  obtain tx1 where tx1: "BRTransactionAddOutput tx (to_amount a) (to_script a) = Inr tx1"
      "add_outputs os tx1 (amount + to_amount a) = Inr (tx', amount')"
    using Cons.prems by (auto simp: rbind_eq_Inr_conv split: if_splits)
  obtain out where out: "tx1 = tx\<lparr>tx_outputs := tx_outputs tx @ [out]\<rparr>" "to_amount out = to_amount a"
      "to_script out = to_script a"
    by (rule AddOutput_result[OF tx1(1)])
  from Cons.IH[OF tx1(2)] obtain os' where "tx' = tx1\<lparr>tx_outputs := tx_outputs tx1 @ os'\<rparr>"
      "map payment os' = map payment os" "amount' = amount + to_amount a + paid os" by blast
  moreover have "payment out = payment a" using out by (simp add: payment_def)
  ultimately show ?case
    using out by (intro exI[of _ "out # os'"]) (auto simp: paid_def algebra_simps)
qed (simp add: paid_def)

text \<open>The fee that a transaction is given, for its size with a change output.\<close>

definition round_fee :: "BRWallet \<Rightarrow> u64 \<Rightarrow> BRTransaction \<Rightarrow> u64" where
  "round_fee w amount tx =
     (let fee = txFee (w_feePerKb w) (BRTransactionSize tx + TX_OUTPUT_SIZE)
      in if amount + fee < w_balance w then fee + (w_balance w - (amount + fee)) mod 100 else fee)"

text \<open>The inputs that the loop adds, for outpoints it goes through.\<close>

definition picks :: "BRWallet \<Rightarrow> u64 \<Rightarrow> BRUTXO list \<Rightarrow> BRTransaction \<times> u64 \<times> u64 \<Rightarrow> BRTxInput list \<Rightarrow>
    BRTransaction \<times> u64 \<times> u64 \<Rightarrow> bool" where
  "picks w amount us start new end \<longleftrightarrow> (case (start, end) of ((tx, balance, fee), (tx', balance', fee')) \<Rightarrow>
     tx' = tx\<lparr>tx_inputs := tx_inputs tx @ new\<rparr> \<and> subseq (map outpoint new) us \<and>
     balance' = balance + sum_list (map ti_amount new) \<and>
     (\<forall>i \<in> set new. ti_amount i = utxo_amount (w_allTx w) (outpoint i) \<and> ti_signature i = None \<and>
        ti_sequence i = TXIN_SEQUENCE) \<and>
     (if new = [] then fee' = fee
      else fee' = round_fee w amount tx' \<and> BRTransactionSize tx' + TX_OUTPUT_SIZE \<le> TX_MAX_SIZE))"

lemma picks_skip: "picks w amount us s new e \<Longrightarrow> picks w amount (u # us) s new e"
  by (auto simp: picks_def intro: list_emb.list_emb_Cons)

lemma picks_step:
  assumes "picks w amount us (tx1, balance + ti_amount i, round_fee w amount tx1) new e"
    "tx1 = tx\<lparr>tx_inputs := tx_inputs tx @ [i]\<rparr>" "ti_amount i = utxo_amount (w_allTx w) (outpoint i)"
    "ti_signature i = None" "ti_sequence i = TXIN_SEQUENCE" "BRTransactionSize tx1 + TX_OUTPUT_SIZE \<le> TX_MAX_SIZE"
  shows "picks w amount (outpoint i # us) (tx, balance, fee) (i # new) e"
  using assms by (cases e) (auto simp: picks_def algebra_simps split: if_splits)

lemma pick_inputs_result:
  "pick_inputs w minAmount amount n us tx balance feeAmount = Inr (Picked tx' balance' feeAmount') \<Longrightarrow>
   \<exists>new. picks w amount us (tx, balance, feeAmount) new (tx', balance', feeAmount')"
proof (induction us arbitrary: tx balance feeAmount)
  case (Cons u us)
  show ?case
  proof (cases "output_ref (w_allTx w) u")
    case (Inl e)
    with Cons.prems have "pick_inputs w minAmount amount n us tx balance feeAmount = Inr (Picked tx' balance' feeAmount')"
      by simp
    then show ?thesis using Cons.IH picks_skip by blast
  next
    case (Inr out)
    obtain tx1 where tx1: "BRTransactionAddInput tx (fst u) (snd u) (to_amount out) (to_script out) None TXIN_SEQUENCE = Inr tx1"
      using Cons.prems Inr by (auto simp: rbind_eq_Inr_conv)
    obtain i where i: "tx1 = tx\<lparr>tx_inputs := tx_inputs tx @ [i]\<rparr>" "outpoint i = (fst u, snd u)"
        "ti_amount i = to_amount out" "ti_signature i = None" "ti_sequence i = TXIN_SEQUENCE"
      by (rule AddInput_result[OF tx1])
    have amt: "ti_amount i = utxo_amount (w_allTx w) (outpoint i)" "u = outpoint i"
      using i(2,3) Inr by (simp_all add: utxo_amount_def)
    have s: "\<not> TX_MAX_SIZE < BRTransactionSize tx1 + TX_OUTPUT_SIZE"
      using Cons.prems Inr tx1 by (auto split: if_splits)
    let ?fee = "round_fee w amount tx1"
    let ?bal = "balance + ti_amount i"
    have "pick_inputs w minAmount amount n (u # us) tx balance feeAmount =
        (if ?bal = amount + ?fee \<or> amount + ?fee + minAmount \<le> ?bal then Inr (Picked tx1 ?bal ?fee)
         else pick_inputs w minAmount amount n us tx1 ?bal ?fee)"
      using s by (simp only: pick_inputs.simps Inr tx1 sum.case rbind_Inr if_False round_fee_def Let_def i(3))
    with Cons.prems consider "(tx', balance', feeAmount') = (tx1, ?bal, ?fee)"
      | "pick_inputs w minAmount amount n us tx1 ?bal ?fee = Inr (Picked tx' balance' feeAmount')"
      by (simp split: if_splits)
    then have "\<exists>new. picks w amount us (tx1, balance + ti_amount i, ?fee) new (tx', balance', feeAmount')"
    proof cases
      case 1
      then show ?thesis by (intro exI[of _ "[]"]) (simp add: picks_def)
    next
      case 2
      then show ?thesis by (rule Cons.IH)
    qed
    then show ?thesis using picks_step[OF _ i(1) amt(1) i(4,5)] s amt(2) by (meson not_less)
  qed
qed (auto simp: picks_def)

section \<open>What is created\<close>

text \<open>One attempt: the outputs are added and inputs are picked for them.\<close>

definition attempt :: "BRWallet \<Rightarrow> BRTxOutput list \<Rightarrow> (u64 \<times> BRTransaction \<times> pick) res" where
  "attempt w outputs =
     rbind (add_outputs outputs BRTransactionNew 0) (\<lambda>(tx, amount).
     rbind (pick_inputs w (BRWalletMinOutputAmount w) amount (length outputs) (w_utxos w) tx 0
              (txFee (w_feePerKb w) (BRTransactionSize tx + TX_OUTPUT_SIZE))) (\<lambda>p. Inr (amount, tx, p)))"

text \<open>The outputs that are tried again after an attempt that grew too large.\<close>

definition retries :: "BRWallet \<Rightarrow> BRTxOutput list \<Rightarrow> BRTxOutput list \<Rightarrow> bool" where
  "retries w outputs outputs' \<longleftrightarrow> (\<exists>amount tx balance fee. attempt w outputs = Inr (amount, tx, TooLarge balance fee) \<and>
     outputs' = less_outputs (BRWalletMinOutputAmount w) amount outputs balance fee)"

text \<open>How the operation ends, on the outputs of the last attempt.\<close>

definition ends :: "env \<Rightarrow> BRWallet \<Rightarrow> u32 list \<Rightarrow> BRTxOutput list \<Rightarrow> BRTransaction option \<Rightarrow> BRWallet \<Rightarrow> bool" where
  "ends E w rs outputs result w' \<longleftrightarrow> outputs \<noteq> [] \<and> (\<exists>amount tx0 p. attempt w outputs = Inr (amount, tx0, p) \<and>
     (p = NoFunds \<and> result = None \<and> w' = w \<or>
      (\<exists>tx balance fee. p = Picked tx balance fee \<and>
         (if balance < amount + fee then result = None \<and> w' = w
          else if BRWalletMinOutputAmount w < balance - (amount + fee)
          then add_change E w tx (balance - (amount + fee)) rs = Inr (result, w')
          else result = Some tx \<and> w' = w))))"

definition create_ends :: "env \<Rightarrow> BRWallet \<Rightarrow> u32 list \<Rightarrow> BRTxOutput list \<Rightarrow> (BRTransaction option \<times> BRWallet) res \<Rightarrow> bool" where
  "create_ends E w rs outputs r \<longleftrightarrow>
     (\<forall>result w'. r = Inr (result, w') \<longrightarrow>
        (\<exists>outputs'. (retries w)\<^sup>*\<^sup>* outputs outputs' \<and> ends E w rs outputs' result w'))"

lemma CreateTxForOutputs_ends:
  assumes "CreateTxForOutputs E w rs outputs = Some r"
  shows "create_ends E w rs outputs r"
proof (rule CreateTxForOutputs.raw_induct[where P = create_ends, OF _ assms])
  fix create E w rs outputs r
  assume IH: "\<And>E w rs outputs r. create E w rs outputs = Some r \<Longrightarrow> create_ends E w rs outputs r"
    and r: "(let minAmount = BRWalletMinOutputAmount w in
      if outputs = [] then Some (Inl AssertFailed)
      else case add_outputs outputs BRTransactionNew 0 of
        Inl e \<Rightarrow> Some (Inl e)
      | Inr (transaction, amount) \<Rightarrow>
      (case pick_inputs w minAmount amount (length outputs) (w_utxos w) transaction 0
              (txFee (w_feePerKb w) (BRTransactionSize transaction + TX_OUTPUT_SIZE)) of
        Inl e \<Rightarrow> Some (Inl e)
      | Inr NoFunds \<Rightarrow> Some (Inr (None, w))
      | Inr (TooLarge balance feeAmount) \<Rightarrow>
          create E w rs (less_outputs minAmount amount outputs balance feeAmount)
      | Inr (Picked transaction balance feeAmount) \<Rightarrow>
          Some (if balance < amount + feeAmount then Inr (None, w)
                else if minAmount < balance - (amount + feeAmount)
                then add_change E w transaction (balance - (amount + feeAmount)) rs
                else Inr (Some transaction, w)))) = Some r"
  show "create_ends E w rs outputs r" unfolding create_ends_def
  proof (intro allI impI)
    fix result w'
    assume rr: "r = Inr (result, w')"
    then have ne: "outputs \<noteq> []" using r by (auto simp: Let_def)
    obtain tx amount where a: "add_outputs outputs BRTransactionNew 0 = Inr (tx, amount)"
      using r rr ne by (cases "add_outputs outputs BRTransactionNew 0") (auto simp: Let_def)
    obtain p where p: "pick_inputs w (BRWalletMinOutputAmount w) amount (length outputs) (w_utxos w) tx 0
              (txFee (w_feePerKb w) (BRTransactionSize tx + TX_OUTPUT_SIZE)) = Inr p"
      using r rr ne a by (auto simp: Let_def split: sum.splits)
    have at: "attempt w outputs = Inr (amount, tx, p)" using a p by (simp add: attempt_def)
    show "\<exists>outputs'. (retries w)\<^sup>*\<^sup>* outputs outputs' \<and> ends E w rs outputs' result w'"
    proof (cases p)
      case (TooLarge balance fee)
      let ?outs = "less_outputs (BRWalletMinOutputAmount w) amount outputs balance fee"
      have "create E w rs ?outs = Some r" using r ne a p TooLarge by (simp add: Let_def)
      then have "create_ends E w rs ?outs r" by (rule IH)
      then obtain outputs' where "(retries w)\<^sup>*\<^sup>* ?outs outputs'" "ends E w rs outputs' result w'"
        using rr by (auto simp: create_ends_def)
      moreover have "retries w outputs ?outs" using at TooLarge by (auto simp: retries_def)
      ultimately show ?thesis by (meson converse_rtranclp_into_rtranclp)
    next
      case NoFunds
      then have "result = None" "w' = w" using r ne a p rr by (simp_all add: Let_def)
      then have "ends E w rs outputs result w'" using ne at NoFunds by (auto simp: ends_def)
      then show ?thesis by blast
    next
      case (Picked tx' balance fee)
      then have "ends E w rs outputs result w'"
        using ne at r a p rr by (auto simp: ends_def Let_def split: if_splits)
      then show ?thesis by blast
    qed
  qed
qed

lemma add_change_result:
  assumes "add_change E w tx change rs = Inr (result, w')" "length (tx_outputs tx) + 1 < 2 ^ 31"
  obtains addrs script out tx' where
    "BRWalletUnusedAddrs E w 1 True = Inr (addrs, w')" "result = Some tx'"
    "script_for_address (case addrs of [] \<Rightarrow> '''' | a # _ \<Rightarrow> a) = Inr script"
    "payment out = (change, Some script)" "tx' = tx\<lparr>tx_outputs := tx_outputs tx'\<rparr>"
    "mset (tx_outputs tx') = mset (tx_outputs tx @ [out])"
proof -
  obtain addrs script tx1 rs' tx' where c: "BRWalletUnusedAddrs E w 1 True = Inr (addrs, w')" "result = Some tx'"
      "script_for_address (case addrs of [] \<Rightarrow> '''' | a # _ \<Rightarrow> a) = Inr script"
      "BRTransactionAddOutput tx change (Some script) = Inr tx1" "BRTransactionShuffleOutputs tx1 rs = Some (tx', rs')"
    using assms(1) by (auto simp: add_change_def rbind_eq_Inr_conv split: option.splits)
  obtain out where out: "tx1 = tx\<lparr>tx_outputs := tx_outputs tx @ [out]\<rparr>" "to_amount out = change"
      "to_script out = Some script"
    by (rule AddOutput_result[OF c(4)])
  obtain ys where ys: "shuffle_loop 0 (tx_outputs tx1) rs = Some (ys, rs')" "tx' = tx1\<lparr>tx_outputs := ys\<rparr>"
    using c(5) by (auto simp: BRTransactionShuffleOutputs_def split: option.splits)
  have "mset ys = mset (tx_outputs tx1)" by (rule shuffle_loop_mset[OF _ ys(1)]) (use assms(2) out(1) in simp)
  then show ?thesis using that[OF c(1-3), of out] out ys(2) by (simp add: payment_def)
qed

section \<open>Properties of the transactions that are created\<close>

lemma output_size_pos: "9 \<le> output_size o'"
  by (auto simp: output_size_def varint_size_def BRVarIntSize_def BRVarIntSet_def varint_bytes_def Let_def)

lemma outputs_bound: "9 * length (tx_outputs tx) \<le> BRTransactionSize tx"
proof -
  have "9 * length os \<le> sum_list (map output_size os)" for os
    using output_size_pos by (induction os) (auto simp: add_mono)
  then show ?thesis unfolding BRTransactionSize_sum by (meson trans_le_add2)
qed

text \<open>
  C28: a created transaction spends each of its inputs once, and only unspent outputs of the wallet, at their
  amounts. It pays exactly the outputs that were asked for, or, when those make it too large, the outputs of a
  retry; what remains of the inputs is the fee, computed for its size, and change when it is more than the
  least amount of an output, and otherwise goes to the fee as well.
\<close>

theorem CreateTx_conserves:
  assumes "wallet_inv w" "BRWalletCreateTxForOutputs E w rs outputs = Inr (Some tx, w')" "tx_inputs tx \<noteq> []"
  shows "\<exists>outs os fee. (retries w)\<^sup>*\<^sup>* outputs outs \<and> map payment os = map payment outs \<and>
    distinct (map outpoint (tx_inputs tx)) \<and> outpoint ` set (tx_inputs tx) \<subseteq> set (w_utxos w) \<and>
    (\<forall>i \<in> set (tx_inputs tx). ti_amount i = utxo_amount (w_allTx w) (outpoint i)) \<and>
    fee = round_fee w (paid outs) (tx\<lparr>tx_outputs := os\<rparr>) \<and>
    BRTransactionSize (tx\<lparr>tx_outputs := os\<rparr>) + TX_OUTPUT_SIZE \<le> TX_MAX_SIZE \<and>
    paid outs + fee \<le> sum_list (map ti_amount (tx_inputs tx)) \<and>
    (tx_outputs tx = os \<and> w' = w \<and>
       sum_list (map ti_amount (tx_inputs tx)) - (paid outs + fee) \<le> BRWalletMinOutputAmount w \<or>
     (\<exists>addrs change script. BRWalletUnusedAddrs E w 1 True = Inr (addrs, w') \<and>
       script_for_address (case addrs of [] \<Rightarrow> '''' | a # _ \<Rightarrow> a) = Inr script \<and>
       mset (map payment (tx_outputs tx)) = mset (map payment os) + {#(change, Some script)#} \<and>
       BRWalletMinOutputAmount w < change \<and>
       sum_list (map ti_amount (tx_inputs tx)) = paid outs + change + fee))"
proof -
  have "CreateTxForOutputs E w rs outputs = Some (Inr (Some tx, w'))"
    using assms(2) by (auto simp: BRWalletCreateTxForOutputs_def returning_def split: option.splits)
  then obtain outs where outs: "(retries w)\<^sup>*\<^sup>* outputs outs" "ends E w rs outs (Some tx) w'"
    using CreateTxForOutputs_ends by (fastforce simp: create_ends_def)
  then obtain amount tx0 p balance fee where a: "attempt w outs = Inr (amount, tx0, Picked p balance fee)"
      "\<not> balance < amount + fee"
      "if BRWalletMinOutputAmount w < balance - (amount + fee)
       then add_change E w p (balance - (amount + fee)) rs = Inr (Some tx, w') else tx = p \<and> w' = w"
    by (auto simp: ends_def split: if_splits)
  have ao: "add_outputs outs BRTransactionNew 0 = Inr (tx0, amount)"
    and pi: "pick_inputs w (BRWalletMinOutputAmount w) amount (length outs) (w_utxos w) tx0 0
       (txFee (w_feePerKb w) (BRTransactionSize tx0 + TX_OUTPUT_SIZE)) = Inr (Picked p balance fee)"
    using a(1) by (auto simp: attempt_def rbind_eq_Inr_conv)
  from add_outputs_result[OF ao] obtain os where
    os: "tx0 = BRTransactionNew\<lparr>tx_outputs := os\<rparr>" "map payment os = map payment outs" "amount = paid outs"
    by (auto simp: BRTransactionNew_def)
  from pick_inputs_result[OF pi] obtain new where new: "p = tx0\<lparr>tx_inputs := new\<rparr>"
    "subseq (map outpoint new) (w_utxos w)" "balance = sum_list (map ti_amount new)"
    "\<forall>i \<in> set new. ti_amount i = utxo_amount (w_allTx w) (outpoint i)"
    "new \<noteq> [] \<Longrightarrow> fee = round_fee w amount p \<and> BRTransactionSize p + TX_OUTPUT_SIZE \<le> TX_MAX_SIZE"
    using os(1) by (auto simp: picks_def BRTransactionNew_def split: if_splits)
  have po: "tx_outputs p = os" "tx_inputs p = new" using new(1) os(1) by simp_all
  obtain N where "map outpoint new = nths (w_utxos w) N" using new(2) by (auto simp: subseq_conv_nths)
  then have d: "distinct (map outpoint new)" "outpoint ` set new \<subseteq> set (w_utxos w)"
    using assms(1) set_nths_subset[of "w_utxos w" N] distinct_nthsI[of "w_utxos w" N]
    by (auto simp: wallet_inv_def utxos_live_def simp flip: set_map)
  show ?thesis
  proof (cases "BRWalletMinOutputAmount w < balance - (amount + fee)")
    case False
    then have "tx = p" "w' = w" using a(3) by auto
    then show ?thesis
      using outs(1) os(2,3) d new(3-5) po(1)[symmetric] po(2) assms(3) a(2) False
      by (rule_tac exI[of _ outs], rule_tac exI[of _ os], rule_tac exI[of _ fee]) (simp add: not_less)
  next
    case True
    have ne: "new \<noteq> []"
    proof
      assume "new = []"
      then have "balance = 0" using new(3) by simp
      moreover from this have "amount + fee = 0" using a(2) by (metis word_gt_0)
      ultimately show False using True by simp
    qed
    then have sz: "BRTransactionSize p + TX_OUTPUT_SIZE \<le> TX_MAX_SIZE" "fee = round_fee w amount p" using new(5) by auto
    then have len: "length (tx_outputs p) + 1 < 2 ^ 31"
      using outputs_bound[of p] by (simp add: TX_MAX_SIZE_def TX_OUTPUT_SIZE_def)
    have ac: "add_change E w p (balance - (amount + fee)) rs = Inr (Some tx, w')" using a(3) True by simp
    obtain addrs script out tx' where c': "BRWalletUnusedAddrs E w 1 True = Inr (addrs, w')" "Some tx = Some tx'"
        "script_for_address (case addrs of [] \<Rightarrow> '''' | a # _ \<Rightarrow> a) = Inr script"
        "payment out = (balance - (amount + fee), Some script)" "tx' = p\<lparr>tx_outputs := tx_outputs tx'\<rparr>"
        "mset (tx_outputs tx') = mset (tx_outputs p @ [out])"
      by (rule add_change_result[OF ac len])
    have "tx' = tx" using c'(2) by simp
    note c = c'(1) c'(3-6)[unfolded this]
    have "tx_inputs (p\<lparr>tx_outputs := tx_outputs tx\<rparr>) = new"
      "p\<lparr>tx_outputs := tx_outputs tx, tx_outputs := tx_outputs p\<rparr> = p" using po(2) by simp_all
    then have i: "tx_inputs tx = new" "tx\<lparr>tx_outputs := os\<rparr> = p" using c(4) po(1) by metis+
    have "image_mset payment (mset (tx_outputs tx)) = image_mset payment (mset (tx_outputs p @ [out]))"
      using c(5) by simp
    then have "mset (map payment (tx_outputs tx)) = mset (map payment os) + {#(balance - (amount + fee), Some script)#}"
      using c(3) po(1) by simp
    then show ?thesis
      using outs(1) os(2,3) d new(3,4) sz a(2) True c(1,2) i
      by (rule_tac exI[of _ outs], rule_tac exI[of _ os], rule_tac exI[of _ fee])
        (auto simp: not_less algebra_simps intro!: exI[of _ "balance - (amount + fee)"])
  qed
qed

text \<open>An example: one unspent output, and a payment that leaves too little for change.\<close>

definition rich_wallet :: BRWallet where
  "rich_wallet = (new_wallet BR_MASTER_PUBKEY_NONE)
     \<lparr>w_allTx := [demo_tx 1 9 [(''A'', 100000)] 100], w_transactions := [1], w_externalChain := [''A''],
      w_allAddrs := {''A''}, w_utxos := [(1, 0)], w_balance := 100000\<rparr>"

lemma rich_wallet_inv: "wallet_inv rich_wallet"
  by (simp add: wallet_inv_def wallet_ok_def tx_sorted_def utxos_live_def few_outputs_def ContainsTx_def
      wallet_output_def tx_get_def utxo_amount_def output_ref_def tx_ref_def rich_wallet_def demo_defs)

lemma rich_script: "BRAddressFromScriptPubKey (Some 75) [0x51] = Inr (0, None)"
proof -
  have "script_loop [0x51] 0 0 [] = ([0], 1)"
    by (subst script_loop.simps, simp add: script_header_def OP_PUSHDATA1_def OP_PUSHDATA2_def OP_PUSHDATA4_def,
        subst script_loop.simps, simp)
  then show ?thesis
    by (simp add: BRAddressFromScriptPubKey_def BRScriptElements_def elem_ops_def MAX_SCRIPT_LENGTH_def)
qed

lemma rich_create:
  "\<exists>tx. BRWalletCreateTxForOutputs demo_env rich_wallet [] [zero_output\<lparr>to_amount := 95000, to_script := Some [0x51]\<rparr>] =
     Inr (Some tx, rich_wallet) \<and> map outpoint (tx_inputs tx) = [(1, 0)]"
  by (simp add: BRWalletCreateTxForOutputs_def returning_def CreateTxForOutputs.simps BRWalletMinOutputAmount_def Let_def
      BRTransactionAddOutput_def BRTxOutputSetScript_def script_address_def rich_script output_ref_def tx_ref_def
      tx_get_def BRTransactionAddInput_def UInt256IsZero_def outpoint_def BRTransactionSize_sum varint_size_def
      BRVarIntSize_def BRVarIntSet_def varint_bytes_def input_size_def output_size_def txFee_def DEFAULT_FEE_PER_KB_def
      MIN_FEE_PER_KB_def TX_MAX_SIZE_def TX_MIN_OUTPUT_AMOUNT_def TX_FEE_PER_KB_def TX_OUTPUT_SIZE_def TX_INPUT_SIZE_def
      rich_wallet_def demo_defs)

theorem CreateTx_conserves_witness:
  "\<exists>tx os fee. BRWalletCreateTxForOutputs demo_env rich_wallet [] [zero_output\<lparr>to_amount := 95000, to_script := Some [0x51]\<rparr>] =
     Inr (Some tx, rich_wallet) \<and> outpoint ` set (tx_inputs tx) \<subseteq> set (w_utxos rich_wallet) \<and>
     fee = round_fee rich_wallet (paid os) (tx\<lparr>tx_outputs := os\<rparr>) \<and>
     paid os + fee \<le> sum_list (map ti_amount (tx_inputs tx))"
proof -
  obtain tx where tx: "BRWalletCreateTxForOutputs demo_env rich_wallet []
        [zero_output\<lparr>to_amount := 95000, to_script := Some [0x51]\<rparr>] = Inr (Some tx, rich_wallet)"
      "map outpoint (tx_inputs tx) = [(1, 0)]"
    using rich_create by (elim exE conjE) (rule that; assumption)
  from tx(2) have "tx_inputs tx \<noteq> []" by (metis list.simps(8) not_Cons_self2)
  from CreateTx_conserves[OF rich_wallet_inv tx(1) this] obtain outs os fee where
    o': "map payment os = map payment outs" "outpoint ` set (tx_inputs tx) \<subseteq> set (w_utxos rich_wallet)"
    "fee = round_fee rich_wallet (paid outs) (tx\<lparr>tx_outputs := os\<rparr>)"
    "paid outs + fee \<le> sum_list (map ti_amount (tx_inputs tx))"
    by (elim exE conjE) (rule that; assumption)
  have "map to_amount os = map to_amount outs"
    using arg_cong[OF o'(1), of "map fst"] by (simp add: payment_def comp_def)
  then have "paid os = paid outs" by (simp add: paid_def)
  then show ?thesis using tx(1) o' by metis
qed

section \<open>Fees\<close>

lemma unat_round_up:
  assumes "unat x + 99 < 2 ^ 64"
  shows "unat ((x + 99) div 100 * 100 :: u64) = (unat x + 99) div 100 * 100"
proof -
  have "(unat x + 99) div 100 * 100 < 2 ^ 64" using assms by (metis div_times_less_eq_dividend le_less_trans)
  then show ?thesis using assms by (simp add: unat_div unat_word_ariths)
qed

text \<open>
  C31: the fee for a size is at least the standard fee of one satoshi per byte, and at least what the fee rate
  asks for; it exceeds the larger of the two by less than 100 satoshi, as long as the products do not wrap
  around.
\<close>

theorem txFee_bounds:
  assumes "len * 1000 < 2 ^ 64" "len * unat feePerKb + 99000 < 2 ^ 64"
  shows "len \<le> unat (txFee feePerKb len) \<and> len * unat feePerKb div 1000 \<le> unat (txFee feePerKb len) \<and>
    unat (txFee feePerKb len) \<le> max len (len * unat feePerKb div 1000 + 99)"
proof -
  have l: "len < 2 ^ 64" using assms(1) by simp
  have 1: "unat (of_nat len * TX_FEE_PER_KB div 1000) = len"
    using assms(1) by (simp add: TX_FEE_PER_KB_def unat_div unat_word_ariths unat_of_nat)
  let ?q = "len * unat feePerKb div 1000"
  have q: "?q + 99 < 2 ^ 64" using assms(2) by simp
  have 2: "unat (of_nat len * feePerKb div 1000) = ?q"
    using assms(2) l by (simp add: unat_div unat_word_ariths unat_of_nat)
  have "unat ((of_nat len * feePerKb div 1000 + 99) div 100 * 100) = (?q + 99) div 100 * 100"
    using unat_round_up[of "of_nat len * feePerKb div 1000"] q unfolding 2 by blast
  then have "unat (txFee feePerKb len) = max len ((?q + 99) div 100 * 100)"
    using 1 by (auto simp: txFee_def Let_def word_less_nat_alt max_def)
  moreover have "len \<le> max len r \<and> n \<le> max len r \<and> max len r \<le> max len (n + 99)"
    if "r = (n + 99) div 100 * 100" for n r :: nat
    using that by (auto simp: max_def)
  from this[OF refl, of ?q]
  have "len \<le> max len ((?q + 99) div 100 * 100) \<and> ?q \<le> max len ((?q + 99) div 100 * 100) \<and>
      max len ((?q + 99) div 100 * 100) \<le> max len (?q + 99)" .
  ultimately show ?thesis by simp
qed

theorem txFee_bounds_witness:
  "226 \<le> unat (txFee 10000 226) \<and> 226 * 10000 div 1000 \<le> unat (txFee 10000 226) \<and>
     unat (txFee 10000 226) \<le> max 226 (226 * 10000 div 1000 + 99)"
  using txFee_bounds[of 226 10000] by simp

end
