(* ===== verification/BRWalletReach.thy ===== *)
theory BRWalletReach
  imports BRWalletCreate
begin

text \<open>
  The wallets that the operations lead to, from a new wallet on, and what holds of all of them.
\<close>

section \<open>A new wallet\<close>

definition records_ok :: "BRWallet \<Rightarrow> bool" where
  "records_ok w \<longleftrightarrow> few_outputs w \<and> distinct (map tx_txHash (w_allTx w)) \<and> distinct (w_transactions w) \<and>
     set (w_transactions w) \<subseteq> tx_txHash ` set (w_allTx w) \<and> tx_sorted w"

lemma tx_height_snoc: "h \<noteq> tx_txHash tx \<Longrightarrow> tx_height (all @ [tx]) h = tx_height all h"
  by (simp add: tx_height_def tx_get_snoc)

lemma new_add_ok:
  assumes "new_add tx w = Inr w'" "records_ok w" "length (tx_outputs tx) < 2 ^ 32"
  shows "records_ok w' \<and> w_internalChain w' = w_internalChain w \<and> w_externalChain w' = w_externalChain w \<and>
    w_allAddrs w' = w_allAddrs w \<and> set (w_allTx w') \<subseteq> set (w_allTx w) \<union> {t. t = tx \<and> BRTransactionIsSigned t}"
proof (cases "\<not> BRTransactionIsSigned tx \<or> tx_get (w_allTx w) (tx_txHash tx) \<noteq> None")
  case True
  then have "w' = w" using assms(1) by (auto simp: new_add_def)
  then show ?thesis using assms(2) by auto
next
  case False
  let ?w = "w\<lparr>w_allTx := w_allTx w @ [tx]\<rparr>"
  have none: "tx_get (w_allTx w) (tx_txHash tx) = None" using False by simp
  then have new: "tx_txHash tx \<notin> tx_txHash ` set (w_allTx w)" using tx_get_None by blast
  obtain w1 where w1: "InsertTx ?w tx = Inr w1"
      "w' = w1\<lparr>w_usedAddrs := w_usedAddrs w1 \<union> set (filter (\<lambda>a. a \<noteq> []) (map to_address (tx_outputs tx)))\<rparr>"
    using assms(1) False by (auto simp: new_add_def rbind_eq_Inr_conv)
  have get: "tx_get (w_allTx ?w) (tx_txHash tx) = Some tx" using tx_get_new[OF none] by simp
  obtain xs ys where x: "w_transactions ?w = xs @ ys" "w1 = ?w\<lparr>w_transactions := xs @ tx_txHash tx # ys\<rparr>"
      "tx_sorted ?w \<longrightarrow> tx_sorted w1"
    using InsertTx_ok[OF w1(1) get] by metis
  have nl: "tx_txHash tx \<notin> set (w_transactions w)" using new assms(2) by (auto simp: records_ok_def)
  have "map (tx_height (w_allTx ?w)) (w_transactions w) = map (tx_height (w_allTx w)) (w_transactions w)"
    using nl by (auto intro!: map_cong tx_height_snoc)
  then have "tx_sorted ?w" using assms(2) unfolding records_ok_def tx_sorted_def by (simp del: map_eq_conv)
  then have "tx_sorted w'" using x(3) w1(2) by (simp add: tx_sorted_def)
  then show ?thesis
    using assms(2,3) x(1,2) w1(2) new nl False by (auto simp: records_ok_def few_outputs_def)
qed

lemma UnusedAddrs_same:
  assumes "BRWalletUnusedAddrs E w gapLimit internal = Inr (addrs, w')"
    "w_allAddrs w = set (w_internalChain w) \<union> set (w_externalChain w)"
  shows "w_allTx w' = w_allTx w \<and> w_transactions w' = w_transactions w \<and>
    w_allAddrs w' = set (w_internalChain w') \<union> set (w_externalChain w')"
proof -
  obtain chain' where "w' = with_chain internal chain' w" using UnusedAddrs_result[OF assms] by metis
  then show ?thesis by (simp add: with_chain_def Let_def)
qed

lemma extend_chains_same:
  assumes "extend_chains E w = Inr w'" "w_allAddrs w = set (w_internalChain w) \<union> set (w_externalChain w)"
  shows "w_allTx w' = w_allTx w \<and> w_transactions w' = w_transactions w \<and>
    w_allAddrs w' = set (w_internalChain w') \<union> set (w_externalChain w')"
proof -
  obtain a w1 b where "BRWalletUnusedAddrs E w SEQUENCE_GAP_LIMIT_EXTERNAL False = Inr (a, w1)"
      "BRWalletUnusedAddrs E w1 SEQUENCE_GAP_LIMIT_INTERNAL True = Inr (b, w')"
    using assms(1) by (auto simp: extend_chains_def rbind_eq_Inr_conv)
  then show ?thesis using UnusedAddrs_same assms(2) by metis
qed

lemma New_inv:
  assumes n: "BRWalletNew E txs mpk = Inr (Some w)" and few: "\<forall>t \<in> set txs. length (tx_outputs t) < 2 ^ 32"
    and all: "\<forall>t \<in> set txs. BRTransactionIsSigned t \<longrightarrow> ContainsTx w t"
  shows "wallet_inv w"
proof -
  obtain w1 w2 where w: "fold_res new_add txs (new_wallet mpk) = Inr w1" "extend_chains E w1 = Inr w2"
      "UpdateBalance E w2 = Inr w"
    using n by (cases txs) (auto simp: BRWalletNew_def rbind_eq_Inr_conv split: if_splits)
  define P where "P w \<longleftrightarrow> records_ok w \<and> w_internalChain w = [] \<and> w_externalChain w = [] \<and> w_allAddrs w = {} \<and>
      set (w_allTx w) \<subseteq> {t \<in> set txs. BRTransactionIsSigned t}" for w
  have "P w1"
  proof (rule fold_res_inv[OF w(1), of P])
    show "P (new_wallet mpk)"
      by (simp add: P_def records_ok_def few_outputs_def tx_sorted_def new_wallet_def)
    show "P s'" if "t \<in> set txs" "new_add t s = Inr s'" "P s" for t s s'
    proof -
      have "records_ok s" "length (tx_outputs t) < 2 ^ 32" using that(1,3) few by (simp_all add: P_def)
      from new_add_ok[OF that(2) this] that(1,3) show ?thesis unfolding P_def by auto
    qed
  qed
  then have p: "records_ok w1" "set (w_allTx w1) \<subseteq> {t \<in> set txs. BRTransactionIsSigned t}"
    "w_allAddrs w1 = set (w_internalChain w1) \<union> set (w_externalChain w1)" by (auto simp: P_def)
  have s: "w_allTx w2 = w_allTx w1" "w_transactions w2 = w_transactions w1"
    "w_allAddrs w2 = set (w_internalChain w2) \<union> set (w_externalChain w2)"
    using extend_chains_same[OF w(2) p(3)] by auto
  have r: "few_outputs w2" "distinct (w_transactions w2)" "set (w_transactions w2) \<subseteq> tx_txHash ` set (w_allTx w2)"
      "distinct (map tx_txHash (w_allTx w2))" "tx_sorted w2"
    using p(1) s(1,2) few_outputs_cong[OF s(1)] tx_sorted_cong[OF s(1,2)] by (auto simp: records_ok_def)
  obtain w' where "UpdateBalance E w2 = Inr w'" "same_records w2 w'"
    by (rule UpdateBalance_inv[OF r(1-3)])
  then have sr: "same_records w2 w" using w(3) by simp
  have "ContainsTx w2 t" if "t \<in> set (w_allTx w2)" for t
    using that all p(2) s(1) sr ContainsTx_cong[of w w2] by (auto simp: same_records_def)
  then have "wallet_ok w2" using r s(3) by (simp add: wallet_ok_def)
  then show ?thesis using UpdateBalance_inv'(1)[OF w(3)] r(5) by blast
qed

section \<open>Steps\<close>

text \<open>
  An operation of the wallet, from one state to the next, at its time and with its random numbers. A message
  has fewer than \<open>2 ^ 32\<close> outputs, and heights of blocks are below that of an unconfirmed transaction.
\<close>

inductive wallet_step :: "BRWallet \<Rightarrow> BRWallet \<Rightarrow> bool" where
  register: "BRWalletRegisterTransaction E w tx = Inr (r, w', evs) \<Longrightarrow> length (tx_outputs tx) < 2 ^ 32 \<Longrightarrow> wallet_step w w'"
| remove: "BRWalletRemoveTransaction E w h = Inr (w', evs) \<Longrightarrow> wallet_step w w'"
| update: "BRWalletUpdateTransactions E w hs b s = Inr (w', evs) \<Longrightarrow> wallet_step w w'"
| unconfirm: "BRWalletSetTxUnconfirmedAfter E w b = Inr (w', evs) \<Longrightarrow> b \<le> TX_UNCONFIRMED \<Longrightarrow> wallet_step w w'"
| addresses: "BRWalletUnusedAddrs E w gapLimit internal = Inr (addrs, w') \<Longrightarrow> wallet_step w w'"
| create: "BRWalletCreateTxForOutputs E w rs outputs = Inr (result, w') \<Longrightarrow> wallet_step w w'"
| fee: "wallet_step w (BRWalletSetFeePerKb w feePerKb)"
| callbacks: "wallet_step w (BRWalletSetCallbacks w cbs)"

text \<open>
  A wallet starts with stored transactions, all of which concern it; the code checks this of the first one.
\<close>

inductive wallet_reach :: "BRWallet \<Rightarrow> bool" where
  new: "BRWalletNew E txs mpk = Inr (Some w) \<Longrightarrow> \<forall>t \<in> set txs. length (tx_outputs t) < 2 ^ 32 \<Longrightarrow>
    \<forall>t \<in> set txs. BRTransactionIsSigned t \<longrightarrow> ContainsTx w t \<Longrightarrow> wallet_reach w"
| step: "wallet_reach w \<Longrightarrow> wallet_step w w' \<Longrightarrow> wallet_reach w'"

inductive_cases wallet_stepE: "wallet_step w w'"

lemma wallet_inv_settings:
  "wallet_inv (w\<lparr>w_feePerKb := f\<rparr>) = wallet_inv w" "wallet_inv (w\<lparr>w_callbacks := cbs\<rparr>) = wallet_inv w"
proof -
  have c: "wallet_inv w' = wallet_inv w"
    if s: "w_allTx w' = w_allTx w" "w_allAddrs w' = w_allAddrs w" "w_transactions w' = w_transactions w"
      "w_internalChain w' = w_internalChain w" "w_externalChain w' = w_externalChain w"
      "w_utxos w' = w_utxos w" "w_balance w' = w_balance w" for w'
    using wallet_ok_cong[OF s(1-5)] tx_sorted_cong[OF s(1,3)] wallet_output_cong[OF s(1,2)] s
    by (simp add: wallet_inv_def utxos_live_def)
  show "wallet_inv (w\<lparr>w_feePerKb := f\<rparr>) = wallet_inv w" "wallet_inv (w\<lparr>w_callbacks := cbs\<rparr>) = wallet_inv w"
    by (rule c; simp)+
qed

lemma create_inv:
  assumes "BRWalletCreateTxForOutputs E w rs outputs = Inr (result, w')" "wallet_inv w"
  shows "wallet_inv w'"
proof -
  have "CreateTxForOutputs E w rs outputs = Some (Inr (result, w'))"
    using assms(1) by (auto simp: BRWalletCreateTxForOutputs_def returning_def split: option.splits)
  then obtain outs where "ends E w rs outs result w'" using CreateTxForOutputs_ends by (fastforce simp: create_ends_def)
  then consider "w' = w" | addrs where "BRWalletUnusedAddrs E w 1 True = Inr (addrs, w')"
    by (auto simp: ends_def add_change_def rbind_eq_Inr_conv split: if_splits option.splits)
  then show ?thesis using assms(2) UnusedAddrs_inv by cases auto
qed

lemma Remove_inv:
  assumes "BRWalletRemoveTransaction E w h = Inr (w', evs)" "wallet_inv w"
  shows "removed w h w'" "tx_get (w_allTx w) h = Some tx \<Longrightarrow> no_dependents w' tx"
  using Remove_ok[OF assms(1)[unfolded BRWalletRemoveTransaction_def]] assms(2) by auto

lemma wallet_step_inv: "wallet_step w w' \<Longrightarrow> wallet_inv w \<Longrightarrow> wallet_inv w'"
proof (induction rule: wallet_step.induct)
  case remove
  then show ?case using Remove_inv(1) by (auto simp: removed_def)
qed (simp_all add: Register_inv UpdateTransactions_inv SetTxUnconfirmedAfter_inv UnusedAddrs_inv create_inv
      BRWalletSetFeePerKb_def BRWalletSetCallbacks_def wallet_inv_settings)

section \<open>Properties of reachable wallets\<close>


text \<open>A wallet whose curve library reads no public key, so that it has no addresses.\<close>

definition mute_env :: env where
  "mute_env = demo_env\<lparr>env_secp := toy_secp256k1\<lparr>ec_pubkey_parse := \<lambda>p. None\<rparr>\<rparr>"

definition mute_mpk :: BRMasterPubKey where
  "mute_mpk = BR_MASTER_PUBKEY_NONE\<lparr>mpk_fingerPrint := 1\<rparr>"

lemma mute_address: "chain_address mute_env mute_mpk internal k = Inr None"
  by (simp add: chain_address_def BRBIP32PubKey_def CKDpub_def BRSecp256k1PointAdd_def BRKeySetPubKey_def mute_env_def
      mute_mpk_def BR_MASTER_PUBKEY_NONE_def split_def)

lemma mute_addrs:
  assumes "w_masterPubKey w = mute_mpk" "0 < n" "chain_of internal w = []"
  shows "BRWalletUnusedAddrs mute_env w n internal = Inr ([], w)"
proof -
  have "extend_chain mute_env mute_mpk internal used n 0 [] = Some (Inr (0, []))" for used
    using assms(2) by (subst extend_chain.simps) (simp add: mute_address)
  then show ?thesis
    using assms by (auto simp: BRWalletUnusedAddrs_def returning_def last_used_def chain_of_def Let_def)
qed

lemma mute_new: "BRWalletNew mute_env [] mute_mpk = Inr (Some (new_wallet mute_mpk))"
  by (simp add: BRWalletNew_def extend_chains_def mute_addrs new_wallet_def chain_of_def
      SEQUENCE_GAP_LIMIT_EXTERNAL_def SEQUENCE_GAP_LIMIT_INTERNAL_def UpdateBalance_def bal_init_def)



lemma demo_wallet_inv: "wallet_inv demo_wallet"
  using demo_wallet_ok
  by (simp add: wallet_inv_def tx_sorted_def tx_height_def tx_get_def utxos_live_def demo_defs)

lemma demo_Remove: "\<exists>w evs. BRWalletRemoveTransaction demo_env demo_wallet 3 = Inr (w, evs) \<and> w_transactions w = [1, 2]"
  by (simp add: BRWalletRemoveTransaction_def removal_notice_def BRWalletAmountSentByTx_def wallet_output_def
      BRWalletTransactionIsValid_def tx_fuel_def BRWalletTransactionForHash_def BRTransactionIsSigned_def UInt256IsZero_def
      UpdateBalance_def tx_ref_def tx_get_def bal_step_def bal_invalid_def bal_pending_def bal_accept_def
      bal_skip_def add_output_def tx_postdated_def input_postdated_def output_ref_def outpoint_def bal_init_def
      BRTransactionSize_def varint_size_def BRVarIntSize_def input_size_def output_size_def TX_MAX_SIZE_def
      TX_MIN_OUTPUT_AMOUNT_def TX_FEE_PER_KB_def TX_OUTPUT_SIZE_def TX_INPUT_SIZE_def BRVarIntSet_def
      varint_bytes_def Let_def RemoveTransaction.simps(2)[of 4, simplified]
      TransactionIsValid.simps(2)[of 3, simplified] demo_defs)


text \<open>
  C30: asking for unused addresses returns, when from some index on enough addresses are unused. It extends the
  chain by the addresses that are derived at the next indexes, and the set of addresses by the same ones,
  whether or not the memory of the chain moves. The addresses that it gives are as many as asked for, follow
  each other in the chain right after the last used one, and none of them is used; there are none only when a
  key cannot be derived.
\<close>

theorem UnusedAddrs_correct:
  assumes "wallet_inv w" "0 < gapLimit"
    and "gap_at E (w_masterPubKey w) internal (w_usedAddrs w) gapLimit n" "length (chain_of internal w) \<le> n + gapLimit"
    and "last_used (w_usedAddrs w) (chain_of internal w) \<le> n"
  shows "\<exists>addrs w' chain' i. BRWalletUnusedAddrs E w gapLimit internal = Inr (addrs, w') \<and>
    chain_extends E (w_masterPubKey w) internal (chain_of internal w) chain' \<and>
    w' = with_chain internal chain' w \<and> (0 < i \<longrightarrow> chain' ! (i - 1) \<in> w_usedAddrs w) \<and>
    (\<forall>a \<in> set (drop i chain'). a \<notin> w_usedAddrs w) \<and>
    (length addrs = gapLimit \<and> addrs = take gapLimit (drop i chain') \<or>
     addrs = [] \<and> chain_address E (w_masterPubKey w) internal (length chain') = Inr None)"
proof -
  let ?chain = "chain_of internal w"
  have "last_used (w_usedAddrs w) ?chain \<le> length ?chain" by (simp add: last_used_def)
  then obtain r where "extend_chain E (w_masterPubKey w) internal (w_usedAddrs w) gapLimit
      (last_used (w_usedAddrs w) ?chain) ?chain = Some (Inr r)"
    using extend_chain_returns[OF assms(3), of ?chain "last_used (w_usedAddrs w) ?chain"] assms(4,5) by blast
  then obtain addrs w' where u: "BRWalletUnusedAddrs E w gapLimit internal = Inr (addrs, w')"
    using assms(2) by (cases r) (auto simp: BRWalletUnusedAddrs_def chain_of_def returning_def Let_def)
  have "w_allAddrs w = set (w_internalChain w) \<union> set (w_externalChain w)"
    using assms(1) by (simp add: wallet_inv_def wallet_ok_def)
  from UnusedAddrs_result[OF u this] obtain i chain' where
    c: "chain_extends E (w_masterPubKey w) internal ?chain chain'" "after_used (w_usedAddrs w) chain' i"
    "w' = with_chain internal chain' w"
    "i + gapLimit \<le> length chain' \<and> addrs = take gapLimit (drop i chain') \<or>
     chain_address E (w_masterPubKey w) internal (length chain') = Inr None \<and> addrs = []"
    by metis
  show ?thesis
    by (rule exI[of _ addrs], rule exI[of _ w'], rule exI[of _ chain'], rule exI[of _ i])
      (use u c in \<open>auto simp: after_used_def\<close>)
qed

lemma mute_inv: "wallet_inv (new_wallet mute_mpk)"
  by (simp add: wallet_inv_def wallet_ok_def few_outputs_def tx_sorted_def utxos_live_def new_wallet_def)

theorem UnusedAddrs_correct_witness:
  "\<exists>addrs w'. BRWalletUnusedAddrs mute_env (new_wallet mute_mpk) 5 True = Inr (addrs, w')"
proof -
  have "gap_at mute_env (w_masterPubKey (new_wallet mute_mpk)) True (w_usedAddrs (new_wallet mute_mpk)) 5 0"
    by (simp add: gap_at_def new_wallet_def mute_address)
  then show ?thesis
    using UnusedAddrs_correct[OF mute_inv, of 5 mute_env True 0]
    by (auto simp: chain_of_def new_wallet_def last_used_def)
qed

end
