(* ===== verification/BRWalletLoop.thy ===== *)
theory BRWalletLoop
  imports BRWalletCreate
begin

text \<open>
  A wallet for which the creation of a transaction does not return. It has more unspent outputs than fit in a
  transaction, and the amount asked for is about what those that fit are worth. The amount is reduced so that
  they pay for it with the fee of the attempt before; but the fee is raised to round off what remains in the
  wallet, and the reduced amount leaves another remainder, so that the next attempt has another fee, and fails
  in the same way.
\<close>

section \<open>The wallet\<close>

definition big_wallet :: BRWallet where
  "big_wallet = (new_wallet BR_MASTER_PUBKEY_NONE)
     \<lparr>w_allTx := [demo_tx 1 9 (replicate 676 (''A'', 1000001)) 100], w_transactions := [1],
      w_externalChain := [''A''], w_allAddrs := {''A''}, w_utxos := map (\<lambda>j. (1, of_nat j)) [0..<676],
      w_balance := 676 * 1000001\<rparr>"

definition big_output :: "nat \<Rightarrow> BRTxOutput" where
  "big_output r = zero_output\<lparr>to_amount := of_nat (674001075 - r), to_script := Some [0x51]\<rparr>"

definition big_input :: "nat \<Rightarrow> BRTxInput" where
  "big_input j = zero_input\<lparr>ti_txHash := 1, ti_index := of_nat j, ti_amount := 1000001, ti_sequence := TXIN_SEQUENCE\<rparr>"

definition big_tx :: "nat \<Rightarrow> nat \<Rightarrow> BRTransaction" where
  "big_tx r j = BRTransactionNew\<lparr>tx_outputs := [big_output r], tx_inputs := map big_input [0..<j]\<rparr>"

section \<open>Machine words as numbers\<close>

lemma u64_of_nat:
  assumes "a < 2 ^ 64" "b < 2 ^ 64"
  shows "(of_nat a :: u64) < of_nat b \<longleftrightarrow> a < b" "(of_nat a :: u64) \<le> of_nat b \<longleftrightarrow> a \<le> b"
    "(of_nat a :: u64) = of_nat b \<longleftrightarrow> a = b" "(of_nat a :: u64) mod of_nat b = of_nat (a mod b)"
    "(of_nat a :: u64) div of_nat b = of_nat (a div b)"
proof -
  have u: "unat (of_nat a :: u64) = a" "unat (of_nat b :: u64) = b" using assms by (simp_all add: unat_of_nat)
  show "(of_nat a :: u64) < of_nat b \<longleftrightarrow> a < b" "(of_nat a :: u64) \<le> of_nat b \<longleftrightarrow> a \<le> b"
    by (simp_all add: word_less_nat_alt word_le_nat_alt u)
  show "(of_nat a :: u64) = of_nat b \<longleftrightarrow> a = b" using u by metis
  have "a mod b < 2 ^ 64" "a div b < 2 ^ 64"
    using assms(1) by (metis mod_less_eq_dividend div_le_dividend le_less_trans)+
  then have "unat (of_nat (a mod b) :: u64) = a mod b" "unat (of_nat (a div b) :: u64) = a div b"
    by (simp_all add: unat_of_nat)
  then show "(of_nat a :: u64) mod of_nat b = of_nat (a mod b)" "(of_nat a :: u64) div of_nat b = of_nat (a div b)"
    by (intro unsigned_word_eqI[where 'a = nat]; simp only: unat_mod unat_div u)+
qed

lemma txFee_of_nat:
  assumes "len < 10 ^ 6"
  shows "txFee 10000 len = of_nat (max len ((len * 10 + 99) div 100 * 100))"
proof -
  have 1: "of_nat len * TX_FEE_PER_KB div 1000 = (of_nat len :: u64)"
    using u64_of_nat(5)[of "len * 1000" 1000] assms by (simp add: TX_FEE_PER_KB_def)
  have 2: "of_nat len * 10000 div 1000 = (of_nat (len * 10) :: u64)"
    using u64_of_nat(5)[of "len * 10000" 1000] assms by simp
  have 3: "(of_nat (len * 10) + 99) div 100 * 100 = (of_nat ((len * 10 + 99) div 100 * 100) :: u64)"
    using u64_of_nat(5)[of "len * 10 + 99" 100] assms by simp
  have "(len * 10 + 99) div 100 * 100 < 2 ^ 64" using assms by (simp add: order.strict_trans1[OF div_times_less_eq_dividend])
  then show ?thesis
    unfolding txFee_def 1 2 3 Let_def using u64_of_nat(1)[of len "(len * 10 + 99) div 100 * 100"] assms by (simp add: max_def)
qed

section \<open>An attempt\<close>

lemma big_ref:
  assumes "j < 676"
  shows "output_ref (w_allTx big_wallet) (1, of_nat j) = Inr (zero_output\<lparr>to_address := ''A'', to_amount := 1000001\<rparr>)"
proof -
  have "unat (of_nat j :: u32) = j" using assms by (simp add: unat_of_nat)
  then show ?thesis
    using assms by (simp add: output_ref_def tx_ref_def tx_get_def big_wallet_def demo_tx_def)
qed

lemma big_add_input:
  "BRTransactionAddInput (big_tx r j) 1 (of_nat j) 1000001 None None TXIN_SEQUENCE = Inr (big_tx r (Suc j))"
  by (simp add: BRTransactionAddInput_def UInt256IsZero_def big_tx_def big_input_def zero_input_def BRTransactionNew_def)

lemma big_add_outputs: "add_outputs [big_output r] BRTransactionNew 0 = Inr (big_tx r 0, of_nat (674001075 - r))"
  by (simp add: big_output_def big_tx_def BRTransactionAddOutput_def BRTxOutputSetScript_def script_address_def rich_script
      zero_output_def BRTransactionNew_def)

lemma big_size:
  assumes "j \<le> 676"
  shows "BRTransactionSize (big_tx r j) = (if j < 253 then 20 else 22) + 148 * j"
proof -
  have "varint_size j = (if j < 253 then 1 else 3)"
    using assms by (simp add: varint_size_def BRVarIntSize_def BRVarIntSet_def varint_bytes_def VAR_INT16_HEADER_def VAR_INT32_HEADER_def VAR_INT64_HEADER_def u64_of_nat[of j 253, simplified]
        u64_of_nat[of j 65535, simplified] Let_def)
  moreover have "sum_list (map input_size (map big_input [0..<j])) = 148 * j"
    by (induction j) (simp_all add: big_input_def zero_input_def input_size_def TX_INPUT_SIZE_def)
  moreover have "output_size (big_output r) = 10" "varint_size 1 = 1"
    by (simp_all add: big_output_def output_size_def varint_size_def BRVarIntSize_def BRVarIntSet_def varint_bytes_def
        VAR_INT16_HEADER_def Let_def)
  ultimately show ?thesis by (simp add: BRTransactionSize_sum big_tx_def BRTransactionNew_def)
qed

text \<open>The fee after the \<open>j\<close>-th input; the remainder of the wallet is what the amount leaves of it.\<close>

definition base_fee :: "nat \<Rightarrow> nat" where
  "base_fee j = (let len = (if j < 253 then 20 else 22) + 148 * j + 34 in (len * 10 + 99) div 100 * 100)"

definition big_fee :: "nat \<Rightarrow> nat \<Rightarrow> nat" where
  "big_fee r j = base_fee j + (676000676 - (674001075 - r + base_fee j)) mod 100"

lemma base_fee_less: "j \<le> 675 \<Longrightarrow> base_fee j \<le> 999600"
proof -
  assume j: "j \<le> 675"
  define len where "len = (if j < 253 then 20 else 22) + 148 * j + 34"
  have "len \<le> 99956" using j by (simp add: len_def)
  then have "(len * 10 + 99) div 100 \<le> 9996" by simp
  then show ?thesis unfolding base_fee_def Let_def len_def[symmetric] by simp
qed

lemma big_round_fee:
  assumes "j \<le> 675" "r < 100"
  shows "round_fee big_wallet (of_nat (674001075 - r)) (big_tx r j) = of_nat (big_fee r j)"
proof -
  let ?len = "(if j < 253 then 20 else 22) + 148 * j + 34"
  have len: "?len < 10 ^ 6" using assms(1) by simp
  have "?len \<le> base_fee j" by (simp add: base_fee_def Let_def)
  then have f: "txFee 10000 (BRTransactionSize (big_tx r j) + 34) = of_nat (base_fee j)"
    using txFee_of_nat[OF len] big_size[of j r] assms(1) by (simp add: base_fee_def Let_def max_def split: if_splits)
  have lt: "674001075 - r + base_fee j < 676000676" using base_fee_less[OF assms(1)] by simp
  have "(of_nat (674001075 - r) + of_nat (base_fee j) :: u64) < 676000676"
    using u64_of_nat(1)[of "674001075 - r + base_fee j" 676000676] lt by simp
  moreover have "(676000676 - (of_nat (674001075 - r) + of_nat (base_fee j)) :: u64) =
      of_nat (676000676 - (674001075 - r + base_fee j))"
    using lt by (simp add: of_nat_diff)
  moreover have "(of_nat (676000676 - (674001075 - r + base_fee j)) :: u64) mod 100 =
      of_nat ((676000676 - (674001075 - r + base_fee j)) mod 100)"
    using u64_of_nat(4)[of "676000676 - (674001075 - r + base_fee j)" 100] by simp
  ultimately show ?thesis
    using f by (simp add: round_fee_def big_fee_def Let_def TX_OUTPUT_SIZE_def big_wallet_def new_wallet_def
        DEFAULT_FEE_PER_KB_def TX_FEE_PER_KB_def)
qed

lemma big_fee_last: "r < 100 \<Longrightarrow> big_fee r 675 = 999600 + (r + 1) mod 100"
proof -
  assume r: "r < 100"
  have "base_fee 675 = 999600" by (simp add: base_fee_def)
  moreover have "(676000676 - (674001075 - r + 999600)) mod 100 = (r + 1) mod 100"
  proof -
    have "676000676 - (674001075 - r + 999600) = 1000001 + r" using r by simp
    also have "... = r + 1 + 100 * 10000" by simp
    finally show ?thesis by (simp only: mod_mult_self2)
  qed
  ultimately show ?thesis by (simp add: big_fee_def)
qed

lemma big_fee_less: "j \<le> 675 \<Longrightarrow> base_fee j \<le> big_fee r j \<and> big_fee r j < 1000000"
proof -
  assume "j \<le> 675"
  moreover have "x mod 100 < 100" for x :: nat by simp
  from this[of "676000676 - (674001075 - r + base_fee j)"]
  show ?thesis using base_fee_less[OF \<open>j \<le> 675\<close>] by (simp add: big_fee_def)
qed

text \<open>The transaction grows until it has 675 inputs; the next one is too large.\<close>

lemma big_pick_last:
  assumes "r < 100"
  shows "pick_inputs big_wallet 5460 (of_nat (674001075 - r)) 1 [(1, of_nat 675)] (big_tx r 675) bal fee =
    Inr (TooLarge bal fee)"
proof -
  have "TX_MAX_SIZE < BRTransactionSize (big_tx r 676) + TX_OUTPUT_SIZE"
    by (simp add: big_size TX_MAX_SIZE_def TX_OUTPUT_SIZE_def)
  moreover have "\<not> w_balance big_wallet < of_nat (674001075 - r) + txFee (w_feePerKb big_wallet)
      (10 + length (w_utxos big_wallet) * TX_INPUT_SIZE + (1 + 1) * TX_OUTPUT_SIZE)"
  proof -
    have "674001075 - r + 1001300 \<le> 676000676" using assms by simp
    then have "\<not> (676000676 :: u64) < of_nat (674001075 - r) + 1001300"
      using u64_of_nat(1)[of 676000676 "674001075 - r + 1001300"] by simp
    moreover have "txFee 10000 100126 = 1001300" using txFee_of_nat[of 100126] by simp
    ultimately show ?thesis
      by (simp add: big_wallet_def new_wallet_def DEFAULT_FEE_PER_KB_def TX_FEE_PER_KB_def TX_INPUT_SIZE_def TX_OUTPUT_SIZE_def)
  qed
  ultimately show ?thesis using big_ref[of 675] big_add_input[of r 675]
    by (simp add: rbind_def zero_output_def)
qed

lemma big_step:
  assumes "j < 675" "r < 100"
  shows "pick_inputs big_wallet 5460 (of_nat (674001075 - r)) 1 ((1, of_nat j) # us) (big_tx r j) (of_nat (j * 1000001)) fee =
    (let bal = of_nat (Suc j * 1000001); fee = of_nat (big_fee r (Suc j)) in
     if bal = of_nat (674001075 - r) + fee \<or> of_nat (674001075 - r) + fee + 5460 \<le> bal
     then Inr (Picked (big_tx r (Suc j)) bal fee)
     else pick_inputs big_wallet 5460 (of_nat (674001075 - r)) 1 us (big_tx r (Suc j)) bal fee)"
proof -
  have s: "\<not> TX_MAX_SIZE < BRTransactionSize (big_tx r (Suc j)) + TX_OUTPUT_SIZE"
    using assms(1) by (simp add: big_size TX_MAX_SIZE_def TX_OUTPUT_SIZE_def)
  have f: "(let fee = txFee (w_feePerKb big_wallet) (BRTransactionSize (big_tx r (Suc j)) + TX_OUTPUT_SIZE)
      in if of_nat (674001075 - r) + fee < w_balance big_wallet
         then fee + (w_balance big_wallet - (of_nat (674001075 - r) + fee)) mod 100 else fee) = of_nat (big_fee r (Suc j))"
    using big_round_fee[of "Suc j" r] assms unfolding round_fee_def by simp
  have b: "of_nat (j * 1000001) + 1000001 = (of_nat (Suc j * 1000001) :: u64)" by (simp add: algebra_simps)
  have a: "BRTransactionAddInput (big_tx r j) (fst (1, of_nat j)) (snd (1, of_nat j)) 1000001
      (to_script (zero_output\<lparr>to_address := ''A'', to_amount := 1000001\<rparr>)) None TXIN_SEQUENCE = Inr (big_tx r (Suc j))"
    using big_add_input[of r j] by (simp add: zero_output_def)
  have o': "to_amount (zero_output\<lparr>to_address := ''A'', to_amount := 1000001\<rparr>) = 1000001" by simp
  show ?thesis using assms(1) f
    by (simp only: pick_inputs.simps big_ref sum.case a rbind_Inr s if_False Let_def o' b)
qed

lemma big_pick:
  assumes "j \<le> 675" "r < 100"
  shows "j = 675 \<longrightarrow> fee = of_nat (big_fee r 675) \<Longrightarrow>
    pick_inputs big_wallet 5460 (of_nat (674001075 - r)) 1 (map (\<lambda>j. (1, of_nat j)) [j..<676]) (big_tx r j)
      (of_nat (j * 1000001)) fee = Inr (TooLarge 675000675 (of_nat (big_fee r 675)))"
  using assms(1)
proof (induction j arbitrary: fee rule: inc_induct)
  case base
  then show ?case using big_pick_last[OF assms(2), of "of_nat (675 * 1000001)"] by (simp add: upt_rec)
next
  case (step j)
  let ?f = "big_fee r (Suc j)" and ?A = "674001075 - r"
  have "?f < 1000000" "Suc j = 675 \<Longrightarrow> ?f = 999600 + (r + 1) mod 100"
    using step.hyps big_fee_less[of "Suc j" r] big_fee_last[OF assms(2)] by auto
  then have n: "Suc j * 1000001 \<noteq> ?A + ?f \<and> \<not> ?A + ?f + 5460 \<le> Suc j * 1000001"
  proof (cases "Suc j = 675")
    case True
    then have "?A + ?f = 675000675 - r + (r + 1) mod 100"
      using \<open>Suc j = 675 \<Longrightarrow> _\<close> assms(2) by simp
    moreover have "(r + 1) mod 100 \<noteq> r" using assms(2) by (cases "r = 99") simp_all
    ultimately show ?thesis using True assms(2) by auto
  next
    case False
    then have "Suc j * 1000001 \<le> 674 * 1000001" using step.hyps by (intro mult_le_mono1) simp
    then have "Suc j * 1000001 < ?A" using assms(2) by simp
    then show ?thesis by linarith
  qed
  have lt: "Suc j * 1000001 < 2 ^ 64" "?A + ?f + 5460 < 2 ^ 64" using step.hyps \<open>?f < 1000000\<close> by auto
  have "(of_nat (Suc j * 1000001) :: u64) \<noteq> of_nat ?A + of_nat ?f"
    "\<not> (of_nat ?A + of_nat ?f + 5460 :: u64) \<le> of_nat (Suc j * 1000001)"
    using n lt u64_of_nat(3)[of "Suc j * 1000001" "?A + ?f"] u64_of_nat(2)[of "?A + ?f + 5460" "Suc j * 1000001"] by simp_all
  then show ?case using step.IH step.hyps big_step[OF _ assms(2), of j]
    by (simp add: upt_conv_Cons[of j] Let_def del: of_nat_mult of_nat_Suc)
qed

lemma big_less:
  assumes "r < 100"
  shows "less_outputs 5460 (of_nat (674001075 - r)) [big_output r] 675000675 (of_nat (big_fee r 675)) =
    [big_output ((r + 1) mod 100)]"
proof (cases "r = 99")
  case True
  then show ?thesis by (simp add: less_outputs_def big_output_def big_fee_last)
next
  case False
  then have r: "Suc r mod 100 = Suc r" "r < 99" using assms by simp_all
  have A: "(of_nat (674001075 - r) :: u64) = 674001075 - of_nat r" "(of_nat (674001074 - r) :: u64) = 674001074 - of_nat r"
    using assms by (simp_all add: of_nat_diff del: of_nat_Suc)
  have "(5461 :: u64) < of_nat (674001075 - r)" using u64_of_nat(1)[of 5461 "674001075 - r"] r(2) by simp
  then show ?thesis by (simp add: less_outputs_def big_output_def zero_output_def big_fee_last[OF assms] r(1) A)
qed

lemma big_wallet_inv: "wallet_inv big_wallet"
proof -
  have "wallet_output big_wallet (1, of_nat j) \<noteq> None" "utxo_amount (w_allTx big_wallet) (1, of_nat j) = 1000001"
    if "j < 676" for j
    using that big_ref[of j] by (simp_all add: wallet_output_def tx_get_def unat_of_nat utxo_amount_def big_wallet_def demo_tx_def)
  then have o': "list_all (\<lambda>j. wallet_output big_wallet (1, of_nat j) \<noteq> None) [0..<676]"
    "map (utxo_amount (w_allTx big_wallet) \<circ> (\<lambda>j. (1, of_nat j))) [0..<676] = map (\<lambda>_. 1000001) [0..<676]"
    by (auto simp: list_all_iff)
  have "inj_on (\<lambda>j. (1 :: UInt256, of_nat j :: u32)) (set [0..<676])"
    by (intro inj_onI) (auto simp: word_of_nat_eq_iff take_bit_nat_eq_self)
  then have d: "distinct (w_utxos big_wallet)" by (simp add: big_wallet_def distinct_map)
  have "w_balance big_wallet = sum_list (map (utxo_amount (w_allTx big_wallet)) (w_utxos big_wallet))"
    using o'(2) by (simp add: big_wallet_def sum_list_replicate map_replicate_const del: upt_conv_Cons)
  moreover have "\<forall>u \<in> set (w_utxos big_wallet). fst u \<in> set (w_transactions big_wallet) \<and> wallet_output big_wallet u \<noteq> None"
    using o'(1) by (auto simp: big_wallet_def list_all_iff)
  ultimately have "utxos_live big_wallet" using d by (simp add: utxos_live_def)
  moreover have "wallet_ok big_wallet \<and> tx_sorted big_wallet"
    by (simp add: wallet_ok_def tx_sorted_def few_outputs_def ContainsTx_def list_ex_iff big_wallet_def demo_defs)
  ultimately show ?thesis by (simp add: wallet_inv_def)
qed

text \<open>An attempt that pays \<open>big_output r\<close> is followed by one that pays \<open>big_output ((r + 1) mod 100)\<close>.\<close>

definition big_loop :: "env \<Rightarrow> BRWallet \<Rightarrow> u32 list \<Rightarrow> BRTxOutput list \<Rightarrow> (BRTransaction option \<times> BRWallet) res \<Rightarrow> bool" where
  "big_loop E w rs outputs _ \<longleftrightarrow> \<not> (w = big_wallet \<and> (\<exists>r < 100. outputs = [big_output r]))"

lemma big_minAmount: "BRWalletMinOutputAmount big_wallet = 5460"
  by (simp add: big_wallet_def new_wallet_def BRWalletMinOutputAmount_def DEFAULT_FEE_PER_KB_def TX_FEE_PER_KB_def
      TX_MIN_OUTPUT_AMOUNT_def MIN_FEE_PER_KB_def TX_OUTPUT_SIZE_def TX_INPUT_SIZE_def Let_def)

lemma big_attempt:
  assumes "r < 100"
  shows "pick_inputs big_wallet (BRWalletMinOutputAmount big_wallet) (of_nat (674001075 - r)) (length [big_output r])
      (w_utxos big_wallet) (big_tx r 0) 0
      (txFee (w_feePerKb big_wallet) (BRTransactionSize (big_tx r 0) + TX_OUTPUT_SIZE)) =
    Inr (TooLarge 675000675 (of_nat (big_fee r 675)))"
proof -
  have u: "w_utxos big_wallet = map (\<lambda>j. (1, of_nat j)) [0..<676]" by (simp add: big_wallet_def)
  have "length [big_output r] = 1" "of_nat (0 * 1000001) = (0 :: u64)" by simp_all
  with big_pick[of 0 r] assms show ?thesis by (simp only: big_minAmount u) simp
qed

lemma big_loop_never:
  assumes "CreateTxForOutputs E w rs outputs = Some r"
  shows "big_loop E w rs outputs r"
proof (rule CreateTxForOutputs.raw_induct[where P = big_loop, OF _ assms])
  fix create E w rs outputs r
  assume IH: "\<And>E w rs outputs r. create E w rs outputs = Some r \<Longrightarrow> big_loop E w rs outputs r"
    and r: "(let minAmount = BRWalletMinOutputAmount w in
      if outputs = [] then Some (Inl AssertFailed)
      else case add_outputs outputs BRTransactionNew 0 of
        Inl e \<Rightarrow> Some (Inl e)
      | Inr (transaction, amount) \<Rightarrow>
      (case pick_inputs w minAmount amount (length outputs) (w_utxos w) transaction 0
              (txFee (w_feePerKb w) (BRTransactionSize transaction + TX_OUTPUT_SIZE)) of
        Inl e \<Rightarrow> Some (Inl e)
      | Inr NoFunds \<Rightarrow> Some (Inr (None, w))
      | Inr (TooLarge balance feeAmount) \<Rightarrow>
          create E w rs (less_outputs minAmount amount outputs balance feeAmount)
      | Inr (Picked transaction balance feeAmount) \<Rightarrow>
          Some (if balance < amount + feeAmount then Inr (None, w)
                else if minAmount < balance - (amount + feeAmount)
                then add_change E w transaction (balance - (amount + feeAmount)) rs
                else Inr (Some transaction, w)))) = Some r"
  have "False" if w: "w = big_wallet" and o': "outputs = [big_output k]" and k: "k < 100" for k
  proof -
    have "create E big_wallet rs (less_outputs (BRWalletMinOutputAmount big_wallet) (of_nat (674001075 - k)) [big_output k]
        675000675 (of_nat (big_fee k 675))) = Some r"
      using r by (simp only: w o' big_add_outputs Let_def sum.case prod.case big_attempt[OF k] pick.case list.distinct if_False)
    then have "create E big_wallet rs [big_output ((k + 1) mod 100)] = Some r" by (simp only: big_minAmount big_less[OF k])
    moreover have "(k + 1) mod 100 < 100" by simp
    ultimately show False using IH unfolding big_loop_def by blast
  qed
  then show "big_loop E w rs outputs r" by (auto simp: big_loop_def)
qed

text \<open>
  C37: the creation of a transaction need not return. The wallet meets its invariant and its balance is more
  than the amount, yet every attempt is too large and is followed by another.
\<close>

theorem CreateTx_no_return:
  "wallet_inv big_wallet \<and> paid [big_output 0] < w_balance big_wallet \<and>
   BRWalletCreateTxForOutputs E big_wallet rs [big_output 0] = Inl NoReturn"
proof -
  have "CreateTxForOutputs E big_wallet rs [big_output 0] \<noteq> Some r" for r
  proof
    assume "CreateTxForOutputs E big_wallet rs [big_output 0] = Some r"
    from big_loop_never[OF this] have "\<And>k. k < 100 \<Longrightarrow> big_output 0 \<noteq> big_output k" by (auto simp: big_loop_def)
    from this[of 0] show False by simp
  qed
  then have "CreateTxForOutputs E big_wallet rs [big_output 0] = None" by (meson not_Some_eq)
  moreover have "paid [big_output 0] < w_balance big_wallet"
    by (simp add: paid_def big_output_def big_wallet_def)
  ultimately show ?thesis using big_wallet_inv by (simp add: BRWalletCreateTxForOutputs_def returning_def)
qed

end
