(* ===== verification/BRMerkleBlock.thy ===== *)
theory BRMerkleBlock
  imports BRTransaction
begin

text \<open>
  \<open>BRMerkleBlock.c\<close>: block headers with a partial merkle tree. The two arrays of a block are lists, or
  \<open>None\<close> for a null pointer; their counts are fields of their own, which a message sets to any value, so
  every access is checked against the list. Sizes are of type \<open>size_t\<close> and wrap around.
\<close>

section \<open>The data\<close>

record BRMerkleBlock =
  mb_blockHash :: UInt256
  mb_version :: u32
  mb_prevBlock :: UInt256
  mb_merkleRoot :: UInt256
  mb_timestamp :: u32
  mb_target :: u32
  mb_nonce :: u32
  mb_totalTx :: u32
  mb_hashes :: "UInt256 list option"
  mb_hashesCount :: nat
  mb_flags :: "bytes option"
  mb_flagsLen :: nat
  mb_height :: u32

definition BLOCK_DIFFICULTY_INTERVAL :: u32 where "BLOCK_DIFFICULTY_INTERVAL = 2016"
definition BLOCK_UNKNOWN_HEIGHT :: u32 where "BLOCK_UNKNOWN_HEIGHT = 0x7fffffff"
definition BLOCK_MAX_TIME_DRIFT :: u32 where "BLOCK_MAX_TIME_DRIFT = 2 * 60 * 60"
definition MAX_PROOF_OF_WORK :: u32 where "MAX_PROOF_OF_WORK = 0x1d00ffff"
definition TARGET_TIMESPAN :: int where "TARGET_TIMESPAN = 14 * 24 * 60 * 60"

definition BR_MERKLE_BLOCK_NONE :: BRMerkleBlock where
  "BR_MERKLE_BLOCK_NONE = \<lparr>mb_blockHash = 0, mb_version = 0, mb_prevBlock = 0, mb_merkleRoot = 0, mb_timestamp = 0,
     mb_target = 0, mb_nonce = 0, mb_totalTx = 0, mb_hashes = None, mb_hashesCount = 0, mb_flags = None,
     mb_flagsLen = 0, mb_height = 0\<rparr>"

definition BRMerkleBlockNew :: BRMerkleBlock where
  "BRMerkleBlockNew = BR_MERKLE_BLOCK_NONE\<lparr>mb_height := BLOCK_UNKNOWN_HEIGHT\<rparr>"

definition BRMerkleBlockHash :: "BRMerkleBlock \<Rightarrow> nat" where
  "BRMerkleBlockHash block = unat (ucast (mb_blockHash block) :: u32)"

definition BRMerkleBlockEq :: "BRMerkleBlock \<Rightarrow> BRMerkleBlock \<Rightarrow> bool" where
  "BRMerkleBlockEq block otherBlock \<longleftrightarrow> block = otherBlock \<or> mb_blockHash block = mb_blockHash otherBlock"

section \<open>Copies\<close>

text \<open>
  \<open>malloc\<close> gives memory for every size but those above \<open>PTRDIFF_MAX\<close>, which no object has. A copied array
  has as many items as its size in bytes holds, after the wrap-around of the product.
\<close>

definition can_alloc :: "nat \<Rightarrow> bool" where
  "can_alloc n \<longleftrightarrow> n < 2 ^ 63"

definition size_mul :: "nat \<Rightarrow> nat \<Rightarrow> nat" where
  "size_mul a b = a * b mod 2 ^ 64"

definition copy_array :: "nat \<Rightarrow> 'a list option \<Rightarrow> nat \<Rightarrow> 'a list option res" where
  "copy_array itemSize src count =
     (if count = 0 \<or> \<not> can_alloc (size_mul count itemSize) then Inr None
      else case src of
        None \<Rightarrow> Inl NullDeref
      | Some xs \<Rightarrow> let n = size_mul count itemSize div itemSize in
          if n \<le> length xs then Inr (Some (take n xs)) else Inl OutOfBounds)"

definition BRMerkleBlockSetTxHashes ::
    "BRMerkleBlock \<Rightarrow> UInt256 list option \<Rightarrow> nat \<Rightarrow> bytes option \<Rightarrow> nat \<Rightarrow> BRMerkleBlock res" where
  "BRMerkleBlockSetTxHashes block hashes hashesCount flags flagsLen =
     (if (hashes = None \<and> hashesCount \<noteq> 0) \<or> (flags = None \<and> flagsLen \<noteq> 0) then Inl AssertFailed
      else rbind (copy_array 32 hashes hashesCount) (\<lambda>hs.
           rbind (copy_array 1 flags flagsLen) (\<lambda>fs.
           Inr (block\<lparr>mb_hashes := hs, mb_flags := fs\<rparr>))))"

definition BRMerkleBlockCopy :: "BRMerkleBlock \<Rightarrow> BRMerkleBlock res" where
  "BRMerkleBlockCopy block =
     BRMerkleBlockSetTxHashes (block\<lparr>mb_hashes := None, mb_flags := None\<rparr>)
       (mb_hashes block) (mb_hashesCount block) (mb_flags block) (mb_flagsLen block)"

section \<open>Parsing\<close>

definition hashes_of :: "bytes \<Rightarrow> UInt256 list" where
  "hashes_of bs = map (\<lambda>i. UInt256Get (drop (32 * i) bs)) [0..<length bs div 32]"

definition parse_array :: "bytes \<Rightarrow> nat \<Rightarrow> nat \<Rightarrow> bytes option res" where
  "parse_array buf off len =
     (if size_add off len \<le> length buf \<and> can_alloc len
      then rbind (script_sub buf off len) (\<lambda>bs. Inr (Some bs)) else Inr None)"

definition parse_tree :: "bytes \<Rightarrow> BRMerkleBlock \<Rightarrow> BRMerkleBlock res" where
  "parse_tree buf block =
     (let off = 80; block = block\<lparr>mb_totalTx := UInt32GetLE (drop off buf)\<rparr>;
          (count, off) = varint_at buf (off + 4);
          len = size_mul count 32
      in rbind (parse_array buf off len) (\<lambda>hashes.
         let (flagsLen, off) = varint_at buf (size_add off len)
         in rbind (parse_array buf off flagsLen) (\<lambda>flags.
            Inr (block\<lparr>mb_hashesCount := count, mb_hashes := map_option hashes_of hashes,
                       mb_flagsLen := flagsLen, mb_flags := flags\<rparr>))))"

definition BRMerkleBlockParse :: "bytes \<Rightarrow> BRMerkleBlock option res" where
  "BRMerkleBlockParse buf =
     (if 80 \<le> length buf then
        let block = BRMerkleBlockNew\<lparr>mb_version := UInt32GetLE buf, mb_prevBlock := UInt256Get (drop 4 buf),
              mb_merkleRoot := UInt256Get (drop 36 buf), mb_timestamp := UInt32GetLE (drop 68 buf),
              mb_target := UInt32GetLE (drop 72 buf), mb_nonce := UInt32GetLE (drop 76 buf)\<rparr>
        in rbind (if 80 + 4 \<le> length buf then parse_tree buf block else Inr block) (\<lambda>block.
           Inr (Some (block\<lparr>mb_blockHash := UInt256Get (BRSHA256_2 (take 80 buf))\<rparr>)))
      else Inr None)"

section \<open>Serialising\<close>

text \<open>
  The whole length is checked first; after that the fields are written without any check, so a write beyond
  the buffer is possible when the length has wrapped around.
\<close>

definition poke_array :: "bytes option \<Rightarrow> nat \<Rightarrow> bytes \<times> nat \<Rightarrow> (bytes \<times> nat) res" where
  "poke_array src len st = (case src of
        None \<Rightarrow> Inr (fst st, size_add (snd st) len)
      | Some bs \<Rightarrow> if len \<le> length bs then poke (take len bs) st else Inl OutOfBounds)"

definition merkle_len :: "BRMerkleBlock \<Rightarrow> nat" where
  "merkle_len block =
     (if 0 < mb_totalTx block
      then (80 + 4 + BRVarIntSize (of_nat (mb_hashesCount block)) + mb_hashesCount block * 32 +
            BRVarIntSize (of_nat (mb_flagsLen block)) + mb_flagsLen block) mod 2 ^ 64
      else 80)"

definition poke_tree :: "BRMerkleBlock \<Rightarrow> bytes \<times> nat \<Rightarrow> (bytes \<times> nat) res" where
  "poke_tree block st =
     rbind (poke (UInt32SetLE (mb_totalTx block)) st) (\<lambda>st.
     rbind (poke_varint (mb_hashesCount block) st) (\<lambda>st.
     rbind (poke_array (map_option (\<lambda>hs. concat (map UInt256Set hs)) (mb_hashes block))
              (size_mul (mb_hashesCount block) 32) st) (\<lambda>st.
     rbind (poke_varint (mb_flagsLen block) st)
           (poke_array (mb_flags block) (mb_flagsLen block)))))"

definition poke_header :: "BRMerkleBlock \<Rightarrow> bytes \<times> nat \<Rightarrow> (bytes \<times> nat) res" where
  "poke_header block st =
     rbind (poke (UInt32SetLE (mb_version block)) st) (\<lambda>st.
     rbind (poke (UInt256Set (mb_prevBlock block)) st) (\<lambda>st.
     rbind (poke (UInt256Set (mb_merkleRoot block)) st) (\<lambda>st.
     rbind (poke (UInt32SetLE (mb_timestamp block)) st) (\<lambda>st.
     rbind (poke (UInt32SetLE (mb_target block)) st)
           (poke (UInt32SetLE (mb_nonce block)))))))"

definition BRMerkleBlockSerialize :: "BRMerkleBlock \<Rightarrow> bytes option \<Rightarrow> (nat \<times> bytes option) res" where
  "BRMerkleBlockSerialize block buf =
     (case buf of
        None \<Rightarrow> Inr (merkle_len block, None)
      | Some d \<Rightarrow>
          if merkle_len block \<le> length d then
            rbind (poke_header block (d, 0)) (\<lambda>st.
            rbind (if 0 < mb_totalTx block then poke_tree block st else Inr st) (\<lambda>(d, _).
            Inr (merkle_len block, Some d)))
          else Inr (0, Some d))"

section \<open>The tree\<close>

text \<open>
  \<open>_ceil_log2\<close> takes an \<open>int\<close>. The shift of a negative number stays negative, and never gets to 0: then the
  loop does not end, which is \<open>None\<close>.
\<close>

partial_function (option) ceil_log2_loop :: "int \<Rightarrow> int \<Rightarrow> int option" where
  "ceil_log2_loop x r = (if drop_bit 1 x \<noteq> 0 then ceil_log2_loop (drop_bit 1 x) (r + 1) else Some r)"

definition ceil_log2 :: "int \<Rightarrow> int option" where
  "ceil_log2 x = ceil_log2_loop x (if x AND (x - 1) \<noteq> 0 then 1 else 0)"

definition flag_at :: "BRMerkleBlock \<Rightarrow> nat \<Rightarrow> bool res" where
  "flag_at block i =
     (case mb_flags block of
        None \<Rightarrow> Inl NullDeref
      | Some fs \<Rightarrow> if i div 8 < length fs then Inr (bit (fs ! (i div 8)) (i mod 8)) else Inl OutOfBounds)"

definition hash_at :: "BRMerkleBlock \<Rightarrow> nat \<Rightarrow> UInt256 res" where
  "hash_at block i =
     (case mb_hashes block of
        None \<Rightarrow> Inl NullDeref
      | Some hs \<Rightarrow> if i < length hs then Inr (hs ! i) else Inl OutOfBounds)"

definition more_nodes :: "BRMerkleBlock \<Rightarrow> nat \<Rightarrow> nat \<Rightarrow> bool" where
  "more_nodes block hashIdx flagIdx \<longleftrightarrow> flagIdx div 8 < mb_flagsLen block \<and> hashIdx < mb_hashesCount block"

text \<open>
  Both walks count the levels below a node, \<open>_ceil_log2(totalTx) - depth\<close>, so that the test
  \<open>depth == _ceil_log2(totalTx)\<close> is that there are none. The logarithm is asked for at nodes with a flag
  only; when it does not return, the walk does not get past the root if that has one.
\<close>

definition walk_tree :: "BRMerkleBlock \<Rightarrow> (nat \<Rightarrow> 'a res) \<Rightarrow> 'a res" where
  "walk_tree block walk =
     (case ceil_log2 (sint (mb_totalTx block)) of
        Some depth \<Rightarrow> walk (nat depth)
      | None \<Rightarrow>
          if more_nodes block 0 0
          then rbind (flag_at block 0) (\<lambda>flag. if flag then Inl NoReturn else walk 0)
          else walk 0)"

text \<open>
  The matched hashes: \<open>cap\<close> is the size of the output array, or \<open>None\<close> for a null pointer. The state holds
  the hashes stored, their number, and the indexes of the next hash and flag.
\<close>

definition put_match :: "BRMerkleBlock \<Rightarrow> nat option \<Rightarrow> nat \<Rightarrow> UInt256 list \<times> nat \<Rightarrow> (UInt256 list \<times> nat) res" where
  "put_match block cap hashIdx st =
     (case (cap, st) of
        (None, found, idx) \<Rightarrow> Inr (found, if idx < 2 ^ 64 - 1 then idx + 1 else idx)
      | (Some n, found, idx) \<Rightarrow>
          if idx < n then rbind (hash_at block hashIdx) (\<lambda>h. Inr (found @ [h], idx + 1)) else Inr (found, idx))"

fun BRMerkleBlockTxHashesR :: "BRMerkleBlock \<Rightarrow> nat option \<Rightarrow> nat \<Rightarrow>
    (UInt256 list \<times> nat) \<times> nat \<times> nat \<Rightarrow> ((UInt256 list \<times> nat) \<times> nat \<times> nat) res" where
  "BRMerkleBlockTxHashesR block cap level (st, hashIdx, flagIdx) =
     (if more_nodes block hashIdx flagIdx then
        rbind (flag_at block flagIdx) (\<lambda>flag.
        if \<not> flag \<or> level = 0 then
          rbind (if flag then put_match block cap hashIdx st else Inr st) (\<lambda>st.
          Inr (st, hashIdx + 1, flagIdx + 1))
        else
          rbind (BRMerkleBlockTxHashesR block cap (level - 1) (st, hashIdx, flagIdx + 1))
                (BRMerkleBlockTxHashesR block cap (level - 1)))
      else Inr (st, hashIdx, flagIdx))"

definition BRMerkleBlockTxHashes :: "BRMerkleBlock \<Rightarrow> nat option \<Rightarrow> (nat \<times> UInt256 list) res" where
  "BRMerkleBlockTxHashes block cap =
     rbind (walk_tree block (\<lambda>level. BRMerkleBlockTxHashesR block cap level (([], 0), 0, 0))) (\<lambda>((found, idx), _).
     Inr (idx, found))"

text \<open>The double hash of a node is that of the bytes of the two hashes below it.\<close>

definition merkle_hash :: "UInt256 \<Rightarrow> UInt256 \<Rightarrow> UInt256" where
  "merkle_hash l r = UInt256Get (BRSHA256_2 (UInt256Set l @ UInt256Set r))"

definition join_hashes :: "UInt256 \<Rightarrow> UInt256 \<Rightarrow> nat \<Rightarrow> UInt256 \<times> nat" where
  "join_hashes l r hashIdx =
     (if \<not> UInt256IsZero l \<and> l \<noteq> r then (merkle_hash l (if UInt256IsZero r then l else r), hashIdx)
      else (0, 2 ^ 64 - 1))"

fun BRMerkleBlockRootR :: "BRMerkleBlock \<Rightarrow> nat \<Rightarrow> nat \<times> nat \<Rightarrow> (UInt256 \<times> nat \<times> nat) res" where
  "BRMerkleBlockRootR block level (hashIdx, flagIdx) =
     (if more_nodes block hashIdx flagIdx then
        rbind (flag_at block flagIdx) (\<lambda>flag.
        if flag \<and> level \<noteq> 0 then
          rbind (BRMerkleBlockRootR block (level - 1) (hashIdx, flagIdx + 1)) (\<lambda>(l, st).
          rbind (BRMerkleBlockRootR block (level - 1) st) (\<lambda>(r, hashIdx, flagIdx).
          case join_hashes l r hashIdx of (md, hashIdx) \<Rightarrow> Inr (md, hashIdx, flagIdx)))
        else rbind (hash_at block hashIdx) (\<lambda>md. Inr (md, hashIdx + 1, flagIdx + 1)))
      else Inr (0, hashIdx, flagIdx))"

declare BRMerkleBlockTxHashesR.simps [simp del] BRMerkleBlockRootR.simps [simp del]

definition BRMerkleBlockRoot :: "BRMerkleBlock \<Rightarrow> UInt256 res" where
  "BRMerkleBlockRoot block =
     rbind (walk_tree block (\<lambda>level. BRMerkleBlockRootR block level (0, 0))) (\<lambda>(root, _). Inr root)"

section \<open>Validity and difficulty\<close>

text \<open>The bytes of the target, of which the block hash is the limit: the hash may not be above it.\<close>

definition target_size :: "u32 \<Rightarrow> nat" where
  "target_size t = unat (drop_bit 24 t)"

definition target_bits :: "u32 \<Rightarrow> u32" where
  "target_bits t = t AND 0x00ffffff"

definition target_bytes :: "u32 \<Rightarrow> bytes res" where
  "target_bytes t =
     (let n = target_size t; zero = replicate 32 0 in
      rbind (if 3 < n then poke (UInt32SetLE (target_bits t)) (zero, n - 3)
             else poke (UInt32SetLE (drop_bit ((3 - n) * 8) (target_bits t))) (zero, 0)) (\<lambda>(d, _). Inr d))"

primrec hash_below :: "bytes \<Rightarrow> bytes \<Rightarrow> nat \<Rightarrow> bool" where
  "hash_below h t 0 = True"
| "hash_below h t (Suc i) = (if h ! i < t ! i then True else if t ! i < h ! i then False else hash_below h t i)"

definition target_in_range :: "u32 \<Rightarrow> bool" where
  "target_in_range t \<longleftrightarrow> \<not> (target_bits t = 0 \<or> target_bits t AND 0x00800000 \<noteq> 0 \<or>
     target_size MAX_PROOF_OF_WORK < target_size t \<or>
     target_size t = target_size MAX_PROOF_OF_WORK \<and> target_bits MAX_PROOF_OF_WORK < target_bits t)"

definition BRMerkleBlockIsValid :: "BRMerkleBlock \<Rightarrow> u32 \<Rightarrow> bool res" where
  "BRMerkleBlockIsValid block currentTime =
     rbind (BRMerkleBlockRoot block) (\<lambda>merkleRoot.
     let r = \<not> (0 < mb_totalTx block \<and> merkleRoot \<noteq> mb_merkleRoot block) \<and>
             \<not> currentTime + BLOCK_MAX_TIME_DRIFT < mb_timestamp block \<and>
             target_in_range (mb_target block)
     in rbind (target_bytes (mb_target block)) (\<lambda>t.
        Inr (r \<and> hash_below (UInt256Set (mb_blockHash block)) t 32)))"

definition BRMerkleBlockContainsTxHash :: "BRMerkleBlock \<Rightarrow> UInt256 \<Rightarrow> bool res" where
  "BRMerkleBlockContainsTxHash block txHash =
     (if UInt256IsZero txHash then Inl AssertFailed
      else
        let hs = (case mb_hashes block of None \<Rightarrow> [] | Some hs \<Rightarrow> hs); n = mb_hashesCount block in
        if txHash \<in> set (take n hs) then Inr True
        else if n \<le> length hs then Inr False
        else Inl (if mb_hashes block = None then NullDeref else OutOfBounds))"

text \<open>
  The target after a transition. \<open>normalize\<close> is the loop that moves the mantissa to the right; the size grows
  with every step, and the mantissa is a 64 bit value that vanishes in the end.
\<close>

function normalize :: "u64 \<Rightarrow> int \<Rightarrow> u64 \<times> int" where
  "normalize target n =
     (if n < 1 \<or> 0x007fffff < target then normalize (drop_bit 8 target) (n + 1) else (target, n))"
  by pat_completeness auto
termination
proof (relation "measures [\<lambda>(target, n). unat target, \<lambda>(target, n). nat (1 - n)]")
  fix target :: u64 and n :: int
  assume c: "n < 1 \<or> 0x007fffff < target"
  have u: "unat (drop_bit 8 target) = unat target div 256" by (simp add: unat_drop_bit)
  show "((drop_bit 8 target, n + 1), target, n) \<in> measures [\<lambda>(target, n). unat target, \<lambda>(target, n). nat (1 - n)]"
  proof (cases "unat target = 0")
    case True
    then have "n < 1" "unat (drop_bit 8 target) = 0" using c by (auto simp: unat_eq_0)
    then show ?thesis using True by simp
  next
    case False
    then have "unat target div 256 < unat target" by simp
    then show ?thesis using u by simp
  qed
qed simp

declare normalize.simps [simp del]

definition next_timespan :: "u32 \<Rightarrow> u32 \<Rightarrow> int" where
  "next_timespan timestamp transitionTime =
     (let t = sint (ucast timestamp - ucast transitionTime :: u64);
          t = sint (word_of_int t :: u32);
          t = (if t < TARGET_TIMESPAN div 4 then TARGET_TIMESPAN div 4 else t)
      in if TARGET_TIMESPAN * 4 < t then TARGET_TIMESPAN * 4 else t)"

definition next_target :: "u32 \<Rightarrow> int \<Rightarrow> u32" where
  "next_target t timespan =
     (let target = ucast (target_bits t) * word_of_int timespan div word_of_int (TARGET_TIMESPAN div 256) :: u64;
          (target, n) = normalize target (int (target_size t) - 1);
          maxsize = int (target_size MAX_PROOF_OF_WORK); maxtarget = ucast (target_bits MAX_PROOF_OF_WORK);
          (target, n) = (if maxsize < n \<or> n = maxsize \<and> maxtarget < target then (maxtarget, maxsize) else (target, n))
      in ucast target OR push_bit 24 (word_of_int n))"

definition BRMerkleBlockVerifyDifficulty :: "BRMerkleBlock \<Rightarrow> BRMerkleBlock \<Rightarrow> u32 \<Rightarrow> bool" where
  "BRMerkleBlockVerifyDifficulty block previous transitionTime \<longleftrightarrow>
     mb_prevBlock block = mb_blockHash previous \<and> mb_height block = mb_height previous + 1 \<and>
     (if mb_height block mod BLOCK_DIFFICULTY_INTERVAL = 0
      then transitionTime \<noteq> 0 \<and>
           mb_target block = next_target (mb_target previous) (next_timespan (mb_timestamp previous) transitionTime)
      else mb_target block = mb_target previous)"

end
