(* ===== verification/BRMerkleBlockCorrect.thy ===== *)
theory BRMerkleBlockCorrect
  imports BRMerkleBlock BRTransactionCorrect
begin

text \<open>
  Properties of the merkle blocks: the walks over the partial tree give the merkle root and the matched
  transactions of the block; headers and trees are parsed back as they are serialised; validity and
  difficulty are what the numbers say.
\<close>

section \<open>The depth of the tree\<close>

lemma ceil_log2_loop_power:
  "2 ^ k \<le> x \<Longrightarrow> x < 2 ^ Suc k \<Longrightarrow> ceil_log2_loop x r = Some (r + int k)"
proof (induction k arbitrary: x r)
  case 0
  then have "x = 1" by simp
  then show ?case by (subst ceil_log2_loop.simps) (simp add: drop_bit_Suc)
next
  case (Suc k)
  then have d: "2 ^ k \<le> drop_bit 1 x" "drop_bit 1 x < 2 ^ Suc k" by (auto simp: drop_bit_Suc)
  then have "drop_bit 1 x \<noteq> 0" using zero_less_power[of "2 :: int" k] by linarith
  then show ?case using Suc.IH[OF d] by (subst ceil_log2_loop.simps) simp
qed

lemma ceil_log2_power:
  assumes "2 ^ k \<le> x" "x < 2 ^ Suc k"
  shows "ceil_log2 x = Some (if x = 2 ^ k then int k else int k + 1)"
proof (cases "x = 2 ^ k")
  case True
  have "x AND (x - 1) = take_bit k (2 ^ k)" by (simp add: True take_bit_eq_mask mask_eq_exp_minus_1)
  then have "x AND (x - 1) = 0" by simp
  then show ?thesis using ceil_log2_loop_power[OF assms] True by (simp add: ceil_log2_def)
next
  case False
  have "bit y k" if "2 ^ k \<le> y" "y < 2 ^ Suc k" for y :: int
  proof -
    have "y div 2 ^ k = 1" using that by (intro int_div_pos_eq[of _ _ _ "y - 2 ^ k"]) auto
    then show ?thesis by (simp add: bit_iff_odd)
  qed
  then have "bit (x AND (x - 1)) k" using assms False by (simp add: bit_and_iff)
  then have "x AND (x - 1) \<noteq> 0" by auto
  then show ?thesis using ceil_log2_loop_power[OF assms] False by (simp add: ceil_log2_def add.commute)
qed

lemma ceil_log2_least:
  assumes "0 < n" "n < 2 ^ 31"
  obtains k where "ceil_log2 (int n) = Some (int k)" "n \<le> 2 ^ k" "k = 0 \<or> 2 ^ (k - 1) < n"
proof -
  obtain k where k: "2 ^ k \<le> n" "n < 2 ^ Suc k" using ex_power_ivl1[of 2 n] assms(1) by auto
  have "(2 :: int) ^ k \<le> int n" "int n < 2 ^ Suc k" "int n = 2 ^ k \<longleftrightarrow> n = 2 ^ k"
    using k of_nat_le_iff[of "2 ^ k" n] of_nat_less_iff[of n "2 ^ Suc k"] of_nat_eq_iff[of n "2 ^ k"]
    by (simp_all del: of_nat_less_iff of_nat_le_iff of_nat_eq_iff)
  from ceil_log2_power[OF this(1,2)] this(3) show ?thesis
    using that[of "if n = 2 ^ k then k else Suc k"] k by (cases "k = 0") (auto split: if_splits)
qed

section \<open>Merkle trees\<close>

text \<open>The rows of the tree, from the transactions up; the last hash of an odd row is paired with itself.\<close>

fun pair_row :: "UInt256 list \<Rightarrow> UInt256 list" where
  "pair_row (a # b # hs) = merkle_hash a b # pair_row hs"
| "pair_row [a] = [merkle_hash a a]"
| "pair_row [] = []"

lemma length_pair_row [simp]: "length (pair_row hs) = (length hs + 1) div 2"
  by (induction hs rule: pair_row.induct) auto

function merkle_root :: "UInt256 list \<Rightarrow> UInt256" where
  "merkle_root hs = (if length hs \<le> 1 then hd hs else merkle_root (pair_row hs))"
  by pat_completeness auto
termination by (relation "measure length") auto

declare merkle_root.simps [simp del]

lemma pair_row_take: "pair_row (take (2 * m) hs) = take m (pair_row hs)"
  and pair_row_drop: "pair_row (drop (2 * m) hs) = drop m (pair_row hs)"
proof (induction hs arbitrary: m rule: pair_row.induct)
  case (1 a b hs)
  { case 1 then show ?case using "1.IH"(1) by (cases m) auto }
  { case 2 then show ?case using "1.IH"(2) by (cases m) auto }
next
  case (2 a)
  { case 1 then show ?case by (cases m) auto }
  { case 2 then show ?case by (cases m) auto }
qed auto

text \<open>The hash of a subtree of the given height over some of the transactions.\<close>

primrec subroot :: "nat \<Rightarrow> UInt256 list \<Rightarrow> UInt256" where
  "subroot 0 hs = hd hs"
| "subroot (Suc k) hs = subroot k (pair_row hs)"

lemma subroot_Suc:
  assumes "0 < length hs" "length hs \<le> 2 ^ Suc k"
  shows "subroot (Suc k) hs =
    (if length hs \<le> 2 ^ k then merkle_hash (subroot k hs) (subroot k hs)
     else merkle_hash (subroot k (take (2 ^ k) hs)) (subroot k (drop (2 ^ k) hs)))"
  using assms
proof (induction k arbitrary: hs)
  case 0
  then show ?case by (cases hs rule: pair_row.cases) auto
next
  case (Suc k)
  have "0 < length (pair_row hs)" "length (pair_row hs) \<le> 2 ^ Suc k" using Suc.prems by auto
  moreover have "length (pair_row hs) \<le> 2 ^ k \<longleftrightarrow> length hs \<le> 2 ^ Suc k" using Suc.prems by auto
  ultimately show ?case using Suc.IH[of "pair_row hs"] pair_row_take[of "2 ^ k" hs] pair_row_drop[of "2 ^ k" hs]
    by (simp only: subroot.simps(2)) simp
qed

lemma subroot_merkle_root:
  "0 < length hs \<Longrightarrow> length hs \<le> 2 ^ k \<Longrightarrow> k = 0 \<or> 2 ^ (k - 1) < length hs \<Longrightarrow> subroot k hs = merkle_root hs"
proof (induction k arbitrary: hs)
  case 0
  then show ?case by (simp add: merkle_root.simps)
next
  case (Suc k)
  have l: "2 ^ k < length hs" "1 \<le> (2 :: nat) ^ k" using Suc.prems(3) by auto
  then have "\<not> length hs \<le> 1" by linarith
  have "k = 0 \<or> 2 ^ (k - 1) < length (pair_row hs)" using l by (cases k) auto
  then have "subroot k (pair_row hs) = merkle_root (pair_row hs)" using Suc.prems by (intro Suc.IH) auto
  moreover have "merkle_root hs = merkle_root (pair_row hs)" using \<open>\<not> length hs \<le> 1\<close> by (subst merkle_root.simps) simp
  ultimately show ?case by simp
qed

section \<open>Partial trees\<close>

text \<open>
  The flags and hashes of a partial tree, as the comment at the head of the file describes them: a flag for
  each node that is visited in depth-first order, that says whether a matched transaction is below it; below a
  flag there are two children, or one, and otherwise, and for a transaction, there is a hash.
\<close>

fun partial_tree :: "(UInt256 \<Rightarrow> bool) \<Rightarrow> nat \<Rightarrow> UInt256 list \<Rightarrow> bool list \<times> UInt256 list" where
  "partial_tree M 0 hs = ([M (hd hs)], [hd hs])"
| "partial_tree M (Suc k) hs =
     (if \<exists>h \<in> set hs. M h then
        (let (fl, hl) = partial_tree M k (take (2 ^ k) hs) in
         if length hs \<le> 2 ^ k then (True # fl, hl)
         else let (fr, hr) = partial_tree M k (drop (2 ^ k) hs) in (True # fl @ fr, hl @ hr))
      else ([False], [subroot (Suc k) hs]))"

text \<open>No visited node has a zero hash or two equal children, so that the tree is not taken for a forged one.\<close>

fun proper_tree :: "(UInt256 \<Rightarrow> bool) \<Rightarrow> nat \<Rightarrow> UInt256 list \<Rightarrow> bool" where
  "proper_tree M 0 hs = True"
| "proper_tree M (Suc k) hs \<longleftrightarrow> (\<exists>h \<in> set hs. M h) \<longrightarrow>
     subroot k (take (2 ^ k) hs) \<noteq> 0 \<and> proper_tree M k (take (2 ^ k) hs) \<and>
     (2 ^ k < length hs \<longrightarrow> subroot k (drop (2 ^ k) hs) \<noteq> 0 \<and>
        subroot k (take (2 ^ k) hs) \<noteq> subroot k (drop (2 ^ k) hs) \<and> proper_tree M k (drop (2 ^ k) hs))"

definition flag_bytes :: "bool list \<Rightarrow> bytes" where
  "flag_bytes bs = map (\<lambda>j. horner_sum of_bool 2 (take 8 (drop (8 * j) bs))) [0..<(length bs + 7) div 8]"

text \<open>A block that holds the flags and hashes.\<close>

definition holds_tree :: "BRMerkleBlock \<Rightarrow> bool list \<Rightarrow> UInt256 list \<Rightarrow> bool" where
  "holds_tree block bs hs \<longleftrightarrow> mb_hashes block = Some hs \<and> mb_hashesCount block = length hs \<and>
     mb_flags block = Some (flag_bytes bs) \<and> mb_flagsLen block = length (flag_bytes bs)"

lemma holds_tree_flag:
  assumes "holds_tree block bs hs" "p < length bs"
  shows "flag_at block p = Inr (bs ! p)" "p div 8 < mb_flagsLen block"
proof -
  have d: "p div 8 < (length bs + 7) div 8" using assms(2) by auto
  then show "p div 8 < mb_flagsLen block" using assms(1) by (simp add: holds_tree_def flag_bytes_def)
  have "8 * (p div 8) + p mod 8 = p" by simp
  moreover have "p mod 8 < length bs - 8 * (p div 8)" using assms(2) calculation by linarith
  then have "p mod 8 < length (take 8 (drop (8 * (p div 8)) bs))" by simp
  ultimately have "bit (flag_bytes bs ! (p div 8)) (p mod 8) = bs ! p"
    using d assms(2) by (simp add: flag_bytes_def bit_horner_sum_bit_word_iff)
  then show "flag_at block p = Inr (bs ! p)" using assms(1) d by (simp add: flag_at_def holds_tree_def flag_bytes_def)
qed

text \<open>The part of the flags and hashes that a subtree takes up.\<close>

definition at_node :: "bool list \<Rightarrow> UInt256 list \<Rightarrow> nat \<Rightarrow> nat \<Rightarrow> bool list \<times> UInt256 list \<Rightarrow> bool" where
  "at_node bs hs p q part \<longleftrightarrow> (\<exists>b1 b2 h1 h2. bs = b1 @ fst part @ b2 \<and> hs = h1 @ snd part @ h2 \<and> length b1 = p \<and> length h1 = q)"

lemma at_node_here:
  assumes "at_node bs hs p q (f # fs, h # hs')"
  shows "p < length bs" "bs ! p = f" "q < length hs" "hs ! q = h"
  using assms by (auto simp: at_node_def nth_append)

lemma at_nodeI:
  "bs = b1 @ fs @ b2 \<Longrightarrow> hs = h1 @ rs @ h2 \<Longrightarrow> p = length b1 \<Longrightarrow> q = length h1 \<Longrightarrow> at_node bs hs p q (fs, rs)"
  by (auto simp: at_node_def)

lemma at_node_children:
  assumes "at_node bs hs p q (f # fl @ fr, hl @ hr)"
  shows "at_node bs hs (p + 1) q (fl, hl)" "at_node bs hs (p + 1 + length fl) (q + length hl) (fr, hr)"
proof -
  obtain b1 b2 h1 h2 where n: "bs = b1 @ (f # fl @ fr) @ b2" "hs = h1 @ (hl @ hr) @ h2" "p = length b1" "q = length h1"
    using assms by (auto simp: at_node_def)
  show "at_node bs hs (p + 1) q (fl, hl)"
    by (rule at_nodeI[of _ "b1 @ [f]" _ "fr @ b2" _ h1 _ "hr @ h2"]) (simp_all add: n)
  show "at_node bs hs (p + 1 + length fl) (q + length hl) (fr, hr)"
    by (rule at_nodeI[of _ "b1 @ f # fl" _ b2 _ "h1 @ hl" _ h2]) (simp_all add: n)
qed

lemma partial_tree_nonempty:
  "partial_tree M k hs = (fs, rs) \<Longrightarrow> \<exists>f fs' r rs'. fs = f # fs' \<and> rs = r # rs'"
proof (induction k arbitrary: hs fs rs)
  case (Suc k)
  obtain fl hl where l: "partial_tree M k (take (2 ^ k) hs) = (fl, hl)" by fastforce
  with Suc.IH[OF l] Suc.prems show ?case by (auto split: if_splits prod.splits)
qed auto

lemma subroot_pruned: "length xs \<le> 2 ^ k \<Longrightarrow> 0 < length xs \<Longrightarrow> take (2 ^ k) xs = xs"
  by simp

lemma RootR_partial_tree:
  assumes "holds_tree block bs H"
  shows "partial_tree M k xs = (fs, rs) \<Longrightarrow> at_node bs H p q (fs, rs) \<Longrightarrow> 0 < length xs \<Longrightarrow> length xs \<le> 2 ^ k \<Longrightarrow>
    proper_tree M k xs \<Longrightarrow> length xs = 2 ^ k \<or> q + length rs = length H \<Longrightarrow>
    BRMerkleBlockRootR block k (q, p) = Inr (subroot k xs, q + length rs, p + length fs)"
proof (induction k arbitrary: xs fs rs p q)
  have node: "more_nodes block q p" "flag_at block p = Inr f" "hash_at block q = Inr r"
    if "at_node bs H p q (f # fs, r # rs)" for p q f fs r rs
    using at_node_here[OF that] holds_tree_flag[OF assms, of p] assms
    by (simp_all add: more_nodes_def hash_at_def holds_tree_def)
  have leaf: "BRMerkleBlockRootR block k (q, p) = Inr (r, q + 1, p + 1)"
    if "at_node bs H p q ([f], [r])" "\<not> f \<or> k = 0" for k p q f r
    using that(2) by (subst BRMerkleBlockRootR.simps) (auto simp: node[OF that(1)])
  { case 0
    then show ?case using leaf[of p q "M (hd xs)" "hd xs" 0] by auto }
  { case (Suc k)
    let ?l = "take (2 ^ k) xs" and ?r = "drop (2 ^ k) xs"
    obtain fl hl where l: "partial_tree M k ?l = (fl, hl)" by fastforce
    obtain fr hr where r: "partial_tree M k ?r = (fr, hr)" by fastforce
    show ?case
    proof (cases "\<exists>h \<in> set xs. M h")
      case False
      with Suc.prems(1) have "fs = [False]" "rs = [subroot (Suc k) xs]" by auto
      then show ?thesis using leaf[of p q False "subroot (Suc k) xs" "Suc k"] Suc.prems(2) by simp
    next
      case True
      note pr = Suc.prems(5)[unfolded proper_tree.simps, rule_format, OF True]
      obtain f' fs' r' rs' where ne: "hl = r' # rs'" using partial_tree_nonempty[OF l] by blast
      have ll: "0 < length ?l" "length ?l \<le> 2 ^ k" using Suc.prems(3) by simp_all
      show ?thesis
      proof (cases "length xs \<le> 2 ^ k")
        case short: True
        have f: "fs = True # fl @ []" "rs = hl @ []" using Suc.prems(1) True l short by auto
        have e: "q + length hl = length H" using Suc.prems(6) short f(2) by auto
        note n = Suc.prems(2)[unfolded f]
        have "BRMerkleBlockRootR block k (q, p + 1) = Inr (subroot k ?l, q + length hl, p + 1 + length fl)"
          using Suc.IH[OF l at_node_children(1)[OF n] ll] pr e by simp
        moreover have "BRMerkleBlockRootR block k (q + length hl, p + 1 + length fl) =
            Inr (0, q + length hl, p + 1 + length fl)"
          using e assms by (subst BRMerkleBlockRootR.simps) (simp add: more_nodes_def holds_tree_def)
        ultimately have "BRMerkleBlockRootR block (Suc k) (q, p) =
            Inr (merkle_hash (subroot k ?l) (subroot k ?l), q + length hl, p + 1 + length fl)"
          using node[of p q True "fl @ []" r' "rs' @ []"] n pr
          by (subst BRMerkleBlockRootR.simps) (simp add: ne join_hashes_def UInt256IsZero_def)
        then show ?thesis using subroot_Suc[OF Suc.prems(3,4)] short f by simp
      next
        case long: False
        have f: "fs = True # fl @ fr" "rs = hl @ hr" using Suc.prems(1) True l r long by auto
        note n = Suc.prems(2)[unfolded f]
        have lr: "length ?l = 2 ^ k" "0 < length ?r" "length ?r \<le> 2 ^ k" using long Suc.prems(4) by simp_all
        have e: "length ?r = 2 ^ k \<or> q + length hl + length hr = length H" using Suc.prems(6) f(2) by auto
        have "BRMerkleBlockRootR block k (q, p + 1) = Inr (subroot k ?l, q + length hl, p + 1 + length fl)"
          using Suc.IH[OF l at_node_children(1)[OF n] ll] pr lr(1) by simp
        moreover have "BRMerkleBlockRootR block k (q + length hl, p + 1 + length fl) =
            Inr (subroot k ?r, q + length hl + length hr, p + 1 + length fl + length fr)"
          using Suc.IH[OF r at_node_children(2)[OF n] lr(2,3) _ e] pr long by simp
        ultimately have "BRMerkleBlockRootR block (Suc k) (q, p) =
            Inr (merkle_hash (subroot k ?l) (subroot k ?r), q + length hl + length hr, p + 1 + length fl + length fr)"
          using node[of p q True "fl @ fr" r' "rs' @ hr"] n pr long
          by (subst BRMerkleBlockRootR.simps) (simp add: ne join_hashes_def UInt256IsZero_def)
        then show ?thesis using subroot_Suc[OF Suc.prems(3,4)] long f by (simp add: add.assoc)
      qed
    qed }
qed

text \<open>The matched hashes are collected in order, as many as the array holds; without an array they are counted.\<close>

definition collect :: "nat option \<Rightarrow> UInt256 list \<times> nat \<Rightarrow> UInt256 list \<Rightarrow> UInt256 list \<times> nat" where
  "collect cap st hs =
     (case cap of
        None \<Rightarrow> (fst st, snd st + length hs)
      | Some c \<Rightarrow> (fst st @ take (c - snd st) hs, snd st + min (c - snd st) (length hs)))"

lemma collect_simps [simp]: "collect cap st [] = st" "collect cap (collect cap st hs) gs = collect cap st (hs @ gs)"
  by (auto simp: collect_def min_def split: option.split prod.split)

lemma snd_collect_le: "snd (collect cap st hs) \<le> snd st + length hs"
  by (auto simp: collect_def split: option.split)

lemma put_match_collect:
  assumes "hash_at block q = Inr h" "snd st + 1 < 2 ^ 64"
  shows "put_match block cap q st = Inr (collect cap st [h])"
  using assms by (cases st) (auto simp: put_match_def collect_def take_Cons' min_def split: option.split)

lemma TxHashesR_partial_tree:
  assumes "holds_tree block bs H"
  shows "partial_tree M k xs = (fs, rs) \<Longrightarrow> at_node bs H p q (fs, rs) \<Longrightarrow> 0 < length xs \<Longrightarrow> length xs \<le> 2 ^ k \<Longrightarrow>
    length xs = 2 ^ k \<or> q + length rs = length H \<Longrightarrow> snd st + length xs < 2 ^ 64 \<Longrightarrow>
    BRMerkleBlockTxHashesR block cap k (st, q, p) = Inr (collect cap st (filter M xs), q + length rs, p + length fs)"
proof (induction k arbitrary: xs fs rs p q st)
  have node: "more_nodes block q p" "flag_at block p = Inr f" "hash_at block q = Inr r"
    if "at_node bs H p q (f # fs, r # rs)" for p q f fs r rs
    using at_node_here[OF that] holds_tree_flag[OF assms, of p] assms
    by (simp_all add: more_nodes_def hash_at_def holds_tree_def)
  { case 0
    then obtain x where x: "xs = [x]" by (cases xs) auto
    then show ?case using 0 node[of p q "M x" "[]" x "[]"] put_match_collect[of block q x st cap]
      by (subst BRMerkleBlockTxHashesR.simps) auto }
  { case (Suc k)
    let ?l = "take (2 ^ k) xs" and ?r = "drop (2 ^ k) xs"
    obtain fl hl where l: "partial_tree M k ?l = (fl, hl)" by fastforce
    obtain fr hr where r: "partial_tree M k ?r = (fr, hr)" by fastforce
    obtain f' fs' r' rs' where ne: "hl = r' # rs'" using partial_tree_nonempty[OF l] by blast
    have ll: "0 < length ?l" "length ?l \<le> 2 ^ k" using Suc.prems(3) by simp_all
    show ?case
    proof (cases "\<exists>h \<in> set xs. M h")
      case False
      with Suc.prems(1) have fr: "fs = [False]" "rs = [subroot (Suc k) xs]" by auto
      have "filter M xs = []" using False by (simp add: filter_empty_conv)
      then show ?thesis using node[of p q False "[]" "subroot (Suc k) xs" "[]"] Suc.prems(2) fr
        by (subst BRMerkleBlockTxHashesR.simps) simp
    next
      case True
      show ?thesis
      proof (cases "length xs \<le> 2 ^ k")
        case short: True
        have f: "fs = True # fl @ []" "rs = hl @ []" using Suc.prems(1) True l short by auto
        have e: "q + length hl = length H" using Suc.prems(5) short f(2) by auto
        note n = Suc.prems(2)[unfolded f]
        have "BRMerkleBlockTxHashesR block cap k (st, q, p + 1) =
            Inr (collect cap st (filter M ?l), q + length hl, p + 1 + length fl)"
          using Suc.IH[OF l at_node_children(1)[OF n] ll, of st] Suc.prems(6) e by simp
        moreover have "BRMerkleBlockTxHashesR block cap k (st', q + length hl, p + 1 + length fl) =
            Inr (st', q + length hl, p + 1 + length fl)" for st'
          using e assms by (subst BRMerkleBlockTxHashesR.simps) (simp add: more_nodes_def holds_tree_def)
        ultimately show ?thesis
          using node[of p q True "fl @ []" r' "rs' @ []"] n short f
          by (subst BRMerkleBlockTxHashesR.simps) (simp add: ne)
      next
        case long: False
        have f: "fs = True # fl @ fr" "rs = hl @ hr" using Suc.prems(1) True l r long by auto
        note n = Suc.prems(2)[unfolded f]
        have lr: "length ?l = 2 ^ k" "0 < length ?r" "length ?r \<le> 2 ^ k" using long Suc.prems(4) by simp_all
        have e: "length ?r = 2 ^ k \<or> q + length hl + length hr = length H" using Suc.prems(5) f(2) by auto
        let ?st = "collect cap st (filter M ?l)"
        have "BRMerkleBlockTxHashesR block cap k (st, q, p + 1) = Inr (?st, q + length hl, p + 1 + length fl)"
          using Suc.IH[OF l at_node_children(1)[OF n] ll, of st] Suc.prems(6) lr(1) long by simp
        moreover have "snd ?st + length ?r < 2 ^ 64"
          using snd_collect_le[of cap st "filter M ?l"] length_filter_le[of M ?l] Suc.prems(6) lr(1) long by simp
        then have "BRMerkleBlockTxHashesR block cap k (?st, q + length hl, p + 1 + length fl) =
            Inr (collect cap ?st (filter M ?r), q + length hl + length hr, p + 1 + length fl + length fr)"
          by (rule Suc.IH[OF r at_node_children(2)[OF n] lr(2,3) e])
        moreover have "filter M ?l @ filter M ?r = filter M xs" by (simp add: filter_append[symmetric])
        ultimately show ?thesis
          using node[of p q True "fl @ fr" r' "rs' @ hr"] n f
          by (subst BRMerkleBlockTxHashesR.simps) (simp add: ne add.assoc)
      qed
    qed }
qed

lemma at_node_whole: "at_node bs hs 0 0 (bs, hs)"
  by (rule at_nodeI[of _ "[]" _ "[]" _ "[]" _ "[]"]) simp_all

lemma walk_tree_depth:
  assumes "unat (mb_totalTx block) = n" "0 < n" "n < 2 ^ 31" "n \<le> 2 ^ d" "d = 0 \<or> 2 ^ (d - 1) < n"
  shows "walk_tree block walk = walk d"
proof -
  obtain k where k: "ceil_log2 (int n) = Some (int k)" "n \<le> 2 ^ k" "k = 0 \<or> 2 ^ (k - 1) < n"
    using ceil_log2_least[OF assms(2,3)] by blast
  have le: "i \<le> j" if "i = 0 \<or> (2 :: nat) ^ (i - 1) < n" "n \<le> 2 ^ j" for i j
  proof (rule ccontr)
    assume "\<not> i \<le> j"
    then have "(2 :: nat) ^ j \<le> 2 ^ (i - 1)" "i \<noteq> 0" by auto
    then show False using that by linarith
  qed
  have "k = d" using le[OF k(3) assms(4)] le[OF assms(5) k(2)] by simp
  moreover have "sint (mb_totalTx block) = int n"
    using assms(1,3) by (simp add: sint_uint uint_nat signed_take_bit_int_eq_self)
  ultimately show ?thesis using k(1) by (simp add: walk_tree_def)
qed

text \<open>
  C32: from a block that holds the partial merkle tree of its transactions, for any choice of matched ones, the
  merkle root of all transactions is computed, and the matched transactions are found, in their order and as
  many as the output array holds. The tree has the depth of the number of transactions, and is the one that the
  comment at the head of the file describes; no two siblings in it may be equal.
\<close>

theorem BRMerkleBlock_partial_tree:
  assumes "length txs = unat (mb_totalTx block)" "0 < length txs" "length txs < 2 ^ 31"
    and "length txs \<le> 2 ^ d" "d = 0 \<or> 2 ^ (d - 1) < length txs"
    and "holds_tree block (fst (partial_tree M d txs)) (snd (partial_tree M d txs))" "proper_tree M d txs"
  shows "BRMerkleBlockRoot block = Inr (merkle_root txs) \<and>
    BRMerkleBlockTxHashes block None = Inr (length (filter M txs), []) \<and>
    BRMerkleBlockTxHashes block (Some c) = Inr (min c (length (filter M txs)), take c (filter M txs))"
proof -
  obtain fs rs where p: "partial_tree M d txs = (fs, rs)" by fastforce
  note h = assms(6)[unfolded p, simplified]
  have "BRMerkleBlockRootR block d (0, 0) = Inr (merkle_root txs, length rs, length fs)"
    using RootR_partial_tree[OF h p at_node_whole assms(2,4,7)] subroot_merkle_root[OF assms(2,4,5)] h
    by (simp add: holds_tree_def)
  moreover have "BRMerkleBlockTxHashesR block cap d (([], 0), 0, 0) =
      Inr (collect cap ([], 0) (filter M txs), length rs, length fs)" for cap
    using TxHashesR_partial_tree[OF h p at_node_whole assms(2,4), of "([], 0)" cap] assms(3) h by (simp add: holds_tree_def)
  ultimately show ?thesis
    by (simp add: BRMerkleBlockRoot_def BRMerkleBlockTxHashes_def collect_def
        walk_tree_depth[OF assms(1)[symmetric] assms(2-5)])
qed

theorem BRMerkleBlock_partial_tree_witness:
  "let block = BRMerkleBlockNew\<lparr>mb_totalTx := 2, mb_hashes := Some [5, 6], mb_hashesCount := 2, mb_flags := Some [5],
       mb_flagsLen := 1\<rparr>
   in BRMerkleBlockRoot block = Inr (merkle_root [5, 6]) \<and> BRMerkleBlockTxHashes block (Some 4) = Inr (1, [6])"
proof -
  let ?b = "BRMerkleBlockNew\<lparr>mb_totalTx := 2, mb_hashes := Some [5, 6], mb_hashesCount := 2, mb_flags := Some [5],
       mb_flagsLen := 1\<rparr>"
  let ?t = "partial_tree (\<lambda>h. h = 6) (Suc 0) [5, 6]"
  have p: "?t = ([True, False, True], [5, 6])" by simp
  have "flag_bytes [True, False, True] = [5]" by (simp add: flag_bytes_def)
  then have "holds_tree ?b (fst ?t) (snd ?t)" by (simp add: p holds_tree_def)
  moreover have "proper_tree (\<lambda>h. h = 6) (Suc 0) [5, 6]" by simp
  moreover have "length [5, 6 :: UInt256] = unat (mb_totalTx ?b)" "0 < length [5, 6 :: UInt256]"
      "length [5, 6 :: UInt256] < 2 ^ 31" "length [5, 6 :: UInt256] \<le> 2 ^ Suc 0" by simp_all
  ultimately have "BRMerkleBlockRoot ?b = Inr (merkle_root [5, 6]) \<and> BRMerkleBlockTxHashes ?b (Some 4) =
      Inr (min 4 (length (filter (\<lambda>h. h = 6) [5, 6 :: UInt256])), take 4 (filter (\<lambda>h. h = 6) [5, 6]))"
    using BRMerkleBlock_partial_tree[of "[5, 6]" ?b "Suc 0" "\<lambda>h. h = 6" 4] by simp
  then show ?thesis by simp
qed

section \<open>Parsing what is serialised\<close>

definition header_bytes :: "BRMerkleBlock \<Rightarrow> bytes" where
  "header_bytes block = UInt32SetLE (mb_version block) @ UInt256Set (mb_prevBlock block) @
     UInt256Set (mb_merkleRoot block) @ UInt32SetLE (mb_timestamp block) @ UInt32SetLE (mb_target block) @
     UInt32SetLE (mb_nonce block)"

definition tree_bytes :: "BRMerkleBlock \<Rightarrow> UInt256 list \<Rightarrow> bytes \<Rightarrow> bytes" where
  "tree_bytes block hs fs = UInt32SetLE (mb_totalTx block) @ varint_bytes (of_nat (length hs)) @
     concat (map UInt256Set hs) @ varint_bytes (of_nat (length fs)) @ fs"

text \<open>A block in memory: a header alone, or one with a tree whose arrays are as long as their counts.\<close>

definition tree_block :: "BRMerkleBlock \<Rightarrow> UInt256 list \<Rightarrow> bytes \<Rightarrow> bool" where
  "tree_block block hs fs \<longleftrightarrow> 0 < mb_totalTx block \<and> mb_hashes block = Some hs \<and> mb_hashesCount block = length hs \<and>
     mb_flags block = Some fs \<and> mb_flagsLen block = length fs \<and> length hs < 2 ^ 32 \<and> length fs < 2 ^ 32"

definition header_block :: "BRMerkleBlock \<Rightarrow> bool" where
  "header_block block \<longleftrightarrow> mb_totalTx block = 0 \<and> mb_hashes block = None \<and> mb_hashesCount block = 0 \<and>
     mb_flags block = None \<and> mb_flagsLen block = 0"

lemma length_header_bytes [simp]: "length (header_bytes block) = 80"
  by (simp add: header_bytes_def)

lemma length_concat_hashes [simp]: "length (concat (map UInt256Set hs)) = 32 * length hs"
  by (induction hs) simp_all

lemma hashes_of_concat: "hashes_of (concat (map UInt256Set hs)) = hs"
proof (rule nth_equalityI)
  fix i
  assume "i < length (hashes_of (concat (map UInt256Set hs)))"
  then have i: "i < length hs" by (simp add: hashes_of_def)
  have "drop (32 * i) (concat (map UInt256Set hs)) = concat (map UInt256Set (drop i hs))"
    by (induction hs arbitrary: i) (simp, case_tac i, auto)
  also have "drop i hs = hs ! i # drop (Suc i) hs" using i by (simp add: Cons_nth_drop_Suc)
  finally show "hashes_of (concat (map UInt256Set hs)) ! i = hs ! i" using i by (simp add: hashes_of_def)
qed (simp add: hashes_of_def)

lemma writes_header: "writes (poke_header block) (header_bytes block)"
  unfolding poke_header_def header_bytes_def by (intro writes_then writes_poke)

lemma poke_array_whole: "length bs = n \<Longrightarrow> poke_array (Some bs) n = poke bs"
  by (rule ext) (simp add: poke_array_def)

lemma writes_tree:
  assumes "tree_block block hs fs"
  shows "writes (poke_tree block) (tree_bytes block hs fs)"
proof -
  have "size_mul (length hs) 32 = 32 * length hs" using assms by (simp add: size_mul_def tree_block_def)
  then show ?thesis using assms unfolding poke_tree_def tree_bytes_def tree_block_def
    by (simp only: option.map poke_array_whole length_concat_hashes) (intro writes_then writes_poke writes_varint)
qed

lemma merkle_len_tree: "tree_block block hs fs \<Longrightarrow> merkle_len block = 80 + length (tree_bytes block hs fs)"
  using length_varint_bytes[of "of_nat (length hs)"] length_varint_bytes[of "of_nat (length fs)"]
  by (simp add: merkle_len_def tree_block_def tree_bytes_def BRVarIntSize_def BRVarIntSet_def)

lemma Serialize_tree:
  assumes "tree_block block hs fs" "merkle_len block \<le> length d"
  shows "BRMerkleBlockSerialize block (Some d) =
    Inr (merkle_len block, Some (header_bytes block @ tree_bytes block hs fs @ drop (merkle_len block) d))"
proof -
  have t: "0 < mb_totalTx block" using assms(1) by (simp add: tree_block_def)
  have "rbind (poke_header block ([] @ d, length ([] :: bytes))) (poke_tree block) =
      Inr (([] @ header_bytes block @ tree_bytes block hs fs) @ drop (length (header_bytes block @ tree_bytes block hs fs)) d,
           length ([] @ header_bytes block @ tree_bytes block hs fs))"
  proof (rule writes_then[OF writes_header writes_tree[OF assms(1)], unfolded writes_def, rule_format])
    show "length (header_bytes block @ tree_bytes block hs fs) \<le> length d"
      using assms(2) merkle_len_tree[OF assms(1)] by simp
  qed
  then show ?thesis using assms(2) t merkle_len_tree[OF assms(1)]
    by (simp add: BRMerkleBlockSerialize_def rbind_assoc[symmetric])
qed

lemma Serialize_header:
  assumes "header_block block" "80 \<le> length d"
  shows "BRMerkleBlockSerialize block (Some d) = Inr (80, Some (header_bytes block @ drop 80 d))"
  using assms writes_header[of block, unfolded writes_def, rule_format, of d "[]"]
  by (simp add: BRMerkleBlockSerialize_def merkle_len_def header_block_def)

definition parsed_header :: "BRMerkleBlock \<Rightarrow> BRMerkleBlock" where
  "parsed_header block = BRMerkleBlockNew\<lparr>mb_version := mb_version block, mb_prevBlock := mb_prevBlock block,
     mb_merkleRoot := mb_merkleRoot block, mb_timestamp := mb_timestamp block, mb_target := mb_target block,
     mb_nonce := mb_nonce block\<rparr>"

lemma drop_header:
  "drop 4 (header_bytes b @ r) = UInt256Set (mb_prevBlock b) @ UInt256Set (mb_merkleRoot b) @ UInt32SetLE (mb_timestamp b) @
     UInt32SetLE (mb_target b) @ UInt32SetLE (mb_nonce b) @ r"
  "drop 36 (header_bytes b @ r) = UInt256Set (mb_merkleRoot b) @ UInt32SetLE (mb_timestamp b) @
     UInt32SetLE (mb_target b) @ UInt32SetLE (mb_nonce b) @ r"
  "drop 68 (header_bytes b @ r) = UInt32SetLE (mb_timestamp b) @ UInt32SetLE (mb_target b) @ UInt32SetLE (mb_nonce b) @ r"
  "drop 72 (header_bytes b @ r) = UInt32SetLE (mb_target b) @ UInt32SetLE (mb_nonce b) @ r"
  "drop 76 (header_bytes b @ r) = UInt32SetLE (mb_nonce b) @ r"
  "drop 80 (header_bytes b @ r) = r"
  "UInt32GetLE (header_bytes b @ r) = mb_version b"
  by (simp_all add: header_bytes_def)

lemma Parse_header:
  "BRMerkleBlockParse (header_bytes block @ r) =
     rbind (if 4 \<le> length r then parse_tree (header_bytes block @ r) (parsed_header block) else Inr (parsed_header block))
       (\<lambda>b. Inr (Some (b\<lparr>mb_blockHash := UInt256Get (BRSHA256_2 (header_bytes block))\<rparr>)))"
  by (simp add: BRMerkleBlockParse_def drop_header parsed_header_def Let_def del: drop_append)

lemma parse_array_here:
  assumes "drop off buf = bs @ r" "off \<le> length buf" "length buf < 2 ^ 63"
  shows "parse_array buf off (length bs) = Inr (Some bs)"
proof -
  have l: "off + length bs \<le> length buf" using size_add_at[OF assms] by simp
  then have "can_alloc (length bs)" using assms(3) by (simp add: can_alloc_def)
  then show ?thesis using size_add_at[OF assms] sub_at[OF assms(1,2)] by (simp add: parse_array_def)
qed

lemma Parse_tree:
  assumes "tree_block block hs fs"
  shows "parse_tree (header_bytes block @ tree_bytes block hs fs) b =
    Inr (b\<lparr>mb_totalTx := mb_totalTx block, mb_hashesCount := length hs, mb_hashes := Some hs, mb_flagsLen := length fs,
           mb_flags := Some fs\<rparr>)"
proof -
  let ?buf = "header_bytes block @ tree_bytes block hs fs" and ?v = "\<lambda>xs. varint_bytes (of_nat (length xs))"
  have l: "length hs < 2 ^ 32" "length fs < 2 ^ 32" using assms by (simp_all add: tree_block_def)
  have lb: "length ?buf < 2 ^ 63"
    using l length_varint_bytes(2)[of "of_nat (length hs)"] length_varint_bytes(2)[of "of_nat (length fs)"]
    by (simp add: tree_bytes_def)
  have d1: "drop 84 ?buf = ?v hs @ concat (map UInt256Set hs) @ ?v fs @ fs" by (simp add: tree_bytes_def)
  note v1 = varint_at_field[OF d1 _ lb]
  let ?o = "84 + length (?v hs)"
  have d2: "drop ?o ?buf = concat (map UInt256Set hs) @ ?v fs @ fs" using v1(2) l by simp
  have o2: "?o \<le> length ?buf" by (simp add: tree_bytes_def)
  note a2 = parse_array_here[OF d2 o2 lb] size_add_at[OF d2 o2 lb]
  let ?o' = "?o + 32 * length hs"
  have d3: "drop ?o' ?buf = ?v fs @ fs" 
  proof -
    have "drop ?o' ?buf = drop (length (concat (map UInt256Set hs))) (drop ?o ?buf)"
      by (simp only: drop_drop length_concat_hashes add.commute)
    then show ?thesis unfolding d2 by (simp only: drop_append drop_all diff_self_eq_0 diff_0_eq_0 drop_0 append_Nil order_refl)
  qed
  note v3 = varint_at_field[OF d3 _ lb]
  let ?o'' = "?o' + length (?v fs)"
  have d4: "drop ?o'' ?buf = fs @ []" using v3(2) l by simp
  have o4: "?o'' \<le> length ?buf" by (simp add: tree_bytes_def)
  have "size_mul (length hs) 32 = 32 * length hs" using l by (simp add: size_mul_def)
  moreover have "varint_at ?buf 84 = (length hs, ?o)" "varint_at ?buf ?o' = (length fs, ?o'')" using v1(1) v3(1) l by simp_all
  moreover have "UInt32GetLE (drop 80 ?buf) = mb_totalTx block" by (simp add: tree_bytes_def)
  ultimately show ?thesis
    using a2 parse_array_here[OF d4 o4 lb]
    by (simp add: parse_tree_def Let_def hashes_of_concat case_prod_beta del: drop_append)
qed

lemma parse_array_total:
  assumes "off + len < 2 ^ 64" "length buf < 2 ^ 62"
  shows "\<exists>r. parse_array buf off len = Inr r"
  using assms by (auto simp: parse_array_def size_add_def script_sub_def)

lemma BRVarInt_le: "BRVarInt b = (i, n) \<Longrightarrow> 1 \<le> n \<and> n \<le> 9" "BRVarInt [] = (0, 1)"
  by (auto simp: BRVarInt_def Let_def VAR_INT16_HEADER_def VAR_INT32_HEADER_def VAR_INT64_HEADER_def split: if_splits)

lemma parse_tree_total:
  assumes "84 \<le> length buf" "length buf < 2 ^ 62"
  shows "\<exists>r. parse_tree buf block = Inr r"
proof -
  obtain c n where v: "BRVarInt (drop 84 buf) = (c, n)" by fastforce
  then have n: "n \<le> 9" using BRVarInt_le by blast
  then have va: "varint_at buf 84 = (unat c, 84 + n)" by (simp add: varint_at_def v size_add_def)
  let ?len = "size_mul (unat c) 32"
  have "\<exists>r. parse_array buf (84 + n) ?len = Inr r"
  proof (cases "can_alloc ?len")
    case True
    then show ?thesis using n assms(2) by (intro parse_array_total) (auto simp: can_alloc_def)
  qed (simp add: parse_array_def)
  moreover have "\<exists>r. (case varint_at buf off of (fl, off) \<Rightarrow> rbind (parse_array buf off fl) (f fl)) = Inr r"
    if f: "\<And>fl fs. \<exists>r. f fl fs = Inr r" for off and f :: "nat \<Rightarrow> bytes option \<Rightarrow> BRMerkleBlock res"
  proof -
    obtain fl m where w: "BRVarInt (drop off buf) = (fl, m)" by fastforce
    have "\<exists>r. parse_array buf (size_add off m) (unat fl) = Inr r"
    proof (cases "off < length buf \<and> can_alloc (unat fl)")
      case True
      then have "size_add off m = off + m" "off + m + unat fl < 2 ^ 64"
        using BRVarInt_le(1)[OF w] assms(2) by (auto simp: size_add_def can_alloc_def)
      then show ?thesis using assms(2) by (auto intro: parse_array_total)
    next
      case False
      then have "unat fl = 0 \<or> \<not> can_alloc (unat fl)" using w BRVarInt_le(2) by auto
      then show ?thesis by (auto simp: parse_array_def script_sub_def size_add_def)
    qed
    then show ?thesis using f by (auto simp: varint_at_def w)
  qed
  ultimately show ?thesis using va by (auto simp: parse_tree_def Let_def)
qed

text \<open>
  C33: parsing returns for every message, without reading outside of it: the lengths in the message may make
  sizes and offsets wrap around, but then nothing is allocated or nothing is read. A block with a tree, and a
  header alone, are parsed back as they are serialised, with the hash of the header; the serialiser returns
  the length, and leaves what follows in the buffer.
\<close>

theorem BRMerkleBlock_roundtrip:
  assumes "tree_block block hs fs" "header_block header" "length d = merkle_len block" "length msg < 2 ^ 62"
  shows "(\<exists>r. BRMerkleBlockParse msg = Inr r) \<and>
    (\<exists>buf. BRMerkleBlockSerialize block (Some (d @ rest)) = Inr (length d, Some (buf @ rest)) \<and>
       BRMerkleBlockSerialize block None = Inr (length buf, None) \<and>
       BRMerkleBlockParse buf = Inr (Some (block\<lparr>mb_blockHash := UInt256Get (BRSHA256_2 (take 80 buf)),
         mb_height := BLOCK_UNKNOWN_HEIGHT\<rparr>))) \<and>
    (\<exists>buf. BRMerkleBlockSerialize header (Some (replicate 80 0)) = Inr (80, Some buf) \<and>
       BRMerkleBlockParse buf = Inr (Some (header\<lparr>mb_blockHash := UInt256Get (BRSHA256_2 buf),
         mb_height := BLOCK_UNKNOWN_HEIGHT\<rparr>)))"
proof (intro conjI)
  show "\<exists>r. BRMerkleBlockParse msg = Inr r"
    using parse_tree_total[OF _ assms(4)] by (auto simp: BRMerkleBlockParse_def Let_def rbind_def split: sum.split)
      (metis Inr_not_Inl)
next
  let ?buf = "header_bytes block @ tree_bytes block hs fs"
  have l: "merkle_len block = length ?buf" using merkle_len_tree[OF assms(1)] by simp
  have "BRMerkleBlockSerialize block (Some (d @ rest)) = Inr (length d, Some (?buf @ rest))"
    using Serialize_tree[OF assms(1), of "d @ rest"] assms(3) by simp
  moreover have "BRMerkleBlockParse ?buf = Inr (Some (block\<lparr>mb_blockHash := UInt256Get (BRSHA256_2 (take 80 ?buf)),
       mb_height := BLOCK_UNKNOWN_HEIGHT\<rparr>))"
  proof -
    have "4 \<le> length (tree_bytes block hs fs)" by (simp add: tree_bytes_def)
    moreover have "(parsed_header block)\<lparr>mb_totalTx := mb_totalTx block, mb_hashesCount := length hs, mb_hashes := Some hs,
        mb_flagsLen := length fs, mb_flags := Some fs, mb_blockHash := h\<rparr> =
        block\<lparr>mb_blockHash := h, mb_height := BLOCK_UNKNOWN_HEIGHT\<rparr>" for h
      using assms(1) by (cases block) (simp add: tree_block_def parsed_header_def BRMerkleBlockNew_def BR_MERKLE_BLOCK_NONE_def)
    ultimately show ?thesis using Parse_header[of block "tree_bytes block hs fs"] Parse_tree[OF assms(1)] by simp
  qed
  ultimately show "\<exists>buf. BRMerkleBlockSerialize block (Some (d @ rest)) = Inr (length d, Some (buf @ rest)) \<and>
       BRMerkleBlockSerialize block None = Inr (length buf, None) \<and>
       BRMerkleBlockParse buf = Inr (Some (block\<lparr>mb_blockHash := UInt256Get (BRSHA256_2 (take 80 buf)),
         mb_height := BLOCK_UNKNOWN_HEIGHT\<rparr>))"
    using l by (intro exI[of _ ?buf]) (simp add: BRMerkleBlockSerialize_def)
next
  have "(parsed_header header)\<lparr>mb_blockHash := h\<rparr> = header\<lparr>mb_blockHash := h, mb_height := BLOCK_UNKNOWN_HEIGHT\<rparr>" for h
    using assms(2) by (cases header) (simp add: header_block_def parsed_header_def BRMerkleBlockNew_def BR_MERKLE_BLOCK_NONE_def)
  then show "\<exists>buf. BRMerkleBlockSerialize header (Some (replicate 80 0)) = Inr (80, Some buf) \<and>
       BRMerkleBlockParse buf = Inr (Some (header\<lparr>mb_blockHash := UInt256Get (BRSHA256_2 buf),
         mb_height := BLOCK_UNKNOWN_HEIGHT\<rparr>))"
    using Serialize_header[OF assms(2), of "replicate 80 0"] Parse_header[of header "[]"] by simp
qed

theorem BRMerkleBlock_roundtrip_witness:
  "\<exists>buf. length buf = 119 \<and> BRMerkleBlockParse buf = Inr (Some (BRMerkleBlockNew\<lparr>mb_totalTx := 1, mb_hashes := Some [9],
     mb_hashesCount := 1, mb_flags := Some [1], mb_flagsLen := 1, mb_blockHash := UInt256Get (BRSHA256_2 (take 80 buf))\<rparr>))"
proof -
  let ?b = "BRMerkleBlockNew\<lparr>mb_totalTx := 1, mb_hashes := Some [9], mb_hashesCount := 1, mb_flags := Some [1], mb_flagsLen := 1\<rparr>"
  have t: "tree_block ?b [9] [1]" by (simp add: tree_block_def)
  have h: "header_block BRMerkleBlockNew" by (simp add: header_block_def BRMerkleBlockNew_def BR_MERKLE_BLOCK_NONE_def)
  have l: "merkle_len ?b = 119"
    by (simp add: merkle_len_def BRVarIntSize_def BRVarIntSet_def varint_bytes_def VAR_INT16_HEADER_def)
  have "length (replicate 119 (0 :: u8)) = merkle_len ?b" "length ([] :: bytes) < 2 ^ 62" using l by simp_all
  note BRMerkleBlock_roundtrip[OF t h this]
  from this[THEN conjunct2, THEN conjunct1] obtain buf where b: "BRMerkleBlockSerialize ?b None = Inr (length buf, None)"
      "BRMerkleBlockParse buf = Inr (Some (?b\<lparr>mb_blockHash := UInt256Get (BRSHA256_2 (take 80 buf)),
         mb_height := BLOCK_UNKNOWN_HEIGHT\<rparr>))" by blast
  have "length buf = 119" using b(1) l by (simp add: BRMerkleBlockSerialize_def)
  then show ?thesis using b(2) by (intro exI[of _ buf]) (simp add: BRMerkleBlockNew_def)
qed

section \<open>Proof of work\<close>

lemma hash_below_le_val:
  "n \<le> length h \<Longrightarrow> n \<le> length t \<Longrightarrow> hash_below h t n \<longleftrightarrow> le_val (take n h) \<le> le_val (take n t)"
proof (induction n)
  case (Suc n)
  have v: "le_val (take (Suc n) xs) = le_val (take n xs) + 256 ^ n * unat (xs ! n)" "le_val (take n xs) < 256 ^ n"
    if "Suc n \<le> length xs" for xs
    using that le_val_less[of "take n xs"] by (simp_all add: take_Suc_conv_app_nth le_val_append)
  have "x + 256 ^ n * a < y + 256 ^ n * b" if "a < b" "x < 256 ^ n" for x y a b :: nat
  proof -
    have "256 ^ n * (a + 1) \<le> 256 ^ n * b" using that(1) by (intro mult_le_mono2) simp
    then show ?thesis using that(2) by simp
  qed
  note lt = this[OF _ v(2)]
  consider "h ! n < t ! n" | "t ! n < h ! n" | "h ! n = t ! n" by (metis linorder_neqE)
  then show ?case
  proof cases
    case 1
    then show ?thesis using lt[of "unat (h ! n)" "unat (t ! n)" h "le_val (take n t)"] Suc.prems v(1)
      by (simp add: word_less_nat_alt)
  next
    case 2
    then have "\<not> h ! n < t ! n" by simp
    then show ?thesis using 2 lt[of "unat (t ! n)" "unat (h ! n)" t "le_val (take n h)"] Suc.prems v(1)
      by (simp add: word_less_nat_alt)
  next
    case 3
    then show ?thesis using Suc v(1) by simp
  qed
qed simp

text \<open>The number that the compact format stands for.\<close>

definition target_value :: "u32 \<Rightarrow> nat" where
  "target_value t = (if 3 < target_size t then unat (target_bits t) * 256 ^ (target_size t - 3)
     else unat (target_bits t) div 256 ^ (3 - target_size t))"

lemma target_bits_take: "target_bits t = take_bit 24 t"
proof -
  have "(0x00ffffff :: u32) = mask 24" by (simp add: mask_eq_exp_minus_1)
  then show ?thesis by (simp add: target_bits_def take_bit_eq_mask)
qed

lemma target_bits_less: "unat (target_bits t) < 2 ^ 24"
  by (simp add: target_bits_take unat_take_bit)

lemma target_bytes_value:
  assumes "target_size t \<le> 31"
  obtains d where "target_bytes t = Inr d" "length d = 32" "le_val d = target_value t"
proof (cases "3 < target_size t")
  case True
  let ?n = "target_size t - 3" and ?b = "UInt32SetLE (target_bits t)"
  have "le_val ?b = unat (target_bits t)" using target_bits_less[of t] by (simp add: byte_simps le_val_le_bytes)
  then have "le_val (store (replicate 32 0) ?n ?b) = unat (target_bits t) * 256 ^ ?n"
    using assms by (simp add: store_def le_val_append)
  then show ?thesis using True assms by (intro that) (simp_all add: target_bytes_def poke_def Let_def target_value_def)
next
  case False
  let ?v = "drop_bit ((3 - target_size t) * 8) (target_bits t)" and ?k = "3 - target_size t"
  have "(2 :: nat) ^ (8 * ?k) = 256 ^ ?k" by (simp only: power_mult) simp
  then have u: "unat ?v = unat (target_bits t) div 256 ^ ?k" by (simp add: unat_drop_bit mult.commute)
  also have "... < 2 ^ 24" using target_bits_less[of t] by (meson div_le_dividend le_less_trans)
  finally have "le_val (UInt32SetLE ?v) = unat ?v" by (simp add: byte_simps le_val_le_bytes)
  then have "le_val (store (replicate 32 0) 0 (UInt32SetLE ?v)) = target_value t"
    using False u by (simp add: store_def le_val_append target_value_def)
  then show ?thesis using False by (intro that) (simp_all add: target_bytes_def poke_def Let_def)
qed

lemma target_bytes_overflow: "31 < target_size t \<Longrightarrow> target_bytes t = Inl OutOfBounds"
  by (simp add: target_bytes_def poke_def Let_def)

lemma target_in_range_nat:
  "target_in_range t \<longleftrightarrow> 0 < unat (target_bits t) \<and> unat (target_bits t) < 2 ^ 23 \<and>
     (target_size t < 29 \<or> target_size t = 29 \<and> unat (target_bits t) \<le> 0xffff)"
proof -
  have "target_bits t AND 0x00800000 = 0 \<longleftrightarrow> unat (target_bits t) < 2 ^ 23"
  proof -
    have "(0x00800000 :: u32) = push_bit 23 1" by simp
    then have "target_bits t AND 0x00800000 = 0 \<longleftrightarrow> \<not> bit (target_bits t) 23"
      by (metis and_exp_eq_0_iff_not_bit push_bit_of_1)
    also have "bit (target_bits t) 23 \<longleftrightarrow> bit (unat (target_bits t)) 23" by (simp add: bit_unsigned_iff)
    also have "... \<longleftrightarrow> odd (unat (target_bits t) div 2 ^ 23)" by (rule bit_iff_odd)
    also have "\<not> ... \<longleftrightarrow> unat (target_bits t) < 2 ^ 23"
    proof (cases "unat (target_bits t) < 2 ^ 23")
      case False
      then have "unat (target_bits t) div 2 ^ 23 = 1" using target_bits_less[of t] by (intro div_nat_eqI) simp_all
      then show ?thesis using False by simp
    qed simp
    finally show ?thesis .
  qed
  moreover have "target_size MAX_PROOF_OF_WORK = 29" "target_bits MAX_PROOF_OF_WORK = 0xffff"
    by (simp_all add: target_size_def target_bits_def MAX_PROOF_OF_WORK_def)
  moreover have "\<not> 0xffff < target_bits t \<longleftrightarrow> unat (target_bits t) \<le> 0xffff"
    by (simp add: not_less word_le_nat_alt)
  ultimately show ?thesis by (auto simp: target_in_range_def unat_gt_0 word_neq_0_conv)
qed

text \<open>
  C34: a block is valid when the root of its tree is right, its time is not beyond the drift, its target is a
  positive number that is not above the least difficulty, and its hash, read as a number, is not above the
  target. The drift is added in 32 bits, and wraps around. A target of more than 31 bytes is not only refused:
  it is stored outside of the local variable that is to hold it.
\<close>

theorem BRMerkleBlockIsValid_correct:
  assumes "BRMerkleBlockRoot block = Inr root"
  shows "BRMerkleBlockIsValid block now =
    (if 31 < target_size (mb_target block) then Inl OutOfBounds
     else Inr ((mb_totalTx block = 0 \<or> root = mb_merkleRoot block) \<and>
       unat (mb_timestamp block) \<le> (unat now + 7200) mod 2 ^ 32 \<and>
       0 < unat (target_bits (mb_target block)) \<and> unat (target_bits (mb_target block)) < 2 ^ 23 \<and>
       (target_size (mb_target block) < 29 \<or> target_size (mb_target block) = 29 \<and> unat (target_bits (mb_target block)) \<le> 0xffff) \<and>
       unat (mb_blockHash block) \<le> target_value (mb_target block)))"
proof (cases "31 < target_size (mb_target block)")
  case True
  then show ?thesis by (simp add: BRMerkleBlockIsValid_def assms target_bytes_overflow Let_def)
next
  case False
  let ?t = "mb_target block"
  obtain d where d: "target_bytes ?t = Inr d" "length d = 32" "le_val d = target_value ?t"
    by (rule target_bytes_value[of ?t]) (use False in auto)
  have "unat (mb_blockHash block) mod 256 ^ 32 = unat (mb_blockHash block)"
    using unat_less_power[of "mb_blockHash block"] by simp
  then have "hash_below (UInt256Set (mb_blockHash block)) d 32 \<longleftrightarrow> unat (mb_blockHash block) \<le> target_value ?t"
    using d(2,3) by (simp add: hash_below_le_val byte_simps le_val_le_bytes)
  moreover have "\<not> now + BLOCK_MAX_TIME_DRIFT < mb_timestamp block \<longleftrightarrow>
      unat (mb_timestamp block) \<le> (unat now + 7200) mod 2 ^ 32"
    by (simp add: not_less word_le_nat_alt BLOCK_MAX_TIME_DRIFT_def unat_word_ariths)
  moreover have "mb_totalTx block = 0 \<longleftrightarrow> \<not> 0 < mb_totalTx block" by (simp add: word_neq_0_conv[symmetric])
  ultimately show ?thesis using d(1) False
    by (auto simp: BRMerkleBlockIsValid_def assms Let_def target_in_range_nat)
qed

theorem BRMerkleBlockIsValid_correct_witness:
  "BRMerkleBlockIsValid (BRMerkleBlockNew\<lparr>mb_target := 0x20000001\<rparr>) 0 = Inl OutOfBounds \<and>
   BRMerkleBlockIsValid (BRMerkleBlockNew\<lparr>mb_target := 0x1d00ffff, mb_blockHash := 77\<rparr>) 100 = Inr True"
proof -
  have "ceil_log2 0 = Some 0" by (simp add: ceil_log2_def ceil_log2_loop.simps)
  then have r: "BRMerkleBlockRoot (BRMerkleBlockNew\<lparr>mb_target := t, mb_blockHash := h\<rparr>) = Inr 0" for t h
    by (simp add: BRMerkleBlockRoot_def walk_tree_def BRMerkleBlockRootR.simps more_nodes_def BRMerkleBlockNew_def
        BR_MERKLE_BLOCK_NONE_def)
  from r[where t = "0x20000001" and h = 0] have r1: "BRMerkleBlockRoot (BRMerkleBlockNew\<lparr>mb_target := 0x20000001\<rparr>) = Inr 0"
    by (simp add: BRMerkleBlockNew_def BR_MERKLE_BLOCK_NONE_def)
  show ?thesis
    using BRMerkleBlockIsValid_correct[OF r1, of 0] BRMerkleBlockIsValid_correct[OF r[where t = "0x1d00ffff" and h = 77], of 100]
    by (simp add: target_size_def target_bits_def target_value_def BRMerkleBlockNew_def BR_MERKLE_BLOCK_NONE_def)
qed

section \<open>Difficulty\<close>

lemma normalize_spec:
  "normalize t n = (t', n') \<Longrightarrow> n \<le> n' \<and> 1 \<le> n' \<and> unat t' = unat t div 256 ^ nat (n' - n) \<and> unat t' \<le> 0x7fffff \<and>
     (n' = n \<or> n' = 1 \<or> 0x8000 \<le> unat t')"
proof (induction t n arbitrary: t' n' rule: normalize.induct)
  case (1 t n)
  show ?case
  proof (cases "n < 1 \<or> 0x007fffff < t")
    case True
    have "normalize (drop_bit 8 t) (n + 1) = (t', n')" using 1(2) True by (subst (asm) normalize.simps) simp
    note IH = 1(1)[OF True this]
    have u: "unat (drop_bit 8 t) = unat t div 256" by (simp add: unat_drop_bit)
    have "nat (n' - n) = Suc (nat (n' - (n + 1)))" using IH by arith
    then have "unat t div 256 div 256 ^ nat (n' - (n + 1)) = unat t div 256 ^ nat (n' - n)" by (simp add: div_mult2_eq)
    moreover have "n' = n + 1 \<Longrightarrow> n' = 1 \<or> 0x8000 \<le> unat t'"
      using True IH u by (auto simp: word_less_nat_alt)
    ultimately show ?thesis using IH u by auto
  next
    case False
    then have "t' = t" "n' = n" using 1(2) by (simp_all add: normalize.simps[of t n])
    then show ?thesis using False by (simp add: not_less word_le_nat_alt)
  qed
qed

lemma next_timespan_range:
  "TARGET_TIMESPAN div 4 \<le> next_timespan a b" "next_timespan a b \<le> TARGET_TIMESPAN * 4"
  by (simp_all add: next_timespan_def Let_def TARGET_TIMESPAN_def)

text \<open>The compact form of a mantissa and a size, put together and taken apart.\<close>

lemma compact_parts:
  fixes t :: u64 and n :: int
  assumes "unat t < 2 ^ 24" "0 \<le> n" "n < 256"
  shows "target_bits (ucast t OR push_bit 24 (word_of_int n)) = ucast t"
    "target_size (ucast t OR push_bit 24 (word_of_int n)) = nat n" "unat (ucast t :: u32) = unat t"
proof -
  have u: "unat (ucast t :: u32) = unat t" using assms(1) by (simp add: unat_ucast)
  have t: "take_bit 24 (ucast t :: u32) = ucast t" using assms(1) u by (intro take_bit_unat_small) simp
  show "target_bits (ucast t OR push_bit 24 (word_of_int n)) = ucast t"
    by (simp add: target_bits_take take_bit_or t take_bit_push_bit)
  have "drop_bit 24 (ucast t :: u32) = 0"
    using assms(1) by (intro unsigned_word_eqI[where 'a = nat]) (simp add: unat_drop_bit u)
  moreover have "drop_bit 24 (push_bit 24 (word_of_int n :: u32)) = word_of_int n"
  proof -
    have "unat (word_of_int n :: u32) = nat n" using assms(2,3) by (simp add: unat_eq_nat_uint uint_word_of_int)
    then show ?thesis using assms(2,3)
      by (intro unsigned_word_eqI[where 'a = nat]) (simp add: unat_drop_bit unat_push_bit)
  qed
  ultimately have "drop_bit 24 (ucast t OR push_bit 24 (word_of_int n) :: u32) = word_of_int n" by (simp add: drop_bit_or)
  then show "target_size (ucast t OR push_bit 24 (word_of_int n)) = nat n"
    using assms(2,3) by (simp add: target_size_def unat_eq_nat_uint uint_word_of_int)
  show "unat (ucast t :: u32) = unat t" by (rule u)
qed

text \<open>The new mantissa before it is normalised.\<close>

lemma next_mantissa:
  assumes "TARGET_TIMESPAN div 4 \<le> ts" "ts \<le> TARGET_TIMESPAN * 4" "unat m < 2 ^ 24"
  defines "q \<equiv> (ucast (m :: u32) * word_of_int ts div word_of_int (TARGET_TIMESPAN div 256) :: u64)"
  shows "unat q \<le> 1024 * unat m" "64 * unat m \<le> unat q"
proof -
  have ts: "302400 \<le> nat ts" "nat ts \<le> 4838400" using assms(1,2) by (simp_all add: TARGET_TIMESPAN_def)
  have "unat (word_of_int ts :: u64) = nat ts"
    using ts by (simp add: unat_eq_nat_uint uint_word_of_int)
  moreover have "unat m * nat ts \<le> 2 ^ 24 * 4838400" using assms(3) ts by (intro mult_le_mono) simp_all
  ultimately have "unat (ucast m * word_of_int ts :: u64) = unat m * nat ts"
    using assms(3) by (simp add: unat_word_ariths unat_ucast)
  then have q: "unat q = unat m * nat ts div 4725" by (simp add: q_def unat_div TARGET_TIMESPAN_def)
  have "unat m * nat ts \<le> unat m * 4838400" "unat m * 302400 \<le> unat m * nat ts" using ts by (auto intro: mult_le_mono2)
  then show "unat q \<le> 1024 * unat m" "64 * unat m \<le> unat q" unfolding q by linarith+
qed

lemma next_target_spec:
  assumes "target_in_range t" "3 \<le> target_size t" "TARGET_TIMESPAN div 4 \<le> ts" "ts \<le> TARGET_TIMESPAN * 4"
  shows "target_in_range (next_target t ts)" "target_value (next_target t ts) \<le> 4 * target_value t"
proof -
  let ?m = "target_bits t" and ?s = "target_size t"
  define q where "q = (ucast ?m * word_of_int ts div word_of_int (TARGET_TIMESPAN div 256) :: u64)"
  have m: "0 < unat ?m" "unat ?m < 2 ^ 23" "?s \<le> 29" using assms(1) by (auto simp: target_in_range_nat)
  have q: "unat q \<le> 1024 * unat ?m" "64 * unat ?m \<le> unat q"
    using next_mantissa[OF assms(3,4), of ?m] m(2) by (simp_all add: q_def)
  obtain a n where n: "normalize q (int ?s - 1) = (a, n)" by fastforce
  note N = normalize_spec[OF n]
  have pos: "0 < unat a" using N q(2) m(1) assms(2) by auto
  obtain k where k: "n = int ?s - 1 + int k" using N zle_iff_zadd[of "int ?s - 1" n] by auto
  have le: "unat a * 256 ^ k \<le> 1024 * unat ?m"
    using N q(1) k by (metis div_times_less_eq_dividend le_trans add_diff_cancel_left' nat_int)
  have max: "target_bits 0x1d00ffff = 0xffff" "target_size 0x1d00ffff = 29" by (simp_all add: target_bits_def target_size_def)
  have val: "unat a * 256 ^ (nat n - 3) \<le> 4 * target_value t" if n3: "3 \<le> n"
  proof (cases k)
    case 0
    then have "?s - 3 = Suc (nat n - 3)" "3 < ?s" using k n3 by simp_all
    then have "target_value t = 256 * (unat ?m * 256 ^ (nat n - 3))" by (simp add: target_value_def)
    moreover have "unat a * 256 ^ (nat n - 3) \<le> 1024 * unat ?m * 256 ^ (nat n - 3)" using le 0 by (intro mult_le_mono1) simp
    ultimately show ?thesis by simp
  next
    case (Suc k')
    then have "nat n - 3 = k' + (?s - 3)" using k assms(2) by simp
    moreover have "unat a * 256 ^ k' \<le> 4 * unat ?m" using le Suc by simp
    then have "unat a * 256 ^ k' * 256 ^ (?s - 3) \<le> 4 * unat ?m * 256 ^ (?s - 3)" by (rule mult_le_mono1)
    moreover have "target_value t = unat ?m * 256 ^ (?s - 3)" using assms(2) by (simp add: target_value_def)
    ultimately show ?thesis by (simp add: power_add mult.assoc)
  qed
  have "next_target t ts = (if 29 < n \<or> n = 29 \<and> 0xffff < a then 0x1d00ffff else ucast a OR push_bit 24 (word_of_int n))"
    using n by (simp add: next_target_def q_def[symmetric] Let_def MAX_PROOF_OF_WORK_def max)
  moreover have "target_in_range (0x1d00ffff :: u32) \<and> target_value 0x1d00ffff \<le> 4 * target_value t"
    if c: "29 < n \<or> n = 29 \<and> 0xffff < a"
  proof -
    have "0xffff * 256 ^ 26 \<le> unat a * 256 ^ (nat n - 3)"
    proof (cases "n = 29")
      case True
      then show ?thesis using c by (simp add: word_less_nat_alt)
    next
      case False
      then have "0x8000 \<le> unat a" "27 \<le> nat n - 3" using c N m(3) by auto
      moreover from this(2) have "(256 :: nat) ^ 27 \<le> 256 ^ (nat n - 3)" by (rule power_increasing) simp
      ultimately have "0x8000 * 256 ^ 27 \<le> unat a * 256 ^ (nat n - 3)" by (intro mult_le_mono)
      then show ?thesis by simp
    qed
    also have "3 \<le> n" using c by auto
    note val[OF this]
    finally have "0xffff * 256 ^ 26 \<le> 4 * target_value t" .
    moreover have "target_value 0x1d00ffff = 0xffff * 256 ^ 26" by (simp add: target_value_def max)
    ultimately show ?thesis by (simp only: target_in_range_nat max) simp
  qed
  moreover have "target_in_range (ucast a OR push_bit 24 (word_of_int n)) \<and>
      target_value (ucast a OR push_bit 24 (word_of_int n)) \<le> 4 * target_value t"
    if c: "\<not> (29 < n \<or> n = 29 \<and> 0xffff < a)"
  proof -
    note cp = compact_parts[of a n]
    have p: "target_bits (ucast a OR push_bit 24 (word_of_int n)) = ucast a"
      "target_size (ucast a OR push_bit 24 (word_of_int n)) = nat n" "unat (ucast a :: u32) = unat a"
      using cp N c by auto
    have "target_in_range (ucast a OR push_bit 24 (word_of_int n))"
      unfolding target_in_range_nat p using pos N[THEN conjunct2, THEN conjunct2, THEN conjunct2, THEN conjunct1] c
      by (auto simp: word_less_nat_alt)
    moreover have "2 \<le> n" using N assms(2) by simp
    moreover have "unat a div 256 ^ (3 - nat n) \<le> 4 * target_value t" if "n = 2"
    proof -
      have "k = 0" "?s = 3" using k that assms(2) by simp_all
      then show ?thesis using le that by (simp add: target_value_def)
    qed
    moreover have "target_value (ucast a OR push_bit 24 (word_of_int n)) =
        (if 3 < n then unat a * 256 ^ (nat n - 3) else unat a div 256 ^ (3 - nat n))"
      unfolding target_value_def p by auto
    ultimately show ?thesis using val by (cases "n = 2"; cases "n = 3") auto
  qed
  ultimately show "target_in_range (next_target t ts)" "target_value (next_target t ts) \<le> 4 * target_value t"
    by (simp_all split: if_splits)
qed




end
