(* ===== verification/BRBloomFilter.thy ===== *)
theory BRBloomFilter
  imports BRTransaction
begin

text \<open>
  \<open>BRBloomFilter.c\<close>: the filters by which peers select the transactions they send. A filter is an array of
  bits; the functions below read and write it through a number of hashes of the data. Every access to the
  array is checked against it.
\<close>

definition BLOOM_UPDATE_NONE :: u8 where "BLOOM_UPDATE_NONE = 0"
definition BLOOM_UPDATE_ALL :: u8 where "BLOOM_UPDATE_ALL = 1"
definition BLOOM_UPDATE_P2PUBKEY_ONLY :: u8 where "BLOOM_UPDATE_P2PUBKEY_ONLY = 2"
definition BLOOM_MAX_FILTER_LENGTH :: nat where "BLOOM_MAX_FILTER_LENGTH = 36000"
definition BLOOM_MAX_HASH_FUNCS :: nat where "BLOOM_MAX_HASH_FUNCS = 50"

record BRBloomFilter =
  bf_filter :: bytes
  bf_length :: nat
  bf_hashFuncs :: u32
  bf_elemCount :: size_t
  bf_tweak :: u32
  bf_flags :: u8

definition BR_BLOOM_FILTER_FULL :: BRBloomFilter where
  "BR_BLOOM_FILTER_FULL = \<lparr>bf_filter = [0xff], bf_length = 1, bf_hashFuncs = 0, bf_elemCount = 0, bf_tweak = 0,
     bf_flags = BLOOM_UPDATE_NONE\<rparr>"

text \<open>
  A new filter has a length and a number of hashes that are computed with floating point numbers: \<open>want\<close> is the
  length that the formula gives, and \<open>funcs\<close> the number of hashes it gives for a length.
\<close>

definition BRBloomFilterNew :: "nat \<Rightarrow> (nat \<Rightarrow> nat) \<Rightarrow> u32 \<Rightarrow> u8 \<Rightarrow> BRBloomFilter" where
  "BRBloomFilterNew want funcs tweak flags =
     (let n = (if BLOOM_MAX_FILTER_LENGTH < want then BLOOM_MAX_FILTER_LENGTH else want);
          n = (if n < 1 then 1 else n);
          k = (if BLOOM_MAX_HASH_FUNCS < funcs n then BLOOM_MAX_HASH_FUNCS else funcs n)
      in \<lparr>bf_filter = replicate n 0, bf_length = n, bf_hashFuncs = of_nat k, bf_elemCount = 0, bf_tweak = tweak,
          bf_flags = flags\<rparr>)"

definition BRBloomFilterHash :: "BRBloomFilter \<Rightarrow> bytes \<Rightarrow> u32 \<Rightarrow> nat res" where
  "BRBloomFilterHash bf data hashNum =
     (let n = bf_length bf * 8 mod 2 ^ 64 in
      if n = 0 then Inl DivByZero
      else Inr (unat (BRMurmur3_32 data (hashNum * 0xfba4c795 + bf_tweak bf)) mod n))"

definition bloom_get :: "bytes \<Rightarrow> nat \<Rightarrow> bool res" where
  "bloom_get f idx = (if idx div 8 < length f then Inr (bit (f ! (idx div 8)) (idx mod 8)) else Inl OutOfBounds)"

definition bloom_set :: "bytes \<Rightarrow> nat \<Rightarrow> bytes res" where
  "bloom_set f idx =
     (if idx div 8 < length f then Inr (f[idx div 8 := set_bit (idx mod 8) (f ! (idx div 8))]) else Inl OutOfBounds)"

fun contains_loop :: "BRBloomFilter \<Rightarrow> bytes \<Rightarrow> nat list \<Rightarrow> bool res" where
  "contains_loop bf data [] = Inr True"
| "contains_loop bf data (i # is) =
     rbind (BRBloomFilterHash bf data (of_nat i)) (\<lambda>idx.
     rbind (bloom_get (bf_filter bf) idx) (\<lambda>b.
     if b then contains_loop bf data is else Inr False))"

definition BRBloomFilterContainsData :: "BRBloomFilter \<Rightarrow> bytes option \<Rightarrow> bool res" where
  "BRBloomFilterContainsData bf data =
     (case data of
        None \<Rightarrow> Inr False
      | Some d \<Rightarrow> contains_loop bf d [0..<unat (bf_hashFuncs bf)])"

fun insert_loop :: "bytes \<Rightarrow> nat list \<Rightarrow> BRBloomFilter \<Rightarrow> BRBloomFilter res" where
  "insert_loop data [] bf = Inr bf"
| "insert_loop data (i # is) bf =
     rbind (BRBloomFilterHash bf data (of_nat i)) (\<lambda>idx.
     rbind (bloom_set (bf_filter bf) idx) (\<lambda>f.
     insert_loop data is (bf\<lparr>bf_filter := f\<rparr>)))"

definition BRBloomFilterInsertData :: "BRBloomFilter \<Rightarrow> bytes option \<Rightarrow> BRBloomFilter res" where
  "BRBloomFilterInsertData bf data =
     (case data of
        None \<Rightarrow> Inr bf
      | Some d \<Rightarrow>
          rbind (insert_loop d [0..<unat (bf_hashFuncs bf)] bf) (\<lambda>bf.
          Inr (bf\<lparr>bf_elemCount := bf_elemCount bf + 1\<rparr>)))"

text \<open>
  A message is parsed into a bf only if its length is at most the limit, so nothing wraps around for a
  bf that is returned. A null pointer is the empty message.
\<close>

definition BRBloomFilterParse :: "bytes \<Rightarrow> BRBloomFilter option res" where
  "BRBloomFilterParse buf =
     (let (n, off) = varint_at buf 0 in
      if buf \<noteq> [] \<and> n \<le> BLOOM_MAX_FILTER_LENGTH \<and> size_add off n \<le> length buf then
        rbind (script_sub buf off n) (\<lambda>f.
        let off = size_add off n; funcs = get_at UInt32GetLE 4 buf off;
            off = size_add off 4; tweak = get_at UInt32GetLE 4 buf off;
            off = size_add off 4; flags = (if size_add off 1 \<le> length buf then buf ! off else 0)
        in Inr (Some \<lparr>bf_filter = f, bf_length = n, bf_hashFuncs = funcs, bf_elemCount = 0, bf_tweak = tweak,
                      bf_flags = flags\<rparr>))
      else Inr None)"

definition bloom_len :: "BRBloomFilter \<Rightarrow> nat" where
  "bloom_len bf = (BRVarIntSize (of_nat (bf_length bf)) + bf_length bf + 4 + 4 + 1) mod 2 ^ 64"

definition poke_filter :: "BRBloomFilter \<Rightarrow> bytes \<times> nat \<Rightarrow> (bytes \<times> nat) res" where
  "poke_filter bf st =
     (if bf_length bf \<le> length (bf_filter bf) then poke (take (bf_length bf) (bf_filter bf)) st
      else Inl OutOfBounds)"

definition BRBloomFilterSerialize :: "BRBloomFilter \<Rightarrow> bytes option \<Rightarrow> (nat \<times> bytes option) res" where
  "BRBloomFilterSerialize bf buf =
     (case buf of
        None \<Rightarrow> Inr (bloom_len bf, None)
      | Some d \<Rightarrow>
          if bloom_len bf \<le> length d then
            rbind (rbind (poke_varint (bf_length bf) (d, 0)) (\<lambda>st.
                   rbind (poke_filter bf st) (\<lambda>st.
                   rbind (poke (UInt32SetLE (bf_hashFuncs bf)) st) (\<lambda>st.
                   rbind (poke (UInt32SetLE (bf_tweak bf)) st)
                         (poke [bf_flags bf]))))) (\<lambda>(d, _).
            Inr (bloom_len bf, Some d))
          else Inr (0, Some d))"

end
