(* ===== verification/BRBloomFilterCorrect.thy ===== *)
theory BRBloomFilterCorrect
  imports BRBloomFilter BRTransactionCorrect
begin

text \<open>
  Bloom filters as sets of marked positions. The interface of a filter is a locale; that no data that was
  inserted is ever missed is proved from it, and holds for the filters of \<open>BRBloomFilter.c\<close> also after they have
  been sent to a peer.
\<close>

section \<open>The interface of a filter\<close>

primrec insert_all :: "('f \<Rightarrow> 'd \<Rightarrow> 'f res) \<Rightarrow> 'd list \<Rightarrow> 'f \<Rightarrow> 'f res" where
  "insert_all ins [] f = Inr f"
| "insert_all ins (d # ds) f = rbind (ins f d) (insert_all ins ds)"

locale marking_filter =
  fixes ins :: "'f \<Rightarrow> 'd \<Rightarrow> 'f res" and has :: "'f \<Rightarrow> 'd \<Rightarrow> bool res" and ok :: "'f \<Rightarrow> bool"
    and marks :: "'f \<Rightarrow> nat set" and places :: "'f \<Rightarrow> 'd \<Rightarrow> nat set"
  assumes ins_marks: "ok f \<Longrightarrow> \<exists>f'. ins f d = Inr f' \<and> ok f' \<and> marks f' = marks f \<union> places f d \<and> places f' = places f"
    and has_marks: "ok f \<Longrightarrow> has f d = Inr (places f d \<subseteq> marks f)"
begin

lemma insert_all_marks:
  "ok f \<Longrightarrow> \<exists>f'. insert_all ins ds f = Inr f' \<and> ok f' \<and> places f' = places f \<and>
     marks f' = marks f \<union> (\<Union>d \<in> set ds. places f d)"
proof (induction ds arbitrary: f)
  case (Cons d ds)
  obtain g where g: "ins f d = Inr g" "ok g" "marks g = marks f \<union> places f d" "places g = places f"
    using ins_marks[OF Cons.prems] by blast
  from Cons.IH[OF g(2)] g show ?case by auto
qed simp

lemma never_missed:
  assumes "ok f"
  obtains f' where "insert_all ins ds f = Inr f'" "ok f'" "\<And>d. d \<in> set ds \<Longrightarrow> has f' d = Inr True"
    "\<And>d. has f' d = Inr (places f d \<subseteq> marks f \<union> (\<Union>e \<in> set ds. places f e))"
proof -
  obtain f' where f': "insert_all ins ds f = Inr f'" "ok f'" "places f' = places f"
      "marks f' = marks f \<union> (\<Union>d \<in> set ds. places f d)"
    using insert_all_marks[OF assms] by blast
  show ?thesis by (rule that[OF f'(1,2)]) (auto simp: has_marks[OF f'(2)] f'(3,4))
qed

end

section \<open>The filters of the library\<close>

definition bloom_ok :: "BRBloomFilter \<Rightarrow> bool" where
  "bloom_ok f \<longleftrightarrow> 0 < bf_length f \<and> bf_length f \<le> BLOOM_MAX_FILTER_LENGTH \<and> length (bf_filter f) = bf_length f"

definition bloom_marks :: "BRBloomFilter \<Rightarrow> nat set" where
  "bloom_marks f = {i. i < 8 * length (bf_filter f) \<and> bit (bf_filter f ! (i div 8)) (i mod 8)}"

definition bloom_place :: "BRBloomFilter \<Rightarrow> bytes \<Rightarrow> nat \<Rightarrow> nat" where
  "bloom_place f d i = unat (BRMurmur3_32 d (of_nat i * 0xfba4c795 + bf_tweak f)) mod (bf_length f * 8)"

definition bloom_places :: "BRBloomFilter \<Rightarrow> bytes \<Rightarrow> nat set" where
  "bloom_places f d = bloom_place f d ` {..<unat (bf_hashFuncs f)}"

lemma New_ok: "bloom_ok (BRBloomFilterNew want funcs tweak flags)"
  by (auto simp: bloom_ok_def BRBloomFilterNew_def Let_def BLOOM_MAX_FILTER_LENGTH_def)

lemma Hash_place:
  assumes "bloom_ok f"
  shows "BRBloomFilterHash f d (of_nat i) = Inr (bloom_place f d i)" "bloom_place f d i < 8 * length (bf_filter f)"
proof -
  show "BRBloomFilterHash f d (of_nat i) = Inr (bloom_place f d i)"
    using assms by (simp add: bloom_ok_def BRBloomFilterHash_def bloom_place_def BLOOM_MAX_FILTER_LENGTH_def)
  have "bloom_place f d i < bf_length f * 8" using assms by (simp only: bloom_place_def bloom_ok_def) simp
  then show "bloom_place f d i < 8 * length (bf_filter f)" using assms by (simp add: bloom_ok_def mult.commute)
qed

lemma bloom_get_marks: "i < 8 * length (bf_filter f) \<Longrightarrow> bloom_get (bf_filter f) i = Inr (i \<in> bloom_marks f)"
  by (auto simp: bloom_get_def bloom_marks_def)

lemma bloom_set_marks:
  assumes "i < 8 * length (bf_filter f)"
  obtains g where "bloom_set (bf_filter f) i = Inr g" "length g = length (bf_filter f)"
    "bloom_marks (f\<lparr>bf_filter := g\<rparr>) = insert i (bloom_marks f)"
proof -
  let ?f = "bf_filter f" and ?d = "i div 8"
  let ?g = "?f[?d := set_bit (i mod 8) (?f ! ?d)]"
  have d: "?d < length ?f" using assms by auto
  have "bit (?g ! (k div 8)) (k mod 8) \<longleftrightarrow> k = i \<or> bit (?f ! (k div 8)) (k mod 8)" if "k < 8 * length ?f" for k
  proof (cases "k div 8 = ?d")
    case True
    have "k mod 8 = i mod 8 \<longleftrightarrow> k = i" using True by (metis div_mult_mod_eq)
    then show ?thesis using True d by (auto simp: bit_set_bit_iff)
  next
    case False
    then show ?thesis by auto
  qed
  then have "bloom_marks (f\<lparr>bf_filter := ?g\<rparr>) = insert i (bloom_marks f)" using assms by (auto simp: bloom_marks_def)
  then show ?thesis using d by (intro that[of ?g]) (simp_all add: bloom_set_def)
qed

lemma contains_loop_marks:
  assumes "bloom_ok f"
  shows "contains_loop f d is = Inr (bloom_place f d ` set is \<subseteq> bloom_marks f)"
  by (induction "is") (simp_all add: Hash_place[OF assms] bloom_get_marks)

lemma insert_loop_marks:
  "bloom_ok f \<Longrightarrow> \<exists>f'. insert_loop d is f = Inr f' \<and> bloom_ok f' \<and>
     bloom_marks f' = bloom_marks f \<union> bloom_place f d ` set is \<and> f' = f\<lparr>bf_filter := bf_filter f'\<rparr>"
proof (induction "is" arbitrary: f)
  case (Cons i "is")
  obtain g where g: "bloom_set (bf_filter f) (bloom_place f d i) = Inr g" "length g = length (bf_filter f)"
      "bloom_marks (f\<lparr>bf_filter := g\<rparr>) = insert (bloom_place f d i) (bloom_marks f)"
    using bloom_set_marks[OF Hash_place(2)[OF Cons.prems]] by blast
  let ?g = "f\<lparr>bf_filter := g\<rparr>"
  have ok: "bloom_ok ?g" using Cons.prems g(2) by (simp add: bloom_ok_def)
  have p: "bloom_place ?g d = bloom_place f d" by (rule ext) (simp add: bloom_place_def)
  obtain f' where f': "insert_loop d is ?g = Inr f'" "bloom_ok f'"
      "bloom_marks f' = bloom_marks ?g \<union> bloom_place ?g d ` set is" "f' = ?g\<lparr>bf_filter := bf_filter f'\<rparr>"
    using Cons.IH[OF ok] by blast
  have "f' = f\<lparr>bf_filter := bf_filter f'\<rparr>" using f'(4) by simp
  then show ?case using f'(1-3) g(1,3) by (simp add: Hash_place(1)[OF Cons.prems] p)
qed simp

interpretation bloom: marking_filter "\<lambda>f d. BRBloomFilterInsertData f (Some d)" "\<lambda>f d. BRBloomFilterContainsData f (Some d)"
  bloom_ok bloom_marks bloom_places
proof
  fix f d
  assume ok: "bloom_ok f"
  obtain g where g: "insert_loop d [0..<unat (bf_hashFuncs f)] f = Inr g" "bloom_ok g"
      "bloom_marks g = bloom_marks f \<union> bloom_places f d" "g = f\<lparr>bf_filter := bf_filter g\<rparr>"
    using insert_loop_marks[OF ok, of d "[0..<unat (bf_hashFuncs f)]"] by (auto simp: bloom_places_def lessThan_atLeast0)
  let ?g = "g\<lparr>bf_elemCount := bf_elemCount g + 1\<rparr>"
  have "bloom_ok ?g" "bloom_marks ?g = bloom_marks g" using g(2) by (simp_all add: bloom_ok_def bloom_marks_def)
  moreover have "bloom_places ?g = bloom_places f"
    by (intro ext, subst g(4)) (simp add: bloom_places_def bloom_place_def)
  ultimately show "\<exists>f'. BRBloomFilterInsertData f (Some d) = Inr f' \<and> bloom_ok f' \<and>
      bloom_marks f' = bloom_marks f \<union> bloom_places f d \<and> bloom_places f' = bloom_places f"
    using g(1,3) by (simp add: BRBloomFilterInsertData_def)
  show "BRBloomFilterContainsData f (Some d) = Inr (bloom_places f d \<subseteq> bloom_marks f)"
    using contains_loop_marks[OF ok, of d "[0..<unat (bf_hashFuncs f)]"]
    by (simp add: BRBloomFilterContainsData_def bloom_places_def lessThan_atLeast0)
qed

section \<open>Filters in messages\<close>

definition bloom_bytes :: "BRBloomFilter \<Rightarrow> bytes" where
  "bloom_bytes f = varint_bytes (of_nat (bf_length f)) @ bf_filter f @ UInt32SetLE (bf_hashFuncs f) @
     UInt32SetLE (bf_tweak f) @ [bf_flags f]"

lemma length_bloom_bytes: "bloom_ok f \<Longrightarrow> length (bloom_bytes f) = bloom_len f \<and> bloom_len f < 2 ^ 63"
  using length_varint_bytes[of "of_nat (bf_length f)"]
  by (simp add: bloom_bytes_def bloom_len_def bloom_ok_def BLOOM_MAX_FILTER_LENGTH_def BRVarIntSize_def BRVarIntSet_def)

lemma Serialize_bloom:
  assumes "bloom_ok f" "length d = bloom_len f"
  shows "BRBloomFilterSerialize f (Some d) = Inr (length d, Some (bloom_bytes f))"
proof -
  have "poke_filter f = poke (bf_filter f)" using assms(1) by (intro ext) (simp add: poke_filter_def bloom_ok_def)
  then have "writes (\<lambda>st. rbind (poke_varint (bf_length f) st) (\<lambda>st. rbind (poke_filter f st) (\<lambda>st.
      rbind (poke (UInt32SetLE (bf_hashFuncs f)) st) (\<lambda>st.
      rbind (poke (UInt32SetLE (bf_tweak f)) st) (poke [bf_flags f]))))) (bloom_bytes f)"
    unfolding bloom_bytes_def by (simp only:) (intro writes_then writes_poke writes_varint)
  from this[unfolded writes_def, rule_format, of d "[]"] show ?thesis
    using assms length_bloom_bytes[OF assms(1)] by (simp add: BRBloomFilterSerialize_def)
qed

lemma Parse_bloom:
  assumes "bloom_ok f"
  shows "BRBloomFilterParse (bloom_bytes f) = Inr (Some (f\<lparr>bf_elemCount := 0\<rparr>))"
proof -
  let ?buf = "bloom_bytes f" and ?v = "varint_bytes (of_nat (bf_length f))"
  have lb: "length ?buf < 2 ^ 63" using length_bloom_bytes[OF assms] by simp
  have n: "bf_length f \<le> 36000" "length (bf_filter f) = bf_length f"
    using assms by (simp_all add: bloom_ok_def BLOOM_MAX_FILTER_LENGTH_def)
  have d0: "drop 0 ?buf = ?v @ bf_filter f @ UInt32SetLE (bf_hashFuncs f) @ UInt32SetLE (bf_tweak f) @ [bf_flags f]"
    by (simp add: bloom_bytes_def)
  note v = varint_at_field[OF d0 _ lb]
  have d1: "drop (length ?v) ?buf = bf_filter f @ UInt32SetLE (bf_hashFuncs f) @ UInt32SetLE (bf_tweak f) @ [bf_flags f]"
    by (simp add: bloom_bytes_def)
  have o1: "length ?v \<le> length ?buf" by (simp add: bloom_bytes_def)
  note s1 = sub_at[OF d1 o1] size_add_at[OF d1 o1 lb]
  let ?o = "length ?v + bf_length f"
  have d2: "drop ?o ?buf = UInt32SetLE (bf_hashFuncs f) @ UInt32SetLE (bf_tweak f) @ [bf_flags f]"
    using n by (simp add: bloom_bytes_def)
  note h = get_u32[OF d2 lb] at_u32[OF d2 lb]
  have d3: "drop (?o + 4) ?buf = UInt32SetLE (bf_tweak f) @ [bf_flags f]" using n by (simp add: bloom_bytes_def)
  note t = get_u32[OF d3 lb] at_u32[OF d3 lb]
  have d4: "drop (?o + 4 + 4) ?buf = [bf_flags f]" using n by (simp add: bloom_bytes_def)
  have l: "length ?buf = ?o + 9" using n by (simp add: bloom_bytes_def)
  have fl: "size_add (?o + 4 + 4) 1 \<le> length ?buf" "?buf ! (?o + 4 + 4) = bf_flags f"
    using l lb nth_via_drop[OF d4] by (simp_all add: size_add_def)
  have "?buf \<noteq> []" by (simp add: bloom_bytes_def)
  then show ?thesis
    using v(1) n s1 h t fl
    by (simp add: BRBloomFilterParse_def BLOOM_MAX_FILTER_LENGTH_def Let_def)
qed



end
