(* ===== verification/BRUtilMath.thy ===== *)
theory BRUtilMath
  imports BRInt
begin

unbundle bit_operations_syntax

text \<open>
  \<open>ethereum/util/BRUtilMath.h\<close> and \<open>BRUtilMath.c\<close>: arithmetic on 256 bit numbers by 32 bit digits, with
  overflow flags, and their comparison by 64 bit digits. The fields \<open>u32\<close> and \<open>u64\<close> of the unions are the
  lists of digits of a word, the lowest first. The multiplication by a floating point number is left out.
\<close>

section \<open>The digits of a number\<close>

definition limbs :: "nat \<Rightarrow> 'a::len word \<Rightarrow> 'b::len word list" where
  "limbs n w = map (\<lambda>i. ucast (drop_bit (LENGTH('b) * i) w)) [0..<n]"

primrec limb_val :: "'b::len word list \<Rightarrow> nat" where
  "limb_val [] = 0"
| "limb_val (x # xs) = unat x + 2 ^ LENGTH('b) * limb_val xs"

definition of_limbs :: "'b::len word list \<Rightarrow> 'a::len word" where
  "of_limbs xs = of_nat (limb_val xs)"

section \<open>Comparison\<close>

definition eqUInt256 :: "UInt256 \<Rightarrow> UInt256 \<Rightarrow> bool" where
  "eqUInt256 x y \<longleftrightarrow>
     (let x = limbs 4 x :: u64 list; y = limbs 4 y in x ! 0 = y ! 0 \<and> x ! 1 = y ! 1 \<and> x ! 2 = y ! 2 \<and> x ! 3 = y ! 3)"

definition gtUInt256 :: "UInt256 \<Rightarrow> UInt256 \<Rightarrow> bool" where
  "gtUInt256 x y \<longleftrightarrow>
     (let x = limbs 4 x :: u64 list; y = limbs 4 y in
      x ! 3 > y ! 3 \<or> (x ! 3 = y ! 3 \<and> (x ! 2 > y ! 2 \<or> (x ! 2 = y ! 2 \<and>
        (x ! 1 > y ! 1 \<or> (x ! 1 = y ! 1 \<and> x ! 0 > y ! 0))))))"

definition geUInt256 :: "UInt256 \<Rightarrow> UInt256 \<Rightarrow> bool" where
  "geUInt256 x y \<longleftrightarrow> eqUInt256 x y \<or> gtUInt256 x y"

definition ltUInt256 :: "UInt256 \<Rightarrow> UInt256 \<Rightarrow> bool" where
  "ltUInt256 x y \<longleftrightarrow>
     (let x = limbs 4 x :: u64 list; y = limbs 4 y in
      x ! 3 < y ! 3 \<or> (x ! 3 = y ! 3 \<and> (x ! 2 < y ! 2 \<or> (x ! 2 = y ! 2 \<and>
        (x ! 1 < y ! 1 \<or> (x ! 1 = y ! 1 \<and> x ! 0 < y ! 0))))))"

definition leUInt256 :: "UInt256 \<Rightarrow> UInt256 \<Rightarrow> bool" where
  "leUInt256 x y \<longleftrightarrow> eqUInt256 x y \<or> ltUInt256 x y"

definition compareUInt256 :: "UInt256 \<Rightarrow> UInt256 \<Rightarrow> int" where
  "compareUInt256 x y = (if eqUInt256 x y then 0 else if gtUInt256 x y then 1 else - 1)"

section \<open>Creation, addition and subtraction\<close>

definition createUInt256 :: "u64 \<Rightarrow> UInt256" where
  "createUInt256 v = of_limbs [v, 0, 0, 0]"

fun power_loop :: "u64 \<Rightarrow> nat \<Rightarrow> u64 \<Rightarrow> u64" where
  "power_loop base digits v = (if 0 < digits then power_loop base (digits - 1) (v * base) else v)"

declare power_loop.simps [simp del]

text \<open>The results of the operations with a flag are the flag and the number.\<close>

definition createUInt256Power :: "u8 \<Rightarrow> int \<times> UInt256" where
  "createUInt256Power digits =
     (if digits < 20 then (0, createUInt256 (power_loop 10 (unat digits) 1)) else (1, 0))"

fun add_limbs :: "u32 list \<Rightarrow> u32 list \<Rightarrow> u64 \<Rightarrow> u32 list \<times> u64" where
  "add_limbs (x # xs) (y # ys) carry =
     (let sum = ucast x + ucast y + carry; (zs, carry) = add_limbs xs ys (drop_bit 32 sum)
      in (ucast sum # zs, carry))"
| "add_limbs _ _ carry = ([], carry)"

definition addUInt256_Overflow :: "UInt256 \<Rightarrow> UInt256 \<Rightarrow> int \<times> UInt256" where
  "addUInt256_Overflow y x =
     (let (z, carry) = add_limbs (limbs 8 x) (limbs 8 y) 0
      in (sint (ucast carry :: u32), if carry \<noteq> 0 then 0 else of_limbs z))"

definition addUInt256 :: "UInt256 \<Rightarrow> UInt256 \<Rightarrow> UInt512" where
  "addUInt256 x y =
     (let (z, carry) = add_limbs (limbs 8 x) (limbs 8 y) 0
      in of_limbs (z @ ucast carry # replicate 7 (0 :: u32)))"

fun sub_limbs :: "u32 list \<Rightarrow> u32 list \<Rightarrow> u64 \<Rightarrow> u32 list" where
  "sub_limbs (x # xs) (y # ys) borrow =
     (if ucast y + borrow \<le> ucast x
      then ucast (ucast x - (ucast y + borrow) :: u64) # sub_limbs xs ys 0
      else ucast ((push_bit 32 1 + ucast x) - (ucast y + borrow) :: u64) # sub_limbs xs ys 1)"
| "sub_limbs _ _ borrow = []"

definition subUInt256_x_gt_y :: "UInt256 \<Rightarrow> UInt256 \<Rightarrow> UInt256" where
  "subUInt256_x_gt_y x y = of_limbs (sub_limbs (limbs 8 x) (limbs 8 y) 0)"

definition subUInt256_Negative :: "UInt256 \<Rightarrow> UInt256 \<Rightarrow> int \<times> UInt256" where
  "subUInt256_Negative x y =
     (if eqUInt256 x y then (0, 0)
      else if gtUInt256 x y then (0, subUInt256_x_gt_y x y)
      else (1, subUInt256_x_gt_y y x))"

section \<open>Multiplication and division\<close>

text \<open>One digit of \<open>x\<close> times all of \<open>y\<close>, added to \<open>z\<close> from position \<open>k\<close> on, and the loop over the digits of \<open>x\<close>.\<close>

fun mul_row :: "u32 \<Rightarrow> u32 list \<Rightarrow> nat \<Rightarrow> u32 list \<Rightarrow> u64 \<Rightarrow> u32 list" where
  "mul_row x [] k z carry = z[k := ucast (ucast (z ! k) + carry)]"
| "mul_row x (y # ys) k z carry =
     (let total = ucast (z ! k) + carry + ucast y * ucast x
      in mul_row x ys (k + 1) (z[k := ucast total]) (drop_bit 32 total))"

fun mul_limbs :: "u32 list \<Rightarrow> u32 list \<Rightarrow> nat \<Rightarrow> u32 list \<Rightarrow> u32 list" where
  "mul_limbs [] ys k z = z"
| "mul_limbs (x # xs) ys k z = mul_limbs xs ys (k + 1) (if x = 0 then z else mul_row x ys k z 0)"

definition mulUInt256 :: "UInt256 \<Rightarrow> UInt256 \<Rightarrow> UInt512" where
  "mulUInt256 x y = of_limbs (mul_limbs (limbs 8 x) (limbs 8 y) 0 (replicate 16 0))"

definition tooBigUInt256 :: "UInt512 \<Rightarrow> bool" where
  "tooBigUInt256 x \<longleftrightarrow> (let x = limbs 8 x :: u64 list in x ! 4 \<noteq> 0 \<or> x ! 5 \<noteq> 0 \<or> x ! 6 \<noteq> 0 \<or> x ! 7 \<noteq> 0)"

definition coerceUInt256 :: "UInt512 \<Rightarrow> int \<times> UInt256" where
  "coerceUInt256 x =
     (if tooBigUInt256 x then (1, 0)
      else let x = limbs 8 x :: u64 list in (0, of_limbs [x ! 0, x ! 1, x ! 2, x ! 3]))"

definition mulUInt256_Overflow :: "UInt256 \<Rightarrow> UInt256 \<Rightarrow> int \<times> UInt256" where
  "mulUInt256_Overflow x y = coerceUInt256 (mulUInt256 x y)"

definition mulUInt256_Small :: "UInt256 \<Rightarrow> u32 \<Rightarrow> int \<times> UInt256" where
  "mulUInt256_Small x y = mulUInt256_Overflow x (createUInt256 (ucast y))"

text \<open>The digits from the highest to the lowest.\<close>

fun div_limbs :: "u32 \<Rightarrow> u32 list \<Rightarrow> u64 \<Rightarrow> u32 list \<times> u64" where
  "div_limbs y [] remainder = ([], remainder)"
| "div_limbs y (x # xs) remainder =
     (let v = ucast x + remainder * push_bit 32 1; (zs, r) = div_limbs y xs (v mod ucast y)
      in (ucast (v div ucast y) # zs, r))"

definition divUInt256_Small :: "UInt256 \<Rightarrow> u32 \<Rightarrow> (UInt256 \<times> u32) res" where
  "divUInt256_Small x y =
     (if y = 0 then Inl DivByZero
      else let (z, r) = div_limbs y (rev (limbs 8 x)) 0 in Inr (of_limbs (rev z), ucast r))"

section \<open>Digits and values\<close>

lemma length_limbs [simp]: "length (limbs n w) = n"
  by (simp add: limbs_def)

lemma limbs_Suc: "limbs (Suc n) (w :: 'a::len word) = (ucast w :: 'b::len word) # limbs n (drop_bit LENGTH('b) w)"
  by (simp add: limbs_def upt_conv_Cons map_Suc_upt[symmetric] add.commute del: upt_Suc)

lemma limb_val_append: "limb_val (xs @ ys :: 'b::len word list) = limb_val xs + 2 ^ (LENGTH('b) * length xs) * limb_val ys"
  by (induction xs) (simp_all add: algebra_simps power_add)

lemma limb_val_zeros [simp]: "limb_val (replicate n 0) = 0"
  by (induction n) simp_all

lemma limb_val_less: "limb_val (xs :: 'b::len word list) < 2 ^ (LENGTH('b) * length xs)"
proof (induction xs)
  case (Cons x xs)
  have "unat x + 2 ^ LENGTH('b) * limb_val xs < 2 ^ LENGTH('b) * (limb_val xs + 1)" using unat_less_power[of x] by simp
  also have "... \<le> 2 ^ LENGTH('b) * 2 ^ (LENGTH('b) * length xs)" using Cons.IH by (intro mult_le_mono2) simp
  finally show ?case by (simp add: power_add)
qed simp

lemma limb_val_limbs:
  "limb_val (limbs n (w :: 'a::len word) :: 'b::len word list) = unat w mod 2 ^ (LENGTH('b) * n)"
proof (induction n arbitrary: w)
  case (Suc n)
  have "unat w mod 2 ^ LENGTH('b) + 2 ^ LENGTH('b) * (unat w div 2 ^ LENGTH('b) mod 2 ^ (LENGTH('b) * n))
      = unat w mod (2 ^ LENGTH('b) * 2 ^ (LENGTH('b) * n))"
    by (simp add: mod_mult2_eq add.commute)
  then show ?case by (simp add: limbs_Suc Suc.IH unat_drop_bit unat_ucast power_add)
qed (simp add: limbs_def)

lemma unat_of_limbs: "unat (of_limbs xs :: 'a::len word) = limb_val xs mod 2 ^ LENGTH('a)"
  by (simp add: of_limbs_def unat_of_nat)

lemma limb_val_256 [simp]:
  "limb_val (limbs 8 (x :: UInt256) :: u32 list) = unat x" "limb_val (limbs 4 x :: u64 list) = unat x"
  using unat_less_power[of x] by (simp_all add: limb_val_limbs)

lemma limb_val_512 [simp]: "limb_val (limbs 8 (x :: UInt512) :: u64 list) = unat x"
  using unat_less_power[of x] by (simp add: limb_val_limbs)

text \<open>Two digits, of which the higher one decides.\<close>

lemma pair_less:
  fixes a b :: nat
  assumes "a < m" "b < m"
  shows "a + m * x < b + m * y \<longleftrightarrow> x < y \<or> (x = y \<and> a < b)"
proof -
  have lt: "a + m * x < b + m * y" if "a < m" "x < y" for a b x y :: nat
  proof -
    have "a + m * x < m * (x + 1)" using that by simp
    also have "... \<le> m * y" using that by (intro mult_le_mono2) simp
    finally show ?thesis by simp
  qed
  show ?thesis using lt[OF assms(1), of x y b] lt[OF assms(2), of y x a] by (cases x y rule: linorder_cases) auto
qed

lemma pair_eq:
  fixes a b :: nat
  assumes "a < m" "b < m"
  shows "a + m * x = b + m * y \<longleftrightarrow> x = y \<and> a = b"
  using pair_less[OF assms, of x y] pair_less[OF assms(2,1), of y x] by (metis less_irrefl linorder_neqE_nat)

lemma four_limbs:
  obtains a b c d :: u64 where "limbs 4 (x :: UInt256) = [a, b, c, d]"
    "unat x = unat a + 2 ^ 64 * (unat b + 2 ^ 64 * (unat c + 2 ^ 64 * unat d))"
proof -
  have "\<exists>a b c d :: u64. limbs 4 x = [a, b, c, d]" by (simp add: limbs_def upt_literals)
  then obtain a b c d :: u64 where e: "limbs 4 x = [a, b, c, d]" by blast
  moreover have "unat x = limb_val [a, b, c, d]" unfolding e[symmetric] by simp
  ultimately show ?thesis using that by simp
qed

lemma compare_digits:
  "eqUInt256 x y \<longleftrightarrow> x = y" "gtUInt256 x y \<longleftrightarrow> y < x" "ltUInt256 x y \<longleftrightarrow> x < y"
proof -
  obtain a b c d :: u64 where x: "limbs 4 x = [a, b, c, d]"
    "unat x = unat a + 2 ^ 64 * (unat b + 2 ^ 64 * (unat c + 2 ^ 64 * unat d))" by (rule four_limbs)
  obtain p q r s :: u64 where y: "limbs 4 y = [p, q, r, s]"
    "unat y = unat p + 2 ^ 64 * (unat q + 2 ^ 64 * (unat r + 2 ^ 64 * unat s))" by (rule four_limbs)
  have l: "unat (z :: u64) < 2 ^ 64" for z using unat_less_power[of z] by simp
  note simps = x(1) y(1) Let_def nth_Cons_numeral nth_Cons_0
  show "eqUInt256 x y \<longleftrightarrow> x = y"
    unfolding word_unat_eq_iff[of x] x(2) y(2) eqUInt256_def simps pair_eq[OF l l] by (auto simp: word_unat_eq_iff simps)
  show "gtUInt256 x y \<longleftrightarrow> y < x"
    unfolding word_less_nat_alt[of y] x(2) y(2) gtUInt256_def simps pair_less[OF l l] pair_eq[OF l l]
    by (auto simp: word_less_nat_alt word_unat_eq_iff)
  show "ltUInt256 x y \<longleftrightarrow> x < y"
    unfolding word_less_nat_alt[of x] x(2) y(2) ltUInt256_def simps pair_less[OF l l] pair_eq[OF l l]
    by (auto simp: word_less_nat_alt word_unat_eq_iff)
qed

lemma compare_numbers:
  "geUInt256 x y \<longleftrightarrow> y \<le> x" "leUInt256 x y \<longleftrightarrow> x \<le> y"
  "compareUInt256 x y = (if x = y then 0 else if y < x then 1 else - 1)"
  by (auto simp: geUInt256_def leUInt256_def compareUInt256_def compare_digits)

section \<open>Sums and differences\<close>

lemma word_of_unat: "unat (w :: 'a::len word) = n \<Longrightarrow> w = of_nat n"
  by auto

lemma ucast_u32_u64 [simp]: "unat (ucast (x :: u32) :: u64) = unat x"
  using unat_u32[of x] by (simp add: unat_ucast)

text \<open>A digit and its carry or borrow, and the digits above it.\<close>

lemma carry_step:
  fixes a :: nat
  assumes "a + B * k = s" "v + P * c = w + k"
  shows "a + B * v + B * P * c = s + B * w"
proof -
  have "a + B * v + B * P * c = a + B * (v + P * c)" by (simp add: algebra_simps)
  also have "... = a + B * k + B * w" unfolding assms(2) by (simp add: algebra_simps)
  finally show ?thesis unfolding assms(1) .
qed

lemma borrow_step:
  fixes d :: nat
  assumes "d + y + b = x + B * k" "L + Y + k = X + P * c"
  shows "(d + B * L) + (y + B * Y) + b = (x + B * X) + B * P * c"
proof -
  have "(d + B * L) + (y + B * Y) + b + B * k = (d + y + b) + B * (L + Y + k)" by (simp add: algebra_simps)
  also have "... = (x + B * X) + B * P * c + B * k" unfolding assms by (simp add: algebra_simps)
  finally show ?thesis by simp
qed

lemma add_limbs:
  assumes "length xs = length ys" "unat c \<le> 1" "add_limbs xs ys c = (zs, c')"
  shows "length zs = length xs" "unat c' \<le> 1"
    "limb_val zs + 2 ^ (32 * length xs) * unat c' = limb_val xs + limb_val ys + unat c"
proof -
  have "length zs = length xs \<and> unat c' \<le> 1 \<and>
      limb_val zs + 2 ^ (32 * length xs) * unat c' = limb_val xs + limb_val ys + unat c"
    using assms
  proof (induction xs ys c arbitrary: zs rule: add_limbs.induct)
    case (1 x xs y ys c)
    define s :: u64 where "s = ucast x + ucast y + c"
    obtain zs' where r: "add_limbs xs ys (drop_bit 32 s) = (zs', c')" "zs = ucast s # zs'"
      using 1(4) by (auto simp: s_def[symmetric] Let_def split: prod.splits)
    have s: "unat s = unat x + unat y + unat c"
      using unat_u32[of x] unat_u32[of y] 1(3) by (simp add: s_def unat_word_ariths)
    then have "unat (drop_bit 32 s) \<le> 1" using unat_u32[of x] unat_u32[of y] 1(3) by (simp add: unat_drop_bit)
    with 1(1)[OF s_def _ _ r(1)] 1(2) have IH: "length zs' = length xs" "unat c' \<le> 1"
      "limb_val zs' + 2 ^ (32 * length xs) * unat c' = limb_val xs + limb_val ys + unat (drop_bit 32 s)" by auto
    have "unat (ucast s :: u32) + 2 ^ 32 * unat (drop_bit 32 s) = unat x + unat y + unat c"
      by (simp add: unat_ucast unat_drop_bit s)
    from carry_step[OF this IH(3)] show ?case using IH(1,2) by (simp add: r(2) power_add)
  qed auto
  then show "length zs = length xs" "unat c' \<le> 1"
    "limb_val zs + 2 ^ (32 * length xs) * unat c' = limb_val xs + limb_val ys + unat c" by auto
qed

lemma add_limbs_256:
  obtains zs c where "add_limbs (limbs 8 x) (limbs 8 y) 0 = (zs, c)" "length zs = 8" "unat c \<le> 1"
    "limb_val zs + 2 ^ 256 * unat c = unat (x :: UInt256) + unat (y :: UInt256)"
proof -
  obtain zs c where e: "add_limbs (limbs 8 x) (limbs 8 y) 0 = (zs, c)" by fastforce
  show ?thesis using add_limbs[OF _ _ e] by (intro that[OF e]) simp_all
qed

lemma addUInt256_Overflow_eq:
  "addUInt256_Overflow y x = (if unat x + unat y < 2 ^ 256 then (0, x + y) else (1, 0))"
proof -
  obtain zs c where e: "add_limbs (limbs 8 x) (limbs 8 y) 0 = (zs, c)" "length zs = 8" "unat c \<le> 1"
    "limb_val zs + 2 ^ 256 * unat c = unat x + unat y" by (rule add_limbs_256)
  have "limb_val zs < 2 ^ 256" using limb_val_less[of zs] e(2) by simp
  then have c: "unat x + unat y < 2 ^ 256 \<longleftrightarrow> unat c = 0" using e(3,4) by (cases "unat c = 0") auto
  show ?thesis
  proof (cases "unat c = 0")
    case True
    then have "c = 0" by (simp add: unat_eq_zero)
    moreover have "of_limbs zs = x + y" using e(4) True by (simp add: of_limbs_def)
    ultimately show ?thesis using c True by (simp add: addUInt256_Overflow_def e(1))
  next
    case False
    then have "c = 1" using e(3) by (metis word_of_unat le_neq_implies_less less_one of_nat_1)
    then show ?thesis using c False by (simp add: addUInt256_Overflow_def e(1))
  qed
qed

lemma addUInt256_eq: "unat (addUInt256 x y) = unat x + unat y"
proof -
  obtain zs c where e: "add_limbs (limbs 8 x) (limbs 8 y) 0 = (zs, c)" "length zs = 8" "unat c \<le> 1"
    "limb_val zs + 2 ^ 256 * unat c = unat x + unat y" by (rule add_limbs_256)
  have "limb_val (zs @ ucast c # replicate 7 (0 :: u32)) = limb_val zs + 2 ^ 256 * unat c"
    using e(3) by (simp add: limb_val_append e(2) unat_ucast)
  moreover have "unat x + unat y < 2 ^ 512" using unat_less_power[of x] unat_less_power[of y] by simp
  ultimately show ?thesis by (simp only: addUInt256_def e(1,4) unat_of_limbs Let_def prod.case) simp
qed

lemma sub_limbs:
  assumes "length xs = length ys" "unat b \<le> 1"
  obtains b' where "b' \<le> 1" "length (sub_limbs xs ys b) = length xs"
    "limb_val (sub_limbs xs ys b) + limb_val ys + unat b = limb_val xs + 2 ^ (32 * length xs) * b'"
proof -
  have "\<exists>b' \<le> 1. length (sub_limbs xs ys b) = length xs \<and>
      limb_val (sub_limbs xs ys b) + limb_val ys + unat b = limb_val xs + 2 ^ (32 * length xs) * b'"
    using assms
  proof (induction xs ys b rule: sub_limbs.induct)
    case (1 x xs y ys b)
    have s: "unat (ucast y + b) = unat y + unat b"
      using unat_u32[of y] 1(4) by (simp add: unat_word_ariths)
    have le: "ucast y + b \<le> ucast x \<longleftrightarrow> unat y + unat b \<le> unat x" by (simp add: word_le_nat_alt s)
    show ?case
    proof (cases "unat y + unat b \<le> unat x")
      case True
      then have d: "unat (ucast (ucast x - (ucast y + b) :: u64) :: u32) = unat x - (unat y + unat b)"
        using unat_u32[of x] by (simp add: unat_ucast unat_sub le s)
      obtain b' where "b' \<le> 1" "length (sub_limbs xs ys 0) = length xs"
        "limb_val (sub_limbs xs ys 0) + limb_val ys = limb_val xs + 2 ^ (32 * length xs) * b'"
        using 1(1) 1(3) True le by auto
      moreover have "unat (ucast (ucast x - (ucast y + b) :: u64) :: u32) + unat y + unat b = unat x + 2 ^ 32 * 0"
        using True d by simp
      note borrow_step[OF this, of "limb_val (sub_limbs xs ys 0)" "limb_val ys" "limb_val xs" "2 ^ (32 * length xs)" b']
      ultimately show ?thesis using True le by (intro exI[of _ b']) (simp add: power_add)
    next
      case False
      have p: "unat (push_bit 32 1 + ucast x :: u64) = 2 ^ 32 + unat x"
        using unat_u32[of x] by (simp add: unat_word_ariths unat_push_bit)
      then have "ucast y + b \<le> push_bit 32 1 + ucast x"
        using unat_u32[of y] 1(4) by (simp add: word_le_nat_alt s)
      then have d: "unat (ucast ((push_bit 32 1 + ucast x) - (ucast y + b) :: u64) :: u32) = 2 ^ 32 + unat x - (unat y + unat b)"
        using False by (simp add: unat_ucast unat_sub s p[simplified])
      obtain b' where "b' \<le> 1" "length (sub_limbs xs ys 1) = length xs"
        "limb_val (sub_limbs xs ys 1) + limb_val ys + 1 = limb_val xs + 2 ^ (32 * length xs) * b'"
        using 1(2) 1(3) False le by auto
      moreover have "unat (ucast ((push_bit 32 1 + ucast x) - (ucast y + b) :: u64) :: u32) + unat y + unat b = unat x + 2 ^ 32 * 1"
        using d unat_u32[of y] 1(4) by simp
      note borrow_step[OF this, of "limb_val (sub_limbs xs ys 1)" "limb_val ys" "limb_val xs" "2 ^ (32 * length xs)" b']
      ultimately show ?thesis using False le by (intro exI[of _ b']) (simp add: power_add)
    qed
  qed auto
  then show ?thesis using that by blast
qed

lemma subUInt256_x_gt_y_eq: "y \<le> x \<Longrightarrow> subUInt256_x_gt_y x y = x - y"
proof -
  assume "y \<le> x"
  obtain b' where b: "b' \<le> 1" "length (sub_limbs (limbs 8 x) (limbs 8 y) 0) = 8"
    "limb_val (sub_limbs (limbs 8 x) (limbs 8 y) 0) + unat y = unat x + 2 ^ 256 * b'"
    by (rule sub_limbs[of "limbs 8 x" "limbs 8 y" 0]) simp_all
  have "limb_val (sub_limbs (limbs 8 x) (limbs 8 y) 0) < 2 ^ 256" using limb_val_less[of "sub_limbs (limbs 8 x) (limbs 8 y) 0"] b(2) by simp
  then have "b' = 0" using b(1,3) \<open>y \<le> x\<close> by (cases b') (auto simp: word_le_nat_alt)
  then have "limb_val (sub_limbs (limbs 8 x) (limbs 8 y) 0) = unat (x - y)"
    using b(3) \<open>y \<le> x\<close> by (simp add: unat_sub)
  then show ?thesis by (simp add: subUInt256_x_gt_y_def of_limbs_def)
qed

lemma subUInt256_Negative_eq:
  "subUInt256_Negative x y = (if y \<le> x then (0, x - y) else (1, y - x))"
  by (auto simp: subUInt256_Negative_def compare_digits subUInt256_x_gt_y_eq)

section \<open>Products and quotients\<close>

lemma limb_val_update:
  "k < length z \<Longrightarrow> limb_val (z[k := v]) + 2 ^ (32 * k) * unat (z ! k) = limb_val z + 2 ^ (32 * k) * unat (v :: u32)"
proof (induction z arbitrary: k)
  case (Cons a z)
  show ?case
  proof (cases k)
    case (Suc j)
    have d: "p + q * r = s + q * t \<Longrightarrow> (a + B * p) + (B * q) * r = (a + B * s) + (B * q) * t" for p q r s t a B :: nat
    proof -
      assume e: "p + q * r = s + q * t"
      have "(a + B * p) + (B * q) * r = a + B * (p + q * r)" by (simp add: algebra_simps)
      also have "... = (a + B * s) + (B * q) * t" unfolding e by (simp add: algebra_simps)
      finally show ?thesis .
    qed
    show ?thesis using d[OF Cons.IH[of j]] Cons.prems Suc by (simp add: power_add)
  qed simp
qed simp

lemma mul_step:
  fixes r :: nat
  assumes "z' + P * zk = z + P * lo" "lo + B * hi = zk + c + y * x" "r = z' + (P * B) * (hi + x * Y)"
  shows "r = z + P * (c + x * (y + B * Y))"
proof -
  have "r + P * zk = (z' + P * zk) + P * B * (hi + x * Y)" by (simp add: assms(3))
  also have "... = z + P * (lo + B * hi) + P * B * (x * Y)" unfolding assms(1) by (simp add: algebra_simps)
  also have "... = z + P * (c + x * (y + B * Y)) + P * zk" unfolding assms(2) by (simp add: algebra_simps)
  finally show ?thesis by simp
qed

lemma mul_row:
  assumes "k + length ys < length z" "z ! (k + length ys) = 0" "unat c < 2 ^ 32"
  shows "length (mul_row x ys k z c) = length z \<and>
    (\<forall>j. k + length ys < j \<longrightarrow> mul_row x ys k z c ! j = z ! j) \<and>
    limb_val (mul_row x ys k z c) = limb_val z + 2 ^ (32 * k) * (unat c + unat x * limb_val ys)"
  using assms
proof (induction x ys k z c rule: mul_row.induct)
  case (1 x k z c)
  have "unat (ucast (ucast (z ! k) + c) :: u32) = unat c" using 1 by (simp add: unat_ucast)
  then show ?case using limb_val_update[of k z "ucast (ucast (z ! k) + c)"] 1 by simp
next
  case (2 x y ys k z c)
  define t :: u64 where "t = ucast (z ! k) + c + ucast y * ucast x"
  have "unat y * unat x \<le> (2 ^ 32 - 1) * (2 ^ 32 - 1)"
    using unat_u32[of x] unat_u32[of y] by (intro mult_le_mono) simp_all
  then have t: "unat t = unat (z ! k) + unat c + unat y * unat x"
    using unat_u32[of "z ! k"] 2(4) by (simp add: t_def unat_word_ariths)
  have lo: "unat (ucast t :: u32) + 2 ^ 32 * unat (drop_bit 32 t) = unat (z ! k) + unat c + unat y * unat x"
    unfolding t[symmetric] by (simp add: unat_ucast unat_drop_bit)
  have "unat (drop_bit 32 t) < 2 ^ 32" using unat_u64[of t] by (simp add: unat_drop_bit)
  moreover have "z[k := ucast t] ! (k + 1 + length ys) = 0" "k + 1 + length ys < length (z[k := ucast t])"
    using 2(2,3) by (simp_all add: nth_list_update)
  ultimately have IH: "length (mul_row x ys (k + 1) (z[k := ucast t]) (drop_bit 32 t)) = length z"
    "\<forall>j. k + 1 + length ys < j \<longrightarrow> mul_row x ys (k + 1) (z[k := ucast t]) (drop_bit 32 t) ! j = z[k := ucast t] ! j"
    "limb_val (mul_row x ys (k + 1) (z[k := ucast t]) (drop_bit 32 t)) =
      limb_val (z[k := ucast t]) + 2 ^ (32 * (k + 1)) * (unat (drop_bit 32 t) + unat x * limb_val ys)"
    using 2(1)[OF t_def] by (simp_all del: nth_list_update)
  have "limb_val (mul_row x ys (k + 1) (z[k := ucast t]) (drop_bit 32 t)) =
      limb_val z + 2 ^ (32 * k) * (unat c + unat x * (unat y + 2 ^ 32 * limb_val ys))"
    using IH(3) 2(2) by (intro mul_step[OF limb_val_update lo]) (simp_all add: power_add)
  then show ?case using IH(1,2) by (simp add: t_def[symmetric] Let_def)
qed

lemma mul_limbs:
  assumes "k + length xs + length ys \<le> length z" "\<forall>j. k + length ys \<le> j \<longrightarrow> j < length z \<longrightarrow> z ! j = 0"
  shows "limb_val (mul_limbs xs ys k z) = limb_val z + 2 ^ (32 * k) * (limb_val xs * limb_val ys)"
  using assms
proof (induction xs ys k z rule: mul_limbs.induct)
  case (2 x xs ys k z)
  let ?z = "if x = 0 then z else mul_row x ys k z 0"
  have z: "length ?z = length z" "\<forall>j. k + length ys < j \<longrightarrow> ?z ! j = z ! j"
    "limb_val ?z = limb_val z + 2 ^ (32 * k) * (unat x * limb_val ys)"
    using mul_row[of k ys z 0 x] 2(2,3) by auto
  have d: "z + P * (x * Y) + P * B * (X * Y) = z + P * ((x + B * X) * Y)" for z P x Y B X :: nat
    by (simp add: algebra_simps)
  have "limb_val (mul_limbs xs ys (k + 1) ?z) = limb_val ?z + 2 ^ (32 * (k + 1)) * (limb_val xs * limb_val ys)"
    using z(1,2) 2(2,3) by (intro 2(1)) auto
  then show ?case unfolding z(3) using d[of "limb_val z" "2 ^ (32 * k)" "unat x" "limb_val ys" "2 ^ 32" "limb_val xs"]
    by (simp add: power_add)
qed simp

lemma mulUInt256_eq: "unat (mulUInt256 x y) = unat x * unat y"
proof -
  have "limb_val (mul_limbs (limbs 8 x) (limbs 8 y) 0 (replicate 16 0)) = unat x * unat y"
    using mul_limbs[of 0 "limbs 8 x" "limbs 8 y" "replicate 16 0"] by simp
  moreover have "unat x * unat y < 2 ^ 256 * 2 ^ 256"
    using unat_less_power[of x] unat_less_power[of y] by (intro mult_strict_mono) simp_all
  ultimately show ?thesis by (simp add: mulUInt256_def unat_of_limbs)
qed

lemma coerceUInt256_eq: "coerceUInt256 x = (if unat x < 2 ^ 256 then (0, of_nat (unat x)) else (1, 0))"
proof -
  have "\<exists>a b c d e f g h :: u64. limbs 8 x = [a, b, c, d, e, f, g, h]" by (simp add: limbs_def upt_literals)
  then obtain a b c d e f g h :: u64 where l: "limbs 8 x = [a, b, c, d, e, f, g, h]" by blast
  have v: "unat x = limb_val [a, b, c, d] + 2 ^ 256 * limb_val [e, f, g, h]"
    using limb_val_append[of "[a, b, c, d]" "[e, f, g, h]"] limb_val_512[of x] by (simp only: l) simp
  have lt: "limb_val [a, b, c, d] < 2 ^ 256" using limb_val_less[of "[a, b, c, d]"] by simp
  have big: "tooBigUInt256 x \<longleftrightarrow> limb_val [e, f, g, h] \<noteq> 0"
    by (auto simp: tooBigUInt256_def l unat_eq_zero)
  show ?thesis
  proof (cases "limb_val [e, f, g, h] = 0")
    case True
    then show ?thesis using big v lt by (simp add: coerceUInt256_def l of_limbs_def del: limb_val.simps)
  next
    case False
    then have "\<not> unat x < 2 ^ 256" unfolding v by (cases "limb_val [e, f, g, h]") (simp_all del: limb_val.simps)
    then show ?thesis using big False by (simp add: coerceUInt256_def)
  qed
qed

lemma mulUInt256_Overflow_eq:
  "mulUInt256_Overflow x y = (if unat x * unat y < 2 ^ 256 then (0, x * y) else (1, 0))"
  by (simp add: mulUInt256_Overflow_def coerceUInt256_eq mulUInt256_eq)

lemma unat_createUInt256: "unat (createUInt256 v) = unat v"
  using unat_u64[of v] by (simp add: createUInt256_def unat_of_limbs)

lemma mulUInt256_Small_eq:
  "mulUInt256_Small x y = (if unat x * unat y < 2 ^ 256 then (0, x * ucast y) else (1, 0))"
proof -
  have "createUInt256 (ucast y) = ucast y"
    using unat_u32[of y] by (intro unsigned_word_eqI[where 'a = nat]) (simp add: unat_createUInt256 unat_ucast)
  then show ?thesis using unat_createUInt256[of "ucast y"] by (simp add: mulUInt256_Small_def mulUInt256_Overflow_eq)
qed

lemma power_loop: "power_loop b n v = v * b ^ n"
  by (induction n arbitrary: v) (simp_all add: power_loop.simps)

lemma createUInt256Power_eq:
  "createUInt256Power d = (if unat d < 20 then (0, of_nat (10 ^ unat d)) else (1, 0))"
proof (cases "unat d < 20")
  case True
  then have "(10 :: nat) ^ unat d \<le> 10 ^ 19" by (intro power_increasing) simp_all
  then have "unat (of_nat (10 ^ unat d) :: u64) = 10 ^ unat d" by (simp add: unat_of_nat del: of_nat_power)
  then have "createUInt256 (10 ^ unat d) = of_nat (10 ^ unat d)" by (intro word_of_unat) (simp add: unat_createUInt256)
  then show ?thesis using True by (simp add: createUInt256Power_def power_loop word_less_nat_alt)
qed (simp add: createUInt256Power_def word_less_nat_alt)

lemma div_limbs:
  assumes "0 < unat y" "unat r < unat y" "div_limbs y xs r = (zs, r')"
  shows "length zs = length xs \<and> unat r' < unat y \<and>
    limb_val (rev zs) * unat y + unat r' = limb_val (rev xs) + 2 ^ (32 * length xs) * unat r"
  using assms
proof (induction y xs r arbitrary: zs rule: div_limbs.induct)
  case (2 y x xs r)
  define v :: u64 where "v = ucast x + r * push_bit 32 1"
  obtain zs' where e: "div_limbs y xs (v mod ucast y) = (zs', r')" "zs = ucast (v div ucast y) # zs'"
    using 2(4) unfolding div_limbs.simps Let_def v_def[symmetric] by (auto split: prod.splits)
  have ub: "unat r + 1 \<le> unat y" using 2(3) by simp
  then have "(unat r + 1) * 2 ^ 32 \<le> unat y * 2 ^ 32" by (rule mult_le_mono1)
  then have v1: "unat x + unat r * 2 ^ 32 < unat y * 2 ^ 32" using unat_u32[of x] by simp
  moreover have "unat y * 2 ^ 32 < 2 ^ 64" using unat_u32[of y] by simp
  ultimately have v: "unat v = unat x + unat r * 2 ^ 32" by (simp add: v_def unat_word_ariths unat_push_bit)
  have m: "unat (v mod ucast y) = unat v mod unat y" "unat (v div ucast y) = unat v div unat y"
    by (simp_all add: unat_mod unat_div)
  have "unat v div unat y < 2 ^ 32" using v1 v 2(2) by (simp add: div_less_iff_less_mult)
  then have q: "unat (ucast (v div ucast y) :: u32) = unat v div unat y" by (simp add: unat_ucast m)
  have IH: "length zs' = length xs" "unat r' < unat y"
    "limb_val (rev zs') * unat y + unat r' = limb_val (rev xs) + 2 ^ (32 * length xs) * (unat v mod unat y)"
    using 2(1)[OF v_def 2(2) _ e(1)] 2(2) by (auto simp: m)
  have d: "(L + P * q) * y + r' = X + P * x + B * P * r" if "L * y + r' = X + P * m" "q * y + m = x + r * B" for L P q y r' X x r B m :: nat
  proof -
    have "(L + P * q) * y + r' = (L * y + r') + P * (q * y)" by (simp add: algebra_simps)
    also have "... = X + P * (q * y + m)" unfolding that(1) by (simp add: algebra_simps)
    finally show ?thesis unfolding that(2) by (simp add: algebra_simps)
  qed
  have "unat v div unat y * unat y + unat v mod unat y = unat x + unat r * 2 ^ 32" unfolding v by simp
  from d[OF IH(3) this] show ?case using IH(1,2) by (simp add: e(2) limb_val_append q power_add)
qed simp

lemma divUInt256_Small_eq:
  assumes "y \<noteq> 0"
  shows "divUInt256_Small x y = Inr (of_nat (unat x div unat y), of_nat (unat x mod unat y))"
proof -
  obtain zs r where e: "div_limbs y (rev (limbs 8 x)) 0 = (zs, r)" by fastforce
  have y: "0 < unat y" using assms by (simp add: unat_gt_0)
  from div_limbs[OF y _ e] have l: "unat r < unat y" "limb_val (rev zs) * unat y + unat r = unat x" using y by auto
  then have "unat x div unat y = limb_val (rev zs)" "unat x mod unat y = unat r"
    by (metis add.commute div_mult_self3 div_less add_0_right not_less_zero) (metis l mod_less mod_mult_self3)
  then show ?thesis using assms unat_u32[of y] l(1)
    by (simp add: divUInt256_Small_def e of_limbs_def)
qed

lemma compareUInt256_eq_0 [simp]: "compareUInt256 x y = 0 \<longleftrightarrow> x = y"
  by (auto simp: compare_numbers)

section \<open>The property\<close>

text \<open>
  C38: the digit by digit operations compute what they are for. Sums, products and differences are exact where the
  result has the room for them, and are flagged otherwise: a sum or a product of 2^256 or more gives the
  flag and zero, a difference is the distance with the sign as its flag. Division by a 32 bit number gives quotient and
  remainder, and faults for zero. Comparison is the order of the numbers.
\<close>

theorem UInt256_arithmetic:
  "unat (addUInt256 x y) = unat x + unat y \<and>
   addUInt256_Overflow x y = (if unat x + unat y < 2 ^ 256 then (0, x + y) else (1, 0)) \<and>
   subUInt256_Negative x y = (if y \<le> x then (0, x - y) else (1, y - x)) \<and>
   unat (mulUInt256 x y) = unat x * unat y \<and>
   mulUInt256_Overflow x y = (if unat x * unat y < 2 ^ 256 then (0, x * y) else (1, 0)) \<and>
   mulUInt256_Small x d = (if unat x * unat d < 2 ^ 256 then (0, x * ucast d) else (1, 0)) \<and>
   divUInt256_Small x d =
     (if d = 0 then Inl DivByZero else Inr (of_nat (unat x div unat d), of_nat (unat x mod unat d))) \<and>
   createUInt256Power n = (if unat n < 20 then (0, of_nat (10 ^ unat n)) else (1, 0)) \<and>
   (gtUInt256 x y \<longleftrightarrow> y < x) \<and> (ltUInt256 x y \<longleftrightarrow> x < y) \<and>
   compareUInt256 x y = (if x = y then 0 else if y < x then 1 else - 1)"
proof -
  have "divUInt256_Small x 0 = Inl DivByZero" by (simp add: divUInt256_Small_def)
  then show ?thesis
    by (simp only: addUInt256_eq addUInt256_Overflow_eq subUInt256_Negative_eq mulUInt256_eq mulUInt256_Overflow_eq
        mulUInt256_Small_eq createUInt256Power_eq compare_digits compare_numbers add.commute)
      (simp add: divUInt256_Small_eq add.commute)
qed

end
