(* ===== verification/BRUtilHex.thy ===== *)
theory BRUtilHex
  imports Prelude
begin

text \<open>
  \<open>ethereum/util/BRUtilHex.c\<close>: bytes as hexadecimal strings. A string is its characters without the final 0; the
  lengths that the functions are given are those of the lists, apart from the ones that are checked by an
  assertion.
\<close>

definition hexc :: "u8 \<Rightarrow> char" where
  "hexc u = char_of (unat (u AND 0x0f) + (if u AND 0x0f \<le> 9 then 48 else 97 - 10))"

text \<open>The value of a character that is no digit is -1, all bits set.\<close>

definition hexu :: "char \<Rightarrow> u8" where
  "hexu c = (let n = of_char c :: nat in
     if 48 \<le> n \<and> n \<le> 57 then of_nat (n - 48)
     else if 97 \<le> n \<and> n \<le> 102 then of_nat (n - 87)
     else if 65 \<le> n \<and> n \<le> 70 then of_nat (n - 55)
     else - 1)"

fun decode_pairs :: "string \<Rightarrow> bytes" where
  "decode_pairs (a # b # s) = (push_bit 4 (hexu a) OR hexu b) # decode_pairs s"
| "decode_pairs s = []"

definition decodeHex :: "nat \<Rightarrow> string \<Rightarrow> bytes res" where
  "decodeHex targetLen source =
     (if length source mod 2 \<noteq> 0 \<or> 2 * targetLen \<noteq> length source then Inl AssertFailed
      else Inr (decode_pairs source))"

definition decodeHexLength :: "nat \<Rightarrow> nat res" where
  "decodeHexLength stringLen = (if stringLen mod 2 \<noteq> 0 then Inl AssertFailed else Inr (stringLen div 2))"

definition decodeHexCreate :: "string \<Rightarrow> (nat \<times> bytes) res" where
  "decodeHexCreate source =
     rbind (decodeHexLength (length source)) (\<lambda>n. rbind (decodeHex n source) (\<lambda>bs. Inr (n, bs)))"

definition encode_pairs :: "bytes \<Rightarrow> string" where
  "encode_pairs source = concat (map (\<lambda>b. [hexc (drop_bit 4 b), hexc b]) source)"

definition encodeHex :: "nat \<Rightarrow> bytes \<Rightarrow> string res" where
  "encodeHex targetLen source =
     (if targetLen \<noteq> 2 * length source + 1 then Inl AssertFailed else Inr (encode_pairs source))"

definition encodeHexLength :: "nat \<Rightarrow> nat" where
  "encodeHexLength byteArrayLen = 2 * byteArrayLen + 1"

definition encodeHexCreate :: "bytes \<Rightarrow> (nat \<times> string) res" where
  "encodeHexCreate source =
     rbind (encodeHex (encodeHexLength (length source)) source) (\<lambda>s. Inr (encodeHexLength (length source), s))"

definition hex_digit :: "char \<Rightarrow> bool" where
  "hex_digit c \<longleftrightarrow> (let n = of_char c :: nat in 48 \<le> n \<and> n \<le> 57 \<or> 97 \<le> n \<and> n \<le> 102 \<or> 65 \<le> n \<and> n \<le> 70)"

definition encodeHexValidate :: "string option \<Rightarrow> bool" where
  "encodeHexValidate number =
     (case number of
        None \<Rightarrow> False
      | Some s \<Rightarrow> if s = [] \<or> length s mod 2 \<noteq> 0 then False else list_all hex_digit s)"

section \<open>Reading what was written\<close>

lemma hexu_hexc: "hexu (hexc u) = u AND 0x0f" "hex_digit (hexc u)"
proof -
  have m: "(0x0f :: u8) = mask 4" by (simp add: mask_eq_exp_minus_1)
  have n: "unat (u AND 0x0f) < 16" by (simp add: m take_bit_eq_mask[symmetric] unat_take_bit)
  have le: "u AND 0x0f \<le> 9 \<longleftrightarrow> unat (u AND 0x0f) \<le> 9" by (simp add: word_le_nat_alt)
  have c: "(of_char (hexc u) :: nat) = unat (u AND 0x0f) + (if u AND 0x0f \<le> 9 then 48 else 87)"
    using n by (simp add: hexc_def)
  show "hexu (hexc u) = u AND 0x0f" using n by (auto simp: hexu_def c Let_def le)
  show "hex_digit (hexc u)" using n by (auto simp: hex_digit_def c Let_def le)
qed

lemma nibbles: "push_bit 4 (drop_bit 4 b AND 0x0f) OR (b AND 0x0f) = (b :: u8)"
proof (rule bit_word_eqI)
  fix k assume k: "k < LENGTH(8)"
  have m: "(0x0f :: u8) = mask 4" by (simp add: mask_eq_exp_minus_1)
  show "bit (push_bit 4 (drop_bit 4 b AND 0x0f) OR (b AND 0x0f)) k \<longleftrightarrow> bit b k"
    using k by (auto simp: m take_bit_eq_mask[symmetric] bit_or_iff bit_push_bit_iff bit_take_bit_iff bit_drop_bit_eq)
qed

lemma decode_encode_pairs: "decode_pairs (encode_pairs bs) = bs"
  by (induction bs) (simp_all add: encode_pairs_def hexu_hexc nibbles[simplified])

lemma length_encode_pairs [simp]: "length (encode_pairs bs) = 2 * length bs"
  by (induction bs) (simp_all add: encode_pairs_def)

lemma hex_roundtrip:
  "encodeHexCreate bs = Inr (2 * length bs + 1, encode_pairs bs)"
  "decodeHexCreate (encode_pairs bs) = Inr (length bs, bs)"
  "bs \<noteq> [] \<Longrightarrow> encodeHexValidate (Some (encode_pairs bs))"
proof -
  show "encodeHexCreate bs = Inr (2 * length bs + 1, encode_pairs bs)"
    by (simp add: encodeHexCreate_def encodeHex_def encodeHexLength_def)
  show "decodeHexCreate (encode_pairs bs) = Inr (length bs, bs)"
    by (simp add: decodeHexCreate_def decodeHexLength_def decodeHex_def decode_encode_pairs)
  have "list_all hex_digit (encode_pairs bs)"
    by (induction bs) (simp_all add: encode_pairs_def hexu_hexc)
  then show "encodeHexValidate (Some (encode_pairs bs))" if "bs \<noteq> []"
    using that length_encode_pairs[of bs] by (cases bs) (auto simp: encodeHexValidate_def encode_pairs_def)
qed

end
