(* ===== verification/BRRlpCoder.thy ===== *)
theory BRRlpCoder
  imports BRUtilMath BRUtilHex
begin

text \<open>
  \<open>ethereum/rlp/BRRlpCoder.c\<close>: the recursive length prefix encoding. A coder holds contexts, the encodings that
  were made so far, and an item is the index of one of them. Memory that is read is the list of the bytes from
  an address on; a read beyond it is a fault, and so is the use of memory that was freed.
\<close>

section \<open>Coder, contexts and items\<close>

datatype BRRlpItemType = CODER_ITEM | CODER_LIST

record BRRlpItem =
  it_identifier :: nat
  it_indexer :: nat

record BRRlpContext =
  cx_coder :: "nat option"
  cx_type :: BRRlpItemType
  cx_bytes :: bytes
  cx_items :: "BRRlpItem list"

record BRRlpCoder =
  co_address :: nat
  co_contexts :: "BRRlpContext list"
  co_allocated :: nat

definition contextEmpty :: BRRlpContext where
  "contextEmpty = \<lparr>cx_coder = None, cx_type = CODER_ITEM, cx_bytes = [], cx_items = []\<rparr>"

definition contextIsValid :: "BRRlpContext \<Rightarrow> bool" where
  "contextIsValid context \<longleftrightarrow> cx_coder context \<noteq> None"

definition createContextItem :: "BRRlpCoder \<Rightarrow> bytes \<Rightarrow> BRRlpContext" where
  "createContextItem coder bytes = contextEmpty\<lparr>cx_coder := Some (co_address coder), cx_bytes := bytes\<rparr>"

definition createContextList :: "BRRlpCoder \<Rightarrow> bytes \<Rightarrow> BRRlpItem list \<Rightarrow> BRRlpContext" where
  "createContextList coder bytes items = (createContextItem coder bytes)\<lparr>cx_type := CODER_LIST, cx_items := items\<rparr>"

definition createContextItemAppend :: "BRRlpCoder \<Rightarrow> BRRlpContext \<Rightarrow> BRRlpContext \<Rightarrow> BRRlpContext res" where
  "createContextItemAppend coder context1 context2 =
     (if cx_type context1 \<noteq> CODER_ITEM \<or> cx_type context2 \<noteq> CODER_ITEM \<or>
         cx_coder context1 \<noteq> Some (co_address coder) \<or> cx_coder context2 \<noteq> Some (co_address coder) then Inl AssertFailed
      else Inr (createContextItem coder (cx_bytes context1 @ cx_bytes context2)))"

definition CODER_DEFAULT_CONTEXTS :: nat where "CODER_DEFAULT_CONTEXTS = 10"

definition rlpCoderCreate :: "nat \<Rightarrow> BRRlpCoder" where
  "rlpCoderCreate address = \<lparr>co_address = address, co_contexts = [], co_allocated = CODER_DEFAULT_CONTEXTS\<rparr>"

definition coderIsValidItem :: "BRRlpCoder \<Rightarrow> BRRlpItem \<Rightarrow> bool" where
  "coderIsValidItem coder item \<longleftrightarrow> it_indexer item < length (co_contexts coder) \<and> it_identifier item = co_address coder"

definition coderLookupContext :: "BRRlpCoder \<Rightarrow> BRRlpItem \<Rightarrow> BRRlpContext" where
  "coderLookupContext coder item =
     (if coderIsValidItem coder item then co_contexts coder ! it_indexer item else contextEmpty)"

function coderAddContext :: "BRRlpCoder \<Rightarrow> BRRlpContext \<Rightarrow> BRRlpItem \<times> BRRlpCoder" where
  "coderAddContext coder context =
     (if co_allocated coder \<le> length (co_contexts coder) + 1
      then coderAddContext (coder\<lparr>co_allocated := co_allocated coder + CODER_DEFAULT_CONTEXTS\<rparr>) context
      else (\<lparr>it_identifier = co_address coder, it_indexer = length (co_contexts coder)\<rparr>,
            coder\<lparr>co_contexts := co_contexts coder @ [context]\<rparr>))"
  by pat_completeness auto
termination
  by (relation "measure (\<lambda>(coder, _). length (co_contexts coder) + 2 - co_allocated coder)")
    (auto simp: CODER_DEFAULT_CONTEXTS_def)

declare coderAddContext.simps [simp del]

section \<open>Numbers as bytes\<close>

definition CODER_NUMBER_BYTES_LIMIT :: nat where "CODER_NUMBER_BYTES_LIMIT = 256 div 8"

definition findNonZeroIndex :: "bytes \<Rightarrow> nat" where
  "findNonZeroIndex bytes = length (takeWhile (\<lambda>b. b = 0) bytes)"

definition swapBytesIfLittleEndian :: "bytes \<Rightarrow> bytes" where
  "swapBytesIfLittleEndian source = rev source"

text \<open>The bytes from the first that is not zero on, or all of them when they are zero: but then only one is counted.\<close>

definition convertToBigEndianAndNormalize :: "bytes \<Rightarrow> bytes res" where
  "convertToBigEndianAndNormalize source =
     (if CODER_NUMBER_BYTES_LIMIT < length source then Inl AssertFailed
      else
        let target = swapBytesIfLittleEndian source; i = findNonZeroIndex target
        in Inr (if length target - i = 0 then take 1 target else drop i target))"

definition convertFromBigEndian :: "nat \<Rightarrow> bytes \<Rightarrow> bytes res" where
  "convertFromBigEndian targetCount bytes =
     (if targetCount < length bytes then Inl OutOfBounds
      else Inr (swapBytesIfLittleEndian (replicate (targetCount - length bytes) 0 @ bytes)))"

definition RLP_PREFIX_BYTES :: u8 where "RLP_PREFIX_BYTES = 0x80"
definition RLP_PREFIX_LIST :: u8 where "RLP_PREFIX_LIST = 0xc0"
definition RLP_PREFIX_LENGTH_LIMIT :: nat where "RLP_PREFIX_LENGTH_LIMIT = 55"

definition coderEncodeLength :: "BRRlpCoder \<Rightarrow> u64 \<Rightarrow> u8 \<Rightarrow> BRRlpContext res" where
  "coderEncodeLength coder len baseline =
     (if unat len \<le> RLP_PREFIX_LENGTH_LIMIT then Inr (createContextItem coder [baseline + ucast len])
      else rbind (convertToBigEndianAndNormalize (le_bytes 8 len)) (\<lambda>bs.
           Inr (createContextItem coder ((baseline + of_nat RLP_PREFIX_LENGTH_LIMIT + of_nat (length bs)) # bs))))"

definition coderDecodeLength :: "bytes \<Rightarrow> u8 \<Rightarrow> (nat \<times> nat) res" where
  "coderDecodeLength bytes baseline =
     (case bytes of
        [] \<Rightarrow> Inl OutOfBounds
      | prefix # rest \<Rightarrow>
          if prefix < baseline then Inr (1, 0)
          else if unat prefix - unat baseline \<le> RLP_PREFIX_LENGTH_LIMIT then Inr (unat prefix - unat baseline, 1)
          else
            let n = unat prefix - unat baseline - RLP_PREFIX_LENGTH_LIMIT in
            if 8 < n then Inl AssertFailed
            else if length rest < n then Inl OutOfBounds
            else rbind (convertFromBigEndian 8 (take n rest)) (\<lambda>v. Inr (unat (le_word v :: u64), 1 + n)))"

lemma decode_length_offset:
  "coderDecodeLength bytes baseline = Inr (n, off) \<Longrightarrow> bytes \<noteq> [] \<Longrightarrow> \<not> bytes ! 0 < baseline \<Longrightarrow> 0 < off"
  by (cases bytes) (auto simp: coderDecodeLength_def rbind_eq_Inr_conv Let_def split: if_splits)

definition read_bytes :: "bytes \<Rightarrow> nat \<Rightarrow> nat \<Rightarrow> bytes res" where
  "read_bytes bytes off n = (if off + n \<le> length bytes then Inr (take n (drop off bytes)) else Inl OutOfBounds)"

section \<open>Encoding and decoding items\<close>

definition coderEncodeBytes :: "BRRlpCoder \<Rightarrow> bytes \<Rightarrow> BRRlpContext res" where
  "coderEncodeBytes coder bytes =
     (if length bytes = 1 \<and> bytes ! 0 < RLP_PREFIX_BYTES then Inr (createContextItem coder bytes)
      else rbind (coderEncodeLength coder (of_nat (length bytes)) RLP_PREFIX_BYTES) (\<lambda>context.
           createContextItemAppend coder context (createContextItem coder bytes)))"

definition coderEncodeNumber :: "BRRlpCoder \<Rightarrow> bytes \<Rightarrow> BRRlpContext res" where
  "coderEncodeNumber coder source = rbind (convertToBigEndianAndNormalize source) (coderEncodeBytes coder)"

definition coderDecodeNumber :: "nat \<Rightarrow> bytes \<Rightarrow> bytes res" where
  "coderDecodeNumber targetCount bytes =
     rbind (coderDecodeLength bytes RLP_PREFIX_BYTES) (\<lambda>(n, off).
     if targetCount < n then Inl OutOfBounds
     else rbind (read_bytes bytes off n) (convertFromBigEndian targetCount))"

definition coderEncodeUInt64 :: "BRRlpCoder \<Rightarrow> u64 \<Rightarrow> BRRlpContext res" where
  "coderEncodeUInt64 coder v = coderEncodeNumber coder (le_bytes 8 v)"

definition coderDecodeUInt64 :: "BRRlpContext \<Rightarrow> u64 res" where
  "coderDecodeUInt64 context =
     (if \<not> contextIsValid context then Inl AssertFailed
      else rbind (coderDecodeNumber 8 (cx_bytes context)) (\<lambda>bs. Inr (le_word bs)))"

definition coderEncodeUInt256 :: "BRRlpCoder \<Rightarrow> UInt256 \<Rightarrow> BRRlpContext res" where
  "coderEncodeUInt256 coder v = coderEncodeNumber coder (le_bytes 32 v)"

definition coderDecodeUInt256 :: "BRRlpContext \<Rightarrow> UInt256 res" where
  "coderDecodeUInt256 context =
     (if \<not> contextIsValid context then Inl AssertFailed
      else rbind (coderDecodeNumber 32 (cx_bytes context)) (\<lambda>bs. Inr (le_word bs)))"

definition coderEncodeList :: "BRRlpCoder \<Rightarrow> BRRlpItem list \<Rightarrow> BRRlpContext res" where
  "coderEncodeList coder items =
     (if \<not> list_all (coderIsValidItem coder) items then Inl AssertFailed
      else
        let bytes = concat (map (\<lambda>i. cx_bytes (coderLookupContext coder i)) items) in
        rbind (coderEncodeLength coder (of_nat (length bytes)) RLP_PREFIX_LIST) (\<lambda>context.
        rbind (if length bytes = 0 then Inr context
               else createContextItemAppend coder context (createContextItem coder bytes)) (\<lambda>context.
        Inr (createContextList coder (cx_bytes context) items))))"

text \<open>An item is added to the coder, which is returned with it.\<close>

definition add_item :: "BRRlpCoder \<Rightarrow> BRRlpContext res \<Rightarrow> (BRRlpItem \<times> BRRlpCoder) res" where
  "add_item coder context = rbind context (\<lambda>context. Inr (coderAddContext coder context))"

definition rlpEncodeItemBytes :: "BRRlpCoder \<Rightarrow> bytes \<Rightarrow> (BRRlpItem \<times> BRRlpCoder) res" where
  "rlpEncodeItemBytes coder bytes = add_item coder (coderEncodeBytes coder bytes)"

definition rlpEncodeItemString :: "BRRlpCoder \<Rightarrow> string option \<Rightarrow> (BRRlpItem \<times> BRRlpCoder) res" where
  "rlpEncodeItemString coder s =
     rlpEncodeItemBytes coder (case s of None \<Rightarrow> [] | Some s \<Rightarrow> map of_char s)"

definition item_length :: "BRRlpCoder \<Rightarrow> BRRlpItem \<Rightarrow> (bytes \<times> nat \<times> nat) res" where
  "item_length coder item =
     (if \<not> coderIsValidItem coder item then Inl AssertFailed
      else let bs = cx_bytes (coderLookupContext coder item) in
        rbind (coderDecodeLength bs RLP_PREFIX_BYTES) (\<lambda>(n, off). Inr (bs, n, off)))"

definition rlpDecodeItemBytes :: "BRRlpCoder \<Rightarrow> BRRlpItem \<Rightarrow> bytes res" where
  "rlpDecodeItemBytes coder item = rbind (item_length coder item) (\<lambda>(bs, n, off). read_bytes bs off n)"

text \<open>The result is a buffer with a final 0, so a caller sees the string up to the first 0 byte.\<close>

definition rlpDecodeItemString :: "BRRlpCoder \<Rightarrow> BRRlpItem \<Rightarrow> bytes res" where
  "rlpDecodeItemString coder item =
     rbind (item_length coder item) (\<lambda>(bs, n, off). rbind (read_bytes bs off n) (\<lambda>r. Inr (r @ [0])))"

definition rlpDecodeItemIsString :: "BRRlpCoder \<Rightarrow> BRRlpItem \<Rightarrow> bool res" where
  "rlpDecodeItemIsString coder item =
     (if \<not> coderIsValidItem coder item then Inl AssertFailed
      else let context = coderLookupContext coder item; bs = cx_bytes context in
        Inr (cx_type context = CODER_ITEM \<and> bs \<noteq> [] \<and> RLP_PREFIX_BYTES \<le> bs ! 0 \<and> bs ! 0 < RLP_PREFIX_LIST))"

definition rlpDecodeItemIsEmptyString :: "BRRlpCoder \<Rightarrow> BRRlpItem \<Rightarrow> bool res" where
  "rlpDecodeItemIsEmptyString coder item =
     (if \<not> coderIsValidItem coder item then Inl AssertFailed
      else let context = coderLookupContext coder item; bs = cx_bytes context in
        Inr (cx_type context = CODER_ITEM \<and> length bs = 1 \<and> RLP_PREFIX_BYTES \<le> bs ! 0))"

definition rlpEncodeItemUInt64 :: "BRRlpCoder \<Rightarrow> u64 \<Rightarrow> bool \<Rightarrow> (BRRlpItem \<times> BRRlpCoder) res" where
  "rlpEncodeItemUInt64 coder v zeroAsEmptyString =
     (if zeroAsEmptyString \<and> v = 0 then rlpEncodeItemString coder (Some '''')
      else add_item coder (coderEncodeUInt64 coder v))"

definition rlpDecodeItemUInt64 :: "BRRlpCoder \<Rightarrow> BRRlpItem \<Rightarrow> bool \<Rightarrow> u64 res" where
  "rlpDecodeItemUInt64 coder item zeroAsEmptyString =
     rbind (if zeroAsEmptyString then rlpDecodeItemIsEmptyString coder item else Inr False) (\<lambda>empty.
     if empty then Inr 0 else coderDecodeUInt64 (coderLookupContext coder item))"

definition rlpEncodeItemUInt256 :: "BRRlpCoder \<Rightarrow> UInt256 \<Rightarrow> bool \<Rightarrow> (BRRlpItem \<times> BRRlpCoder) res" where
  "rlpEncodeItemUInt256 coder v zeroAsEmptyString =
     (if zeroAsEmptyString \<and> compareUInt256 v 0 = 0 then rlpEncodeItemString coder (Some '''')
      else add_item coder (coderEncodeUInt256 coder v))"

definition rlpDecodeItemUInt256 :: "BRRlpCoder \<Rightarrow> BRRlpItem \<Rightarrow> bool \<Rightarrow> UInt256 res" where
  "rlpDecodeItemUInt256 coder item zeroAsEmptyString =
     rbind (if zeroAsEmptyString then rlpDecodeItemIsEmptyString coder item else Inr False) (\<lambda>empty.
     if empty then Inr 0 else coderDecodeUInt256 (coderLookupContext coder item))"

definition rlpEncodeItemHexString :: "BRRlpCoder \<Rightarrow> string option \<Rightarrow> (BRRlpItem \<times> BRRlpCoder) res" where
  "rlpEncodeItemHexString coder s =
     (case s of
        None \<Rightarrow> rlpEncodeItemString coder None
      | Some s \<Rightarrow>
          let s = (if take 2 s = ''0x'' then drop 2 s else s) in
          if s = [] then rlpEncodeItemString coder (Some s)
          else rbind (decodeHexCreate s) (\<lambda>(_, bs). rlpEncodeItemBytes coder bs))"

definition rlpDecodeItemHexString :: "BRRlpCoder \<Rightarrow> BRRlpItem \<Rightarrow> string option \<Rightarrow> string res" where
  "rlpDecodeItemHexString coder item prefix =
     rbind (rlpDecodeItemBytes coder item) (\<lambda>bs.
     rbind (encodeHex (2 * length bs + 1) bs) (\<lambda>hex.
     Inr ((case prefix of None \<Rightarrow> [] | Some p \<Rightarrow> p) @ hex)))"

section \<open>Lists\<close>

definition rlpEncodeListItems :: "BRRlpCoder \<Rightarrow> BRRlpItem list \<Rightarrow> (BRRlpItem \<times> BRRlpCoder) res" where
  "rlpEncodeListItems coder items = add_item coder (coderEncodeList coder items)"

definition rlpEncodeList1 :: "BRRlpCoder \<Rightarrow> BRRlpItem \<Rightarrow> (BRRlpItem \<times> BRRlpCoder) res" where
  "rlpEncodeList1 coder item =
     (if \<not> coderIsValidItem coder item then Inl AssertFailed else add_item coder (coderEncodeList coder [item]))"

definition rlpEncodeList2 :: "BRRlpCoder \<Rightarrow> BRRlpItem \<Rightarrow> BRRlpItem \<Rightarrow> (BRRlpItem \<times> BRRlpCoder) res" where
  "rlpEncodeList2 coder item1 item2 =
     (if \<not> coderIsValidItem coder item1 then Inl AssertFailed
      else add_item coder (coderEncodeList coder [item1, item2]))"

definition rlpEncodeList :: "BRRlpCoder \<Rightarrow> BRRlpItem list \<Rightarrow> (BRRlpItem \<times> BRRlpCoder) res" where
  "rlpEncodeList coder items = add_item coder (coderEncodeList coder items)"

definition rlpDecodeList :: "BRRlpCoder \<Rightarrow> BRRlpItem \<Rightarrow> BRRlpItem list option res" where
  "rlpDecodeList coder item =
     (if \<not> coderIsValidItem coder item then Inl AssertFailed
      else case cx_type (coderLookupContext coder item) of
        CODER_ITEM \<Rightarrow> Inr None
      | CODER_LIST \<Rightarrow> Inr (Some (cx_items (coderLookupContext coder item))))"

definition rlpDataExtract :: "BRRlpCoder \<Rightarrow> BRRlpItem \<Rightarrow> bytes res" where
  "rlpDataExtract coder item =
     (if \<not> coderIsValidItem coder item then Inl AssertFailed else Inr (cx_bytes (coderLookupContext coder item)))"

text \<open>The number of bytes of the item at the start of \<open>bytes\<close>; the sum wraps around.\<close>

definition rlpGetItem_FillData :: "bytes \<Rightarrow> nat res" where
  "rlpGetItem_FillData bytes =
     (case bytes of
        [] \<Rightarrow> Inl OutOfBounds
      | prefix # _ \<Rightarrow>
          if RLP_PREFIX_BYTES \<le> prefix then
            rbind (coderDecodeLength bytes (if prefix < RLP_PREFIX_LIST then RLP_PREFIX_BYTES else RLP_PREFIX_LIST))
              (\<lambda>(n, off). Inr ((n + off) mod 2 ^ 64))
          else Inr 1)"

definition DEFAULT_ITEM_INCREMENT :: nat where "DEFAULT_ITEM_INCREMENT = 20"

text \<open>
  \<open>data\<close> is a part of a buffer: an offset in the buffer and a count of bytes. The sub-items of a list may claim
  more bytes than the list has, and are then read from the rest of the buffer. An item of no bytes fails the
  assertion of the call for it, which is made before its place in the list is left. The array of sub-items is
  on the stack until it is full; after that it is on the heap, and is freed before the list is made of it.
\<close>

function rlpGetItem :: "bytes \<Rightarrow> nat \<Rightarrow> nat \<Rightarrow> BRRlpCoder \<Rightarrow> (BRRlpItem \<times> BRRlpCoder) res"
  and get_items :: "bytes \<Rightarrow> nat \<Rightarrow> nat \<Rightarrow> BRRlpItem list \<Rightarrow> BRRlpCoder \<Rightarrow> (BRRlpItem list \<times> BRRlpCoder) res" where
  "rlpGetItem buf off count coder =
     (if count = 0 then Inl AssertFailed
      else if length buf \<le> off then Inl OutOfBounds
      else if buf ! off < RLP_PREFIX_LIST then
        rbind (read_bytes buf off count) (\<lambda>bs. Inr (coderAddContext coder (createContextItem coder bs)))
      else
        rbind (coderDecodeLength (drop off buf) RLP_PREFIX_LIST) (\<lambda>(n, o').
        if count \<noteq> (n + o') mod 2 ^ 64 then Inl AssertFailed
        else rbind (get_items buf (off + o') (off + count) [] coder) (\<lambda>(items, coder).
             rbind (read_bytes buf off count) (\<lambda>bs.
             if DEFAULT_ITEM_INCREMENT \<le> length items then Inl OutOfBounds
             else Inr (coderAddContext coder (createContextList coder bs items))))))"
| "get_items buf off limit items coder =
     (if limit \<le> off then Inr (items, coder)
      else if length buf \<le> off then Inl OutOfBounds
      else rbind (rlpGetItem_FillData (drop off buf)) (\<lambda>n.
           if n = 0 then Inl AssertFailed
           else rbind (rlpGetItem buf off n coder) (\<lambda>(item, coder).
                get_items buf (off + n) limit (items @ [item]) coder)))"
  by pat_completeness auto
termination
proof (relation "measure (case_sum (\<lambda>(buf, off, _). 2 * (length buf - off)) (\<lambda>(buf, off, _). 2 * (length buf - off) + 1))")
  fix buf :: bytes and off count n o' :: nat and x
  assume "\<not> length buf \<le> off" "\<not> buf ! off < RLP_PREFIX_LIST" "coderDecodeLength (drop off buf) RLP_PREFIX_LIST = Inr x"
    "(n, o') = x"
  then have "0 < o'" using decode_length_offset[of "drop off buf" RLP_PREFIX_LIST n o'] by simp
  then show "(Inr (buf, off + o', off + count, [], coder), Inl (buf, off, count, coder)) \<in>
      measure (case_sum (\<lambda>(buf, off, _). 2 * (length buf - off)) (\<lambda>(buf, off, _). 2 * (length buf - off) + 1))" for coder
    using \<open>\<not> length buf \<le> off\<close> by simp
qed auto

declare rlpGetItem.simps [simp del] get_items.simps [simp del]

end
