(* ===== verification/BRRlpCoderCorrect.thy ===== *)
theory BRRlpCoderCorrect
  imports BRRlpCoder
begin

text \<open>
  The recursive length prefix encoding of the coder is the one of the format, and is read back, numbers
  included; a list of 20 items or more is not, as the coder uses memory that it has freed.
\<close>

section \<open>The format\<close>

datatype rlp = Str bytes | Lst "rlp list"

text \<open>A number in big endian bytes, without leading zeros.\<close>

fun nat_be :: "nat \<Rightarrow> bytes" where
  "nat_be n = (if n = 0 then [] else nat_be (n div 256) @ [of_nat (n mod 256)])"

declare nat_be.simps [simp del]

definition rlp_length :: "u8 \<Rightarrow> nat \<Rightarrow> bytes" where
  "rlp_length base n = (if n \<le> 55 then [base + of_nat n] else (base + 55 + of_nat (length (nat_be n))) # nat_be n)"

fun rlp_bytes :: "rlp \<Rightarrow> bytes" where
  "rlp_bytes (Str bs) = (if length bs = 1 \<and> bs ! 0 < 0x80 then bs else rlp_length 0x80 (length bs) @ bs)"
| "rlp_bytes (Lst ts) = (let bs = concat (map rlp_bytes ts) in rlp_length 0xc0 (length bs) @ bs)"

section \<open>Numbers\<close>

lemma nat_be_0 [simp]: "nat_be 0 = []"
  by (subst nat_be.simps) simp

lemma nat_be_eq_Nil [simp]: "nat_be n = [] \<longleftrightarrow> n = 0"
  by (subst nat_be.simps) simp

lemma le_val_nat_be: "le_val (rev (nat_be n)) = n"
proof (induction n rule: nat_be.induct)
  case (1 n)
  show ?case
  proof (cases "n = 0")
    case False
    have "nat_be n = nat_be (n div 256) @ [of_nat (n mod 256)]" using False by (subst nat_be.simps) simp
    moreover have "unat (of_nat (n mod 256) :: u8) = n mod 256" by (simp add: unat_of_nat)
    ultimately show ?thesis using 1[OF False] by simp
  qed simp
qed

lemma length_nat_be_le: "n < 256 ^ k \<Longrightarrow> length (nat_be n) \<le> k"
proof (induction k arbitrary: n)
  case (Suc k)
  then have "n div 256 < 256 ^ k" by (simp add: div_less_iff_less_mult mult.commute)
  from Suc.IH[OF this] show ?case by (subst nat_be.simps) simp
qed simp

lemma nat_be_le_bytes:
  "dropWhile (\<lambda>b. b = 0) (rev (le_bytes k (w :: 'a::len word))) = nat_be (unat w mod 256 ^ k)"
proof (induction k arbitrary: w)
  case (Suc k)
  let ?n = "unat w mod 256 ^ Suc k" and ?b = "ucast w :: u8"
  have "?n = 256 * (unat w div 256 mod 256 ^ k) + unat w mod 256" unfolding power_Suc by (rule mod_mult2_eq)
  then have d1: "?n div 256 = unat (drop_bit 8 w) mod 256 ^ k" by (simp add: unat_drop_bit del: power_Suc)
  have "?n mod 256 = unat w mod 256" by (rule mod_mod_cancel) simp
  note d = d1 this
  have b: "?b = of_nat (?n mod 256)"
    by (rule unsigned_word_eqI[where 'a = nat]) (simp only: unat_ucast d unat_of_nat, simp)
  have r: "rev (le_bytes (Suc k) w) = rev (le_bytes k (drop_bit 8 w)) @ [?b]" by (simp add: le_bytes_Suc)
  show ?case
  proof (cases "?n div 256 = 0")
    case True
    then have "dropWhile (\<lambda>b. b = 0) (rev (le_bytes k (drop_bit 8 w))) = []" using Suc.IH[of "drop_bit 8 w"] d(1) by simp
    then have "dropWhile (\<lambda>b. b = 0) (rev (le_bytes (Suc k) w)) = dropWhile (\<lambda>b. b = 0) [?b]"
      unfolding r by (subst dropWhile_append2) (auto simp: dropWhile_eq_Nil_conv)
    moreover have "nat_be ?n = (if ?n = 0 then [] else [of_nat (?n mod 256)])" using True by (subst nat_be.simps) simp
    moreover have "?b = 0 \<longleftrightarrow> ?n = 0"
    proof -
      have "?n < 256" using True by (simp add: div_eq_0_iff)
      then show ?thesis unfolding b by (simp add: unat_eq_0[symmetric] unat_of_nat)
    qed
    ultimately show ?thesis using b by simp
  next
    case False
    then have ne: "dropWhile (\<lambda>b. b = 0) (rev (le_bytes k (drop_bit 8 w))) \<noteq> []" using Suc.IH[of "drop_bit 8 w"] d(1) by simp
    then obtain x where "x \<in> set (rev (le_bytes k (drop_bit 8 w)))" "x \<noteq> 0" by (auto simp: dropWhile_eq_Nil_conv)
    then have "dropWhile (\<lambda>b. b = 0) (rev (le_bytes (Suc k) w)) =
        dropWhile (\<lambda>b. b = 0) (rev (le_bytes k (drop_bit 8 w))) @ [?b]"
      unfolding r by (rule dropWhile_append1)
    moreover have "?n \<noteq> 0" using False by (metis div_0)
    then have "nat_be ?n = nat_be (?n div 256) @ [of_nat (?n mod 256)]" by (subst nat_be.simps) simp
    ultimately show ?thesis using Suc.IH[of "drop_bit 8 w"] d(1) b by simp
  qed
qed (simp add: le_bytes_def)

lemma normalize_le_bytes:
  assumes "LENGTH('a) \<le> 8 * k" "0 < k" "k \<le> 32"
  shows "convertToBigEndianAndNormalize (le_bytes k (w :: 'a::len word)) = Inr (if w = 0 then [0] else nat_be (unat w))"
proof -
  let ?t = "rev (le_bytes k w)"
  have d: "drop (findNonZeroIndex ?t) ?t = dropWhile (\<lambda>b. b = 0) ?t"
    by (simp add: findNonZeroIndex_def dropWhile_eq_drop)
  have "unat w < 2 ^ (8 * k)" using unat_less_power[of w] assms(1) by (meson less_le_trans power_increasing one_le_numeral)
  also have "(2 :: nat) ^ (8 * k) = 256 ^ k" by (simp add: power_mult)
  finally have n: "dropWhile (\<lambda>b. b = 0) ?t = nat_be (unat w)" by (simp add: nat_be_le_bytes)
  have "length ?t - findNonZeroIndex ?t = 0 \<longleftrightarrow> w = 0"
    using arg_cong[OF d, of length] unfolding n by (simp add: unat_eq_0)
  moreover have "take 1 ?t = [0]" if "w = 0"
  proof -
    have "le_bytes k (0 :: 'a word) = replicate k 0" by (rule nth_equalityI) (simp_all add: nth_le_bytes)
    then have "?t = replicate k 0" using that by simp
    moreover have "take 1 (replicate k (0 :: u8)) = [0]" using assms(2) by (cases k) simp_all
    ultimately show ?thesis by simp
  qed
  ultimately show ?thesis using assms(3) d n
    by (simp add: convertToBigEndianAndNormalize_def swapBytesIfLittleEndian_def CODER_NUMBER_BYTES_LIMIT_def Let_def)
qed

lemma convert_back:
  assumes "length bs \<le> k" "8 * k \<le> LENGTH('a)"
  obtains v where "convertFromBigEndian k bs = Inr v" "unat (le_word v :: 'a::len word) = le_val (rev bs)"
proof -
  let ?v = "rev (replicate (k - length bs) 0 @ bs)"
  have "unat (le_word ?v :: 'a word) = le_val ?v" using assms by (intro unat_le_word) simp
  also have "... = le_val (rev bs)" by (simp add: le_val_append)
  finally show ?thesis using assms(1)
    by (intro that[of ?v]) (simp_all add: convertFromBigEndian_def swapBytesIfLittleEndian_def)
qed

section \<open>Lengths\<close>

lemma length_rlp_length: "n < 2 ^ 64 \<Longrightarrow> length (rlp_length base n) \<le> 9 \<and> rlp_length base n \<noteq> []"
  using length_nat_be_le[of n 8] by (simp add: rlp_length_def)

lemma encode_length:
  assumes "n < 2 ^ 64"
  shows "coderEncodeLength c (of_nat n) base = Inr (createContextItem c (rlp_length base n))"
proof -
  have u: "unat (of_nat n :: u64) = n" using assms by (simp add: unat_of_nat)
  have "(of_nat n :: u64) = 0 \<longleftrightarrow> n = 0" using u by (metis unat_eq_0)
  then have "convertToBigEndianAndNormalize (le_bytes 8 (of_nat n :: u64)) = Inr (nat_be n)" if "55 < n"
    using normalize_le_bytes[of 8 "of_nat n :: u64"] that u by simp
  moreover have "(ucast (of_nat n :: u64) :: u8) = of_nat n"
    by (rule unsigned_word_eqI[where 'a = nat]) (simp add: unat_ucast unat_of_nat mod_mod_cancel)
  ultimately show ?thesis
    by (simp add: coderEncodeLength_def u RLP_PREFIX_LENGTH_LIMIT_def rlp_length_def)
qed

lemma decode_length:
  assumes "n < 2 ^ 64" "base = 0x80 \<or> base = 0xc0"
  shows "coderDecodeLength (rlp_length base n @ r) base = Inr (n, length (rlp_length base n))"
    "\<not> (rlp_length base n @ r) ! 0 < base" "base = 0x80 \<Longrightarrow> (rlp_length base n @ r) ! 0 < 0xc0"
proof -
  have b: "unat base = 0x80 \<or> unat base = 0xc0" "unat base \<le> 0xc0" using assms(2) by auto
  have l: "length (nat_be n) \<le> 8" using length_nat_be_le[of n 8] assms(1) by simp
  let ?p = "if n \<le> 55 then n else 55 + length (nat_be n)"
  have p: "?p \<le> 63" using l by simp
  have "rlp_length base n = (base + of_nat ?p) # (if n \<le> 55 then [] else nat_be n)" by (simp add: rlp_length_def add.assoc)
  moreover have u: "unat (base + of_nat ?p) = unat base + ?p" using b(2) p by (simp add: unat_word_ariths unat_of_nat)
  ultimately obtain x rest where x: "rlp_length base n = x # rest" "unat x = unat base + ?p"
      "rest = (if n \<le> 55 then [] else nat_be n)" by blast
  show nl: "\<not> (rlp_length base n @ r) ! 0 < base" using x by (simp add: word_less_nat_alt)
  show "(rlp_length base n @ r) ! 0 < 0xc0" if "base = 0x80" using x that p by (simp add: word_less_nat_alt)
  show "coderDecodeLength (rlp_length base n @ r) base = Inr (n, length (rlp_length base n))"
  proof (cases "n \<le> 55")
    case True
    then show ?thesis using x nl by (simp add: coderDecodeLength_def RLP_PREFIX_LENGTH_LIMIT_def)
  next
    case False
    obtain v where v: "convertFromBigEndian 8 (nat_be n) = Inr v" "unat (le_word v :: u64) = n"
      using convert_back[where 'a = 64, of "nat_be n" 8] l by (auto simp: le_val_nat_be)
    have "length (nat_be n) \<noteq> 0" using False by simp
    then show ?thesis using x nl False v l by (simp add: coderDecodeLength_def RLP_PREFIX_LENGTH_LIMIT_def Let_def)
  qed
qed

lemma encode_bytes:
  assumes "length bs < 2 ^ 64"
  shows "coderEncodeBytes c bs = Inr (createContextItem c (rlp_bytes (Str bs)))"
  using encode_length[OF assms, of c "0x80"]
  by (simp add: coderEncodeBytes_def RLP_PREFIX_BYTES_def createContextItemAppend_def createContextItem_def contextEmpty_def)

lemma Str_length:
  assumes "length bs < 2 ^ 64"
  obtains o' where "coderDecodeLength (rlp_bytes (Str bs) @ r) 0x80 = Inr (length bs, o')"
    "rlp_bytes (Str bs) = take o' (rlp_bytes (Str bs)) @ bs" "length (rlp_bytes (Str bs)) = o' + length bs"
    "(rlp_bytes (Str bs) @ r) ! 0 < 0xc0" "(rlp_bytes (Str bs) @ r) ! 0 < 0x80 \<longrightarrow> length (rlp_bytes (Str bs)) = 1"
proof (cases "length bs = 1 \<and> bs ! 0 < 0x80")
  case True
  then obtain b where b: "bs = [b]" "b < 0x80" by (cases bs) auto
  then have "b < 0xc0" by (simp add: word_less_nat_alt)
  then show ?thesis using b by (intro that[of 0]) (simp_all add: coderDecodeLength_def)
next
  case False
  then have e: "rlp_bytes (Str bs) = rlp_length 0x80 (length bs) @ bs" by (simp only: rlp_bytes.simps if_False)
  show ?thesis
    by (rule that[of "length (rlp_length 0x80 (length bs))", unfolded e])
      (use decode_length[OF assms, of "0x80" "bs @ r"] in simp_all)
qed

lemma rlp_bytes_nonempty [simp]: "length (rlp_bytes t) < 2 ^ 64 \<Longrightarrow> rlp_bytes t \<noteq> []"
  using length_rlp_length by (cases t) (auto simp: Let_def)

text \<open>The number of bytes of an item is found out from its first bytes.\<close>

lemma fill_data:
  assumes "length (rlp_bytes t) < 2 ^ 64"
  shows "rlpGetItem_FillData (rlp_bytes t @ r) = Inr (length (rlp_bytes t))"
proof (cases t)
  case (Str bs)
  have "length bs < 2 ^ 64" using assms Str by (auto split: if_splits)
  then obtain o' where o': "coderDecodeLength (rlp_bytes t @ r) 0x80 = Inr (length bs, o')"
      "length (rlp_bytes t) = o' + length bs" "(rlp_bytes t @ r) ! 0 < 0xc0"
      "(rlp_bytes t @ r) ! 0 < 0x80 \<longrightarrow> length (rlp_bytes t) = 1"
    unfolding Str by (rule Str_length[of bs r]) blast
  moreover obtain p q where "rlp_bytes t @ r = p # q" using rlp_bytes_nonempty[OF assms] by (cases "rlp_bytes t") auto
  ultimately show ?thesis using assms
    by (auto simp: rlpGetItem_FillData_def RLP_PREFIX_BYTES_def RLP_PREFIX_LIST_def not_le)
next
  case (Lst ts)
  let ?bs = "concat (map rlp_bytes ts)"
  have e: "rlp_bytes t = rlp_length 0xc0 (length ?bs) @ ?bs" by (simp add: Lst Let_def)
  have l: "length ?bs < 2 ^ 64" using assms e by simp
  note d = decode_length[OF l, of "0xc0" "?bs @ r", simplified]
  obtain p q where pq: "rlp_length 0xc0 (length ?bs) @ ?bs @ r = p # q"
    using length_rlp_length[OF l, of "0xc0"] by (cases "rlp_length 0xc0 (length ?bs)") auto
  then have "\<not> p < 0xc0" using d(2) by simp
  moreover from this have "0x80 \<le> p" by (simp add: word_less_nat_alt word_le_nat_alt)
  ultimately show ?thesis using d(1) pq assms unfolding e
    by (simp add: rlpGetItem_FillData_def RLP_PREFIX_BYTES_def RLP_PREFIX_LIST_def add.commute)
qed

section \<open>Coders\<close>

text \<open>Contexts are only added to a coder.\<close>

definition grows :: "BRRlpCoder \<Rightarrow> BRRlpCoder \<Rightarrow> bool" where
  "grows c c' \<longleftrightarrow> co_address c' = co_address c \<and> (\<exists>xs. co_contexts c' = co_contexts c @ xs)"

lemma grows_refl [simp]: "grows c c"
  by (simp add: grows_def)

lemma grows_trans: "grows a b \<Longrightarrow> grows b c \<Longrightarrow> grows a c"
  by (auto simp: grows_def)

lemma grows_valid: "grows c c' \<Longrightarrow> coderIsValidItem c i \<Longrightarrow> coderIsValidItem c' i"
  by (auto simp: grows_def coderIsValidItem_def)

lemma grows_lookup: "grows c c' \<Longrightarrow> coderIsValidItem c i \<Longrightarrow> coderLookupContext c' i = coderLookupContext c i"
  by (auto simp: grows_def coderIsValidItem_def coderLookupContext_def nth_append)

lemma add_context:
  obtains i c' where "coderAddContext c x = (i, c')" "grows c c'" "coderIsValidItem c' i" "coderLookupContext c' i = x"
proof -
  have "\<exists>i c'. coderAddContext c x = (i, c') \<and> grows c c' \<and> coderIsValidItem c' i \<and> coderLookupContext c' i = x"
  proof (induction c x rule: coderAddContext.induct)
    case (1 c x)
    show ?case
    proof (cases "co_allocated c \<le> length (co_contexts c) + 1")
      case True
      from 1[OF this] True show ?thesis by (subst coderAddContext.simps) (simp add: grows_def)
    next
      case False
      then show ?thesis
        by (subst coderAddContext.simps) (simp add: grows_def coderIsValidItem_def coderLookupContext_def)
    qed
  qed
  then show ?thesis using that by blast
qed

lemma add_item_ok:
  assumes "x = Inr y"
  obtains i c' where "add_item c x = Inr (i, c')" "grows c c'" "coderIsValidItem c' i" "coderLookupContext c' i = y"
  by (rule add_context[of c y]) (auto simp: add_item_def assms intro: that)

section \<open>Encoding\<close>

text \<open>A value is encoded bottom up, as the callers of the coder do.\<close>

fun put_rlp :: "rlp \<Rightarrow> BRRlpCoder \<Rightarrow> (BRRlpItem \<times> BRRlpCoder) res"
  and put_rlps :: "rlp list \<Rightarrow> BRRlpCoder \<Rightarrow> (BRRlpItem list \<times> BRRlpCoder) res" where
  "put_rlp (Str bs) c = rlpEncodeItemBytes c bs"
| "put_rlp (Lst ts) c = rbind (put_rlps ts c) (\<lambda>(is, c). rlpEncodeListItems c is)"
| "put_rlps [] c = Inr ([], c)"
| "put_rlps (t # ts) c = rbind (put_rlp t c) (\<lambda>(i, c). rbind (put_rlps ts c) (\<lambda>(is, c). Inr (i # is, c)))"

definition item_bytes :: "BRRlpCoder \<Rightarrow> BRRlpItem \<Rightarrow> bytes" where
  "item_bytes c i = cx_bytes (coderLookupContext c i)"

lemma encode_list:
  assumes "list_all (coderIsValidItem c) is" "concat (map (item_bytes c) is) = concat (map rlp_bytes ts)"
    "length (rlp_bytes (Lst ts)) < 2 ^ 64"
  shows "coderEncodeList c is = Inr (createContextList c (rlp_bytes (Lst ts)) is)"
proof -
  let ?bs = "concat (map rlp_bytes ts)"
  have "length ?bs < 2 ^ 64" using assms(3) by (simp add: Let_def)
  from encode_length[OF this, of c "0xc0"] show ?thesis
    using assms(1,2)[unfolded item_bytes_def] by (simp add: coderEncodeList_def RLP_PREFIX_LIST_def Let_def createContextItemAppend_def createContextItem_def
        contextEmpty_def createContextList_def)
qed

lemma put_rlp_ok:
  "length (rlp_bytes t) < 2 ^ 64 \<Longrightarrow> \<exists>i c'. put_rlp t c = Inr (i, c') \<and> grows c c' \<and> coderIsValidItem c' i \<and> item_bytes c' i = rlp_bytes t"
  "length (concat (map rlp_bytes ts)) < 2 ^ 64 \<Longrightarrow> \<exists>is c'. put_rlps ts c = Inr (is, c') \<and> grows c c' \<and>
     list_all (coderIsValidItem c') is \<and> map (item_bytes c') is = map rlp_bytes ts"
proof (induction t c and ts c rule: put_rlp_put_rlps.induct)
  case (1 bs c)
  have "length bs < 2 ^ 64" using "1.prems" by (auto split: if_splits)
  from encode_bytes[OF this, of c] show ?case
    by (rule add_item_ok[of _ _ c]) (auto simp: rlpEncodeItemBytes_def item_bytes_def createContextItem_def contextEmpty_def)
next
  case (2 ts c)
  then have "length (concat (map rlp_bytes ts)) < 2 ^ 64" by (simp add: Let_def)
  from "2.IH"[OF this] obtain "is" c' where i: "put_rlps ts c = Inr (is, c')" "grows c c'"
      "list_all (coderIsValidItem c') is" "map (item_bytes c') is = map rlp_bytes ts" by blast
  have "concat (map (item_bytes c') is) = concat (map rlp_bytes ts)" using i(4) by simp
  from encode_list[OF i(3) this "2.prems"] show ?case
    by (rule add_item_ok[of _ _ c'])
      (use i(1) grows_trans[OF i(2)] in \<open>auto simp: rlpEncodeListItems_def item_bytes_def createContextList_def createContextItem_def simp del: rlp_bytes.simps\<close>)
next
  case (4 t ts c)
  then have l: "length (rlp_bytes t) < 2 ^ 64" "length (concat (map rlp_bytes ts)) < 2 ^ 64" by simp_all
  from "4.IH"(1)[OF l(1)] obtain i c1 where 1: "put_rlp t c = Inr (i, c1)" "grows c c1" "coderIsValidItem c1 i"
      "item_bytes c1 i = rlp_bytes t" by blast
  from "4.IH"(2)[OF 1(1) refl l(2)] obtain "is" c2 where 2: "put_rlps ts c1 = Inr (is, c2)" "grows c1 c2"
      "list_all (coderIsValidItem c2) is" "map (item_bytes c2) is = map rlp_bytes ts" by blast
  have "item_bytes c2 i = rlp_bytes t" using 1(3,4) grows_lookup[OF 2(2)] by (simp add: item_bytes_def)
  then show ?case using 1 2 grows_trans grows_valid by simp
qed simp

section \<open>Decoding\<close>

text \<open>What an item is read as, by the functions for the callers.\<close>

primrec reads :: "rlp \<Rightarrow> BRRlpCoder \<Rightarrow> BRRlpItem \<Rightarrow> bool" where
  "reads (Str bs) = (\<lambda>c i. rlpDecodeList c i = Inr None \<and> rlpDecodeItemBytes c i = Inr bs)"
| "reads (Lst ts) = (\<lambda>c i. \<exists>items. rlpDecodeList c i = Inr (Some items) \<and> list_all2 (\<lambda>r j. r c j) (map reads ts) items)"

text \<open>The coder reads lists of less than 20 items.\<close>

primrec short_lists :: "rlp \<Rightarrow> bool" where
  "short_lists (Str bs) = True"
| "short_lists (Lst ts) \<longleftrightarrow> length ts < 20 \<and> list_all (\<lambda>b. b) (map short_lists ts)"

lemma decode_list_grows: "grows c c' \<Longrightarrow> rlpDecodeList c i = Inr r \<Longrightarrow> rlpDecodeList c' i = Inr r"
  by (auto simp: rlpDecodeList_def grows_lookup grows_valid split: if_splits BRRlpItemType.splits)

lemma decode_bytes_grows: "grows c c' \<Longrightarrow> rlpDecodeItemBytes c i = Inr r \<Longrightarrow> rlpDecodeItemBytes c' i = Inr r"
  by (auto simp: rlpDecodeItemBytes_def item_length_def grows_lookup grows_valid split: if_splits)

lemma reads_grows: "grows c c' \<Longrightarrow> reads t c i \<Longrightarrow> reads t c' i"
proof (induction t arbitrary: i)
  case (Lst ts)
  then obtain items where "rlpDecodeList c i = Inr (Some items)" "list_all2 (\<lambda>r j. r c j) (map reads ts) items" by auto
  then have "rlpDecodeList c' i = Inr (Some items)" "list_all2 (\<lambda>r j. r c' j) (map reads ts) items"
    using Lst decode_list_grows by (auto simp: list_all2_conv_all_nth)
  then show ?case by auto
qed (auto intro: decode_list_grows decode_bytes_grows)

lemma drop_rest: "xs = take n xs @ ys \<Longrightarrow> drop n xs = ys"
  by (metis append_take_drop_id same_append_eq)

lemma reads_Str:
  assumes "length bs < 2 ^ 64" "coderIsValidItem c i" "coderLookupContext c i = createContextItem c0 (rlp_bytes (Str bs))"
  shows "reads (Str bs) c i"
proof -
  obtain o' where o': "coderDecodeLength (rlp_bytes (Str bs) @ []) 0x80 = Inr (length bs, o')"
      "rlp_bytes (Str bs) = take o' (rlp_bytes (Str bs)) @ bs" "length (rlp_bytes (Str bs)) = o' + length bs"
    by (rule Str_length[OF assms(1), of "[]"]) blast
  have "drop o' (rlp_bytes (Str bs)) = bs"
    by (rule drop_rest[OF o'(2)])
  then have "read_bytes (rlp_bytes (Str bs)) o' (length bs) = Inr bs" using o'(3) by (simp add: read_bytes_def)
  then show ?thesis using assms(2,3) o'(1)
    by (simp add: rlpDecodeItemBytes_def item_length_def rlpDecodeList_def createContextItem_def contextEmpty_def
        RLP_PREFIX_BYTES_def del: rlp_bytes.simps)
qed

lemma read_bytes_part: "read_bytes (pre @ bs @ post) (length pre) (length bs) = Inr bs"
  by (simp add: read_bytes_def)

definition got :: "BRRlpCoder \<Rightarrow> rlp \<Rightarrow> (BRRlpItem \<times> BRRlpCoder) res \<Rightarrow> bool" where
  "got c t r \<longleftrightarrow> (\<exists>i c'. r = Inr (i, c') \<and> grows c c' \<and> reads t c' i)"

lemma get_Str:
  assumes "length (rlp_bytes (Str bs)) < 2 ^ 64"
  shows "got c (Str bs) (rlpGetItem (pre @ rlp_bytes (Str bs) @ post) (length pre) (length (rlp_bytes (Str bs))) c)"
proof -
  have l: "length bs < 2 ^ 64" using assms by (auto split: if_splits)
  have p: "(rlp_bytes (Str bs) @ post) ! 0 < 0xc0" by (rule Str_length[OF l, of post]) blast
  obtain i c' where a: "coderAddContext c (createContextItem c (rlp_bytes (Str bs))) = (i, c')" "grows c c'"
      "coderIsValidItem c' i" "coderLookupContext c' i = createContextItem c (rlp_bytes (Str bs))"
    by (rule add_context[of c "createContextItem c (rlp_bytes (Str bs))"]) blast
  have "rlp_bytes (Str bs) \<noteq> []" using rlp_bytes_nonempty[OF assms] .
  then have "rlpGetItem (pre @ rlp_bytes (Str bs) @ post) (length pre) (length (rlp_bytes (Str bs))) c = Inr (i, c')"
    using p a(1) read_bytes_part[of pre "rlp_bytes (Str bs)" post]
    by (subst rlpGetItem.simps) (simp add: RLP_PREFIX_LIST_def nth_append del: rlp_bytes.simps)
  then show ?thesis using a(2) reads_Str[OF l a(3,4)] by (auto simp: got_def)
qed

text \<open>The sub-items of a list, given that each of them is read.\<close>

lemma get_items_ok:
  assumes "\<And>t c pre post. t \<in> set ts \<Longrightarrow> got c t (rlpGetItem (pre @ rlp_bytes t @ post) (length pre) (length (rlp_bytes t)) c)"
    "length (concat (map rlp_bytes ts)) < 2 ^ 64"
  shows "\<exists>is c'. get_items (pre @ concat (map rlp_bytes ts) @ post) (length pre)
      (length pre + length (concat (map rlp_bytes ts))) acc c = Inr (acc @ is, c') \<and> grows c c' \<and>
    list_all2 (\<lambda>r j. r c' j) (map reads ts) is"
  using assms
proof (induction ts arbitrary: pre acc c)
  case Nil
  then show ?case by (subst get_items.simps) simp
next
  case (Cons t ts)
  let ?rest = "concat (map rlp_bytes ts) @ post" and ?n = "length (rlp_bytes t)"
  have lt: "?n < 2 ^ 64" "length (concat (map rlp_bytes ts)) < 2 ^ 64" using Cons.prems(2) by simp_all
  obtain i c1 where i: "rlpGetItem (pre @ rlp_bytes t @ ?rest) (length pre) ?n c = Inr (i, c1)" "grows c c1" "reads t c1 i"
    using Cons.prems(1)[of t c pre ?rest] by (auto simp: got_def)
  have "\<And>u c pre post. u \<in> set ts \<Longrightarrow> got c u (rlpGetItem (pre @ rlp_bytes u @ post) (length pre) (length (rlp_bytes u)) c)"
    using Cons.prems(1) by simp
  from Cons.IH[OF this lt(2), of "pre @ rlp_bytes t" "acc @ [i]" c1] obtain "is" c' where
    s: "get_items (pre @ rlp_bytes t @ ?rest) (length pre + ?n) (length pre + ?n + length (concat (map rlp_bytes ts)))
          (acc @ [i]) c1 = Inr (acc @ i # is, c')" "grows c1 c'" "list_all2 (\<lambda>r j. r c' j) (map reads ts) is" by auto
  have "0 < ?n" using rlp_bytes_nonempty[OF lt(1)] by simp
  then have "get_items (pre @ rlp_bytes t @ ?rest) (length pre) (length pre + (?n + length (concat (map rlp_bytes ts)))) acc c =
      Inr (acc @ i # is, c')"
    using fill_data[OF lt(1), of ?rest] i(1) s(1) by (subst get_items.simps) (simp add: add.assoc)
  then show ?case using grows_trans[OF i(2) s(2)] reads_grows[OF s(2) i(3)] s(3)
    by (intro exI[of _ "i # is"] exI[of _ c']) simp
qed

lemma get_Lst_items:
  assumes "\<And>t c pre post. t \<in> set ts \<Longrightarrow> got c t (rlpGetItem (pre @ rlp_bytes t @ post) (length pre) (length (rlp_bytes t)) c)"
    "length (rlp_bytes (Lst ts)) < 2 ^ 64"
  obtains "is" c' where "rlpGetItem (pre @ rlp_bytes (Lst ts) @ post) (length pre) (length (rlp_bytes (Lst ts))) c =
      (if 20 \<le> length is then Inl OutOfBounds else Inr (coderAddContext c' (createContextList c' (rlp_bytes (Lst ts)) is)))"
    "grows c c'" "list_all2 (\<lambda>r j. r c' j) (map reads ts) is"
proof -
  let ?bs = "concat (map rlp_bytes ts)"
  define h where "h = rlp_length 0xc0 (length ?bs)"
  have e: "rlp_bytes (Lst ts) = h @ ?bs" by (simp add: h_def Let_def)
  have l: "length ?bs < 2 ^ 64" "length h + length ?bs < 2 ^ 64" using assms(2) unfolding e by simp_all
  have d: "coderDecodeLength (h @ ?bs @ post) 0xc0 = Inr (length ?bs, length h)" "\<not> (h @ ?bs @ post) ! 0 < 0xc0"
    using decode_length[OF l(1), of "0xc0" "?bs @ post"] by (simp_all add: h_def)
  have ne: "h \<noteq> []" using length_rlp_length[OF l(1)] by (simp add: h_def)
  obtain "is" c' where i: "get_items (pre @ h @ ?bs @ post) (length pre + length h) (length pre + length h + length ?bs) [] c =
      Inr (is, c')" "grows c c'" "list_all2 (\<lambda>r j. r c' j) (map reads ts) is"
    using get_items_ok[OF assms(1) l(1), where pre = "pre @ h" and post = post and acc = "[]" and c = c] by auto
  have "rlpGetItem (pre @ (h @ ?bs) @ post) (length pre) (length (h @ ?bs)) c =
      (if 20 \<le> length is then Inl OutOfBounds else Inr (coderAddContext c' (createContextList c' (h @ ?bs) is)))"
    using d ne l i(1) read_bytes_part[of pre "h @ ?bs" post]
    by (subst rlpGetItem.simps) (simp add: RLP_PREFIX_LIST_def DEFAULT_ITEM_INCREMENT_def nth_append ac_simps)
  then show ?thesis using i(2,3) by (rule that[unfolded e])
qed

lemma length_item_le: "t \<in> set ts \<Longrightarrow> length (rlp_bytes t) \<le> length (concat (map rlp_bytes ts))"
  by (induction ts) auto

lemma get_ok:
  "length (rlp_bytes t) < 2 ^ 64 \<Longrightarrow> short_lists t \<Longrightarrow>
   got c t (rlpGetItem (pre @ rlp_bytes t @ post) (length pre) (length (rlp_bytes t)) c)"
proof (induction t arbitrary: c pre post)
  case (Str bs)
  from get_Str[OF Str(1)] show ?case .
next
  case (Lst ts)
  note le = length_item_le
  have l: "length (concat (map rlp_bytes ts)) < 2 ^ 64" using Lst.prems(1) by (simp add: Let_def)
  have IH: "got c t (rlpGetItem (pre @ rlp_bytes t @ post) (length pre) (length (rlp_bytes t)) c)"
    if t: "t \<in> set ts" for t c pre post
  proof -
    have "length (rlp_bytes t) < 2 ^ 64" using le[OF t] l by (rule le_less_trans)
    moreover have "short_lists t" using Lst.prems(2) t by (simp add: list_all_iff)
    ultimately show ?thesis by (rule Lst.IH[OF t])
  qed
  obtain "is" c' where i: "rlpGetItem (pre @ rlp_bytes (Lst ts) @ post) (length pre) (length (rlp_bytes (Lst ts))) c =
      (if 20 \<le> length is then Inl OutOfBounds else Inr (coderAddContext c' (createContextList c' (rlp_bytes (Lst ts)) is)))"
    "grows c c'" "list_all2 (\<lambda>r j. r c' j) (map reads ts) is"
    by (rule get_Lst_items[of ts, OF IH Lst.prems(1)])
  obtain j c2 where a: "coderAddContext c' (createContextList c' (rlp_bytes (Lst ts)) is) = (j, c2)" "grows c' c2"
      "coderIsValidItem c2 j" "coderLookupContext c2 j = createContextList c' (rlp_bytes (Lst ts)) is"
    by (rule add_context[of c' "createContextList c' (rlp_bytes (Lst ts)) is"]) blast
  have "length is = length ts" using list_all2_lengthD[OF i(3)] by simp
  then have "\<not> 20 \<le> length is" using Lst.prems(2) by simp
  moreover have "list_all2 (\<lambda>r j. r c2 j) (map reads ts) is"
    using i(3) reads_grows[OF a(2)] by (auto simp: list_all2_conv_all_nth)
  then have "reads (Lst ts) c2 j" using a(3,4) by (simp add: rlpDecodeList_def createContextList_def)
  ultimately show ?case using i(1) a(1) grows_trans[OF i(2) a(2)] by (auto simp: got_def simp del: rlp_bytes.simps reads.simps)
qed

section \<open>Numbers as items\<close>

lemma encode_number:
  assumes "LENGTH('a) \<le> 8 * k" "0 < k" "k \<le> 32"
  shows "coderEncodeNumber c (le_bytes k (w :: 'a::len word)) =
    Inr (createContextItem c (rlp_bytes (Str (if w = 0 then [0] else nat_be (unat w)))))"
proof -
  have "unat w < 2 ^ (8 * k)" using unat_less_power[of w] assms(1) by (meson less_le_trans power_increasing one_le_numeral)
  also have "(2 :: nat) ^ (8 * k) = 256 ^ k" by (simp add: power_mult)
  finally have "length (nat_be (unat w)) \<le> 32" using length_nat_be_le assms(3) by (meson le_trans)
  then have "length (if w = 0 then [0] else nat_be (unat w)) < 2 ^ 64" by simp
  from encode_bytes[OF this] show ?thesis using assms by (simp add: coderEncodeNumber_def normalize_le_bytes del: rlp_bytes.simps)
qed

lemma decode_number:
  assumes "8 * k = LENGTH('a)" "0 < k" "k \<le> 32"
  shows "rbind (coderDecodeNumber k (rlp_bytes (Str (if w = 0 then [0] else nat_be (unat w))))) (\<lambda>bs. Inr (le_word bs)) =
    Inr (w :: 'a::len word)"
proof -
  let ?bs = "if w = 0 then [0] else nat_be (unat w)"
  have "(2 :: nat) ^ LENGTH('a) = 256 ^ k" by (simp add: assms(1)[symmetric] power_mult)
  then have "length (nat_be (unat w)) \<le> k" using length_nat_be_le[of "unat w" k] unat_less_power[of w] by simp
  then have l: "length ?bs \<le> k" "length ?bs < 2 ^ 64" using assms(2,3) by auto
  obtain o' where o': "coderDecodeLength (rlp_bytes (Str ?bs) @ []) 0x80 = Inr (length ?bs, o')"
      "rlp_bytes (Str ?bs) = take o' (rlp_bytes (Str ?bs)) @ ?bs" "length (rlp_bytes (Str ?bs)) = o' + length ?bs"
    by (rule Str_length[OF l(2), of "[]"]) blast
  have "drop o' (rlp_bytes (Str ?bs)) = ?bs" by (rule drop_rest[OF o'(2)])
  then have r: "read_bytes (rlp_bytes (Str ?bs)) o' (length ?bs) = Inr ?bs" using o'(3) by (simp add: read_bytes_def)
  obtain v where v: "convertFromBigEndian k ?bs = Inr v" "unat (le_word v :: 'a word) = le_val (rev ?bs)"
    using convert_back[where 'a = 'a, OF l(1)] assms(1) by auto
  have "le_val (rev ?bs) = unat w" by (simp add: le_val_nat_be)
  then have "(le_word v :: 'a word) = w" using v(2) by (intro unsigned_word_eqI[where 'a = nat]) simp
  then show ?thesis using o'(1) r v(1) l(1)
    by (simp add: coderDecodeNumber_def RLP_PREFIX_BYTES_def del: rlp_bytes.simps split del: if_split)
qed

lemma not_empty_string:
  assumes "coderIsValidItem c i" "coderLookupContext c i = createContextItem c0 (rlp_bytes (Str bs))"
    "bs \<noteq> []" "length bs < 2 ^ 64"
  shows "rlpDecodeItemIsEmptyString c i = Inr False"
proof (cases "length bs = 1 \<and> bs ! 0 < 0x80")
  case True
  then show ?thesis using assms(1,2)
    by (simp add: rlpDecodeItemIsEmptyString_def createContextItem_def contextEmpty_def RLP_PREFIX_BYTES_def not_le)
next
  case False
  have "1 < length (rlp_bytes (Str bs))" using length_rlp_length[OF assms(4), of "0x80"] assms(3) False
    by (cases bs; cases "rlp_length 0x80 (length bs)") auto
  then show ?thesis using assms(1,2)
    by (simp add: rlpDecodeItemIsEmptyString_def createContextItem_def contextEmpty_def del: rlp_bytes.simps)
qed

lemma empty_string:
  "\<exists>i c'. rlpEncodeItemString c (Some '''') = Inr (i, c') \<and> rlpDecodeItemIsEmptyString c' i = Inr True"
proof -
  have e: "coderEncodeBytes c [] = Inr (createContextItem c [0x80])"
    using encode_bytes[of "[]" c] by (simp add: rlp_length_def)
  then show ?thesis
    by (rule add_item_ok[of _ _ c]) (auto simp: rlpEncodeItemString_def rlpEncodeItemBytes_def rlpDecodeItemIsEmptyString_def
        createContextItem_def contextEmpty_def RLP_PREFIX_BYTES_def)
qed

lemma UInt64_item: "\<exists>i c'. rlpEncodeItemUInt64 c v z = Inr (i, c') \<and> rlpDecodeItemUInt64 c' i z = Inr v"
proof (cases "z \<and> v = 0")
  case True
  then show ?thesis using empty_string[of c] by (auto simp: rlpEncodeItemUInt64_def rlpDecodeItemUInt64_def)
next
  case False
  let ?bs = "if v = 0 then [0] else nat_be (unat v)"
  have e: "coderEncodeUInt64 c v = Inr (createContextItem c (rlp_bytes (Str ?bs)))"
    unfolding coderEncodeUInt64_def by (rule encode_number) simp_all
  obtain i c' where i: "add_item c (coderEncodeUInt64 c v) = Inr (i, c')" "coderIsValidItem c' i"
      "coderLookupContext c' i = createContextItem c (rlp_bytes (Str ?bs))"
    by (rule add_item_ok[OF e, of c]) blast
  have "length ?bs \<le> 32" using length_nat_be_le[of "unat v" 32] unat_u64[of v] by simp
  then have "z \<longrightarrow> rlpDecodeItemIsEmptyString c' i = Inr False"
    using False by (intro impI not_empty_string[OF i(2,3)]) (simp_all add: unat_eq_0)
  moreover have "coderDecodeUInt64 (coderLookupContext c' i) = Inr v"
    using decode_number[of 8 v] i(3)
    by (simp add: coderDecodeUInt64_def contextIsValid_def createContextItem_def contextEmpty_def del: rlp_bytes.simps split del: if_split)
  ultimately show ?thesis using False i(1) by (auto simp: rlpEncodeItemUInt64_def rlpDecodeItemUInt64_def)
qed

lemma UInt256_item: "\<exists>i c'. rlpEncodeItemUInt256 c v z = Inr (i, c') \<and> rlpDecodeItemUInt256 c' i z = Inr v"
proof (cases "z \<and> v = 0")
  case True
  then show ?thesis using empty_string[of c] by (auto simp: rlpEncodeItemUInt256_def rlpDecodeItemUInt256_def)
next
  case False
  let ?bs = "if v = 0 then [0] else nat_be (unat v)"
  have e: "coderEncodeUInt256 c v = Inr (createContextItem c (rlp_bytes (Str ?bs)))"
    unfolding coderEncodeUInt256_def by (rule encode_number) simp_all
  obtain i c' where i: "add_item c (coderEncodeUInt256 c v) = Inr (i, c')" "coderIsValidItem c' i"
      "coderLookupContext c' i = createContextItem c (rlp_bytes (Str ?bs))"
    by (rule add_item_ok[OF e, of c]) blast
  have "length ?bs \<le> 32" using length_nat_be_le[of "unat v" 32] unat_less_power[of v] by simp
  then have "z \<longrightarrow> rlpDecodeItemIsEmptyString c' i = Inr False"
    using False by (intro impI not_empty_string[OF i(2,3)]) (simp_all add: unat_eq_0)
  moreover have "coderDecodeUInt256 (coderLookupContext c' i) = Inr v"
    using decode_number[of 32 v] i(3)
    by (simp add: coderDecodeUInt256_def contextIsValid_def createContextItem_def contextEmpty_def del: rlp_bytes.simps split del: if_split)
  ultimately show ?thesis using False i(1) by (auto simp: rlpEncodeItemUInt256_def rlpDecodeItemUInt256_def)
qed

section \<open>The properties\<close>

text \<open>
  C39: any value of byte strings and lists is encoded by the coder into the bytes of the format, from any state
  of the coder. Another coder makes an item of these bytes, wherever they are in a buffer, that is read as the
  same value, as long as every list has less than 20 items. Numbers of 64 and 256 bits are read back, with
  zero as the empty string or not.
\<close>

theorem RLP_roundtrip:
  assumes "length (rlp_bytes t) < 2 ^ 64" "short_lists t"
  shows "(\<exists>i c'. put_rlp t c = Inr (i, c') \<and> rlpDataExtract c' i = Inr (rlp_bytes t)) \<and>
    (\<exists>j d'. rlpGetItem (pre @ rlp_bytes t @ post) (length pre) (length (rlp_bytes t)) d = Inr (j, d') \<and> reads t d' j) \<and>
    (\<exists>i c'. rlpEncodeItemUInt64 c v z = Inr (i, c') \<and> rlpDecodeItemUInt64 c' i z = Inr v) \<and>
    (\<exists>i c'. rlpEncodeItemUInt256 c w z = Inr (i, c') \<and> rlpDecodeItemUInt256 c' i z = Inr w)"
proof (intro conjI)
  obtain i c' where "put_rlp t c = Inr (i, c')" "coderIsValidItem c' i" "item_bytes c' i = rlp_bytes t"
    using put_rlp_ok(1)[OF assms(1), of c] by blast
  then show "\<exists>i c'. put_rlp t c = Inr (i, c') \<and> rlpDataExtract c' i = Inr (rlp_bytes t)"
    by (simp add: rlpDataExtract_def item_bytes_def)
  show "\<exists>j d'. rlpGetItem (pre @ rlp_bytes t @ post) (length pre) (length (rlp_bytes t)) d = Inr (j, d') \<and> reads t d' j"
    using get_ok[OF assms, of d pre post] by (auto simp: got_def)
qed (rule UInt64_item UInt256_item)+

definition some_value :: rlp where
  "some_value = Lst [Str [1], Lst [], Str (replicate 60 7)]"

lemma some_value_bytes:
  "rlp_bytes some_value = [0xf8, 64, 1, 0xc0, 0xb8, 60] @ replicate 60 7"
proof -
  have "nat_be 60 = [60]" "nat_be 64 = [64]" by (simp_all add: nat_be.simps)
  then show ?thesis by (simp add: some_value_def rlp_length_def Let_def)
qed

theorem RLP_roundtrip_witness:
  "\<exists>i c' j d'. put_rlp some_value (rlpCoderCreate 5) = Inr (i, c') \<and>
     rlpDataExtract c' i = Inr ([0xf8, 64, 1, 0xc0, 0xb8, 60] @ replicate 60 7) \<and>
     rlpGetItem ([0xf8, 64, 1, 0xc0, 0xb8, 60] @ replicate 60 7) 0 66 (rlpCoderCreate 8) = Inr (j, d') \<and> reads some_value d' j"
proof -
  have "length (rlp_bytes some_value) < 2 ^ 64" "short_lists some_value"
    by (simp add: some_value_bytes) (simp add: some_value_def)
  from RLP_roundtrip[OF this, where pre = "[]" and post = "[]" and c = "rlpCoderCreate 5" and d = "rlpCoderCreate 8"]
  show ?thesis unfolding some_value_bytes by (auto simp del: append_Cons)
qed

text \<open>
  C40: a list of 20 items or more, each of which can be read, cannot: the array of its items has moved to the
  heap by then, and is freed before the list is made of it.
\<close>

theorem rlpGetItem_freed:
  assumes "length (rlp_bytes (Lst ts)) < 2 ^ 64" "\<forall>t \<in> set ts. short_lists t" "20 \<le> length ts"
  shows "rlpGetItem (rlp_bytes (Lst ts)) 0 (length (rlp_bytes (Lst ts))) c = Inl OutOfBounds"
proof -
  have l: "length (concat (map rlp_bytes ts)) < 2 ^ 64" using assms(1) by (simp add: Let_def)
  have "got c t (rlpGetItem (pre @ rlp_bytes t @ post) (length pre) (length (rlp_bytes t)) c)"
    if t: "t \<in> set ts" for t c pre post
    using get_ok assms(2) t le_less_trans[OF length_item_le[OF t] l] by blast
  from get_Lst_items[of ts, OF this assms(1), where pre = "[]" and post = "[]" and c = c]
  obtain "is" c' where "rlpGetItem ([] @ rlp_bytes (Lst ts) @ []) (length ([] :: bytes)) (length (rlp_bytes (Lst ts))) c =
      (if 20 \<le> length is then Inl OutOfBounds else Inr (coderAddContext c' (createContextList c' (rlp_bytes (Lst ts)) is)))"
    "list_all2 (\<lambda>r j. r c' j) (map reads ts) is" by blast
  then show ?thesis using assms(3) list_all2_lengthD[of _ "map reads ts" "is"] by (simp del: rlp_bytes.simps)
qed

theorem rlpGetItem_freed_witness:
  "rlpGetItem (0xd4 # replicate 20 1) 0 21 (rlpCoderCreate 8) = Inl OutOfBounds"
proof -
  have "concat (replicate n [1 :: u8]) = replicate n 1" for n by (induction n) simp_all
  then have e: "rlp_bytes (Lst (replicate 20 (Str [1]))) = 0xd4 # replicate 20 1"
    by (simp add: rlp_length_def Let_def)
  have "length (rlp_bytes (Lst (replicate 20 (Str [1])))) < 2 ^ 64" unfolding e by simp
  from rlpGetItem_freed[OF this, of "rlpCoderCreate 8"] show ?thesis unfolding e by simp
qed

end
