(* ===== verification/Spec2Isabelle.thy ===== *)
theory Spec2Isabelle
  imports BRInt BRSetCorrect BRCrypto BRBase58 BRBech32Correct BRAddressCorrect BRTransactionCorrect BRWalletReach BRWalletLoop
    BRMerkleBlockCorrect BRBloomFilterCorrect BRRlpCoderCorrect
begin

text \<open>
  A verification of the wallet core of ElaChat-Android: the C library \<open>breadwallet-core\<close> under
  \<open>src/app/src/main/jni/breadwallet-core\<close>, that keeps the keys, addresses, transactions and balance of a
  light bitcoin wallet. The Android application, written in Java, calls it through JNI.

  \<^bold>\<open>The parts and how they interact.\<close> Transactions arrive as messages, are parsed (\<open>BRTransaction.c\<close>) and
  registered with the wallet (\<open>BRWallet.c\<close>), which keeps them in hash sets (\<open>BRSet.c\<close>), orders them, and
  computes the unspent outputs and the balance. Its addresses are derived from a master public key
  (\<open>BRBIP32Sequence.c\<close>), and are the base58 or bech32 form (\<open>BRBase58.c\<close>, \<open>BRBech32.c\<close>) of what output
  scripts hold (\<open>BRAddress.c\<close>). To pay, the wallet picks unspent outputs, builds a transaction and signs it
  with derived keys (\<open>BRKey.c\<close>). That a transaction is in the block chain is shown by merkle blocks
  (\<open>BRMerkleBlock.c\<close>); which ones a peer sends is asked for with a bloom filter (\<open>BRBloomFilter.c\<close>).
  Everything rests on the hash functions of \<open>BRCrypto.c\<close> and the byte accessors of \<open>BRInt.h\<close>. The same
  directory has the core of an ethereum wallet, whose messages are encoded by \<open>BRRlpCoder.c\<close>.

  \<^bold>\<open>Theories and sources.\<close>
  \<^item> \<open>Prelude\<close>: the machine types, the results of C code that may fault, endian codecs, word lemmas.
  \<^item> \<open>Serializer\<close>: the convention by which all serialisers measure and write, and the locale \<open>serializer\<close> of
    a writer that emits the bytes of a format; interpreted for scripts, inputs and transactions.
  \<^item> \<open>BRInt\<close>: \<open>BRInt.h\<close>. \<open>BRCrypto\<close>: the hash functions of \<open>BRCrypto.c\<close>.
  \<^item> \<open>BRSet\<close>, \<open>BRSetCorrect\<close>: \<open>BRSet.c\<close>; the locale \<open>hash_eq\<close> is what a table asks of its two callbacks, and is
    interpreted for transactions and outpoints in \<open>BRWalletCorrect\<close>.
  \<^item> \<open>BRBase58\<close>, \<open>BRBech32\<close>, \<open>BRBech32Correct\<close>, \<open>BRAddress\<close>, \<open>BRAddressCorrect\<close>: text encodings and scripts.
  \<^item> \<open>BRKey\<close>, \<open>BRKeyCorrect\<close>, \<open>BRBIP32\<close>: keys and their derivation.
  \<^item> \<open>BRTransaction\<close>, \<open>BRTransactionCorrect\<close>: transactions, their codec, size, signatures and shuffling.
  \<^item> \<open>BRWallet\<close>: every operation of \<open>BRWallet.c\<close>, with the record \<open>BRWallet\<close> for \<open>struct BRWalletStruct\<close>.
    \<open>BRWalletCorrect\<close> is about \<open>_BRWalletUpdateBalance\<close>, \<open>BRWalletState\<close> and \<open>BRWalletReach\<close> about the
    invariant of all operations, \<open>BRWalletCreate\<close> and \<open>BRWalletLoop\<close> about created transactions.
  \<^item> \<open>BRMerkleBlock\<close>, \<open>BRMerkleBlockCorrect\<close>: \<open>BRMerkleBlock.c\<close>. \<open>BRBloomFilter\<close>, \<open>BRBloomFilterCorrect\<close>:
    \<open>BRBloomFilter.c\<close>, with the locale \<open>marking_filter\<close> of a set of marked positions.
  \<^item> \<open>BRUtilMath\<close>, \<open>BRUtilHex\<close>, \<open>BRRlpCoder\<close>, \<open>BRRlpCoderCorrect\<close>: \<open>ethereum/util/BRUtilMath.c\<close>,
    \<open>ethereum/util/BRUtilHex.c\<close> and \<open>ethereum/rlp/BRRlpCoder.c\<close>, the 256 bit arithmetic, the hexadecimal
    strings and the recursive length prefix encoding of the ethereum part. A coder is a record that
    holds its contexts; every operation returns the coder with the new context.

  \<^bold>\<open>How the state corresponds.\<close> A struct is a record with its fields, an array with its count a list, a buffer
  the list of its bytes, a null pointer \<open>None\<close>. Where a message sets the count of an array, the count is a field
  of its own. Integers are words of their width where they wrap around. An access outside of an object, a null
  pointer that is followed, a failed \<open>assert\<close> (the build keeps assertions), a division by zero and a loop that
  does not end are the values of \<open>fault\<close>, so that a result \<open>Inr\<close> says that none of these happens. The hash
  tables of the wallet hold transactions by hash, so the wallet keeps a list of owned transactions and sets of
  hashes, outpoints and addresses; that the table of \<open>BRSet.c\<close> behaves as such a set is what \<open>BRSetCorrect\<close>
  proves. Callbacks are the list of events that an operation sends.

  \<^bold>\<open>What the lemmas show.\<close> Hash tables refine sets and every probe ends. Codecs round trip: variable length
  integers, data pushes, base58 and base58check, bech32, addresses and scripts, private keys, transactions,
  merkle blocks; parsers stay within their buffers, or a theorem shows the message for which they do not. Public
  derivation agrees with private derivation. Signing signs the inputs that a key fits, over the digest of the
  protocol. The balance of the wallet is the value of its unspent outputs; this, the order of the transactions
  and the sets of addresses form an invariant of every reachable wallet. A created transaction spends unspent
  outputs once and accounts for all of their value. A partial merkle tree gives the root and the matched
  transactions of its block, and difficulty stays in range along a chain. A bloom filter is the set of its marked
  positions, and never misses what was put into it. Nested values are encoded by the RLP coder and read back,
  unless a list has 20 items or more, which is shown to use freed memory. The operations on 256 bit numbers, which
  work digit by digit, are the arithmetic of the numbers.

  \<^bold>\<open>Bounds and fuel.\<close> The probes of a table take its size as fuel, which is enough to see every bucket. The
  growth of a table nests at most as deep as there are table sizes. \<open>TxIsAscending\<close> and the validity checks of
  the wallet follow inputs to earlier transactions, with the number of owned transactions and one as fuel; a
  chain of references longer than that is a cycle, in which the C code does not return either.
  \<open>RemoveTransaction\<close> removes dependents first, with the number of listed transactions and two as fuel. The
  loops that may run for ever, \<open>extend_chain\<close>, \<open>CreateTxForOutputs\<close> and \<open>ceil_log2_loop\<close>, are partial functions
  whose value is \<open>None\<close> when they do; a theorem of \<open>BRWalletReach\<close> says when the first returns, and one of
  \<open>BRWalletLoop\<close> exhibits a run of the second that does not. Memory is bounded where it matters: buffers are shorter than \<open>2^62\<close> bytes, and
  \<open>malloc\<close> refuses blocks of \<open>2^63\<close> bytes or more.

  \<^bold>\<open>Parameters.\<close> The functions of secp256k1, a third-party library, are fields of a record \<open>secp256k1\<close>; what is
  relied on is stated as hypotheses where it is used, and a toy instance shows that they can hold. The time,
  the values of \<open>rand\<close>, and whether \<open>realloc\<close> moves an array are parameters too.

  \<^bold>\<open>Not modelled.\<close> Peers and their manager are threads, sockets and timers. The payment protocol, BIP38, BIP39,
  bitcoin cash addresses and the ethereum light node are separate subsystems on top of or beside the wallet; of the
  last only its coder, its integer arithmetic and its hexadecimal strings are modelled, without the decimal
  parser and the multiplication by a floating point number. The
  stream ciphers, key derivation functions and authenticators of \<open>BRCrypto.c\<close> are used by those only. The JNI
  bindings convert Java objects. Freeing memory, erasing secrets and locking have no effect that a sequential
  caller can see.
\<close>

end
